(* ===== verification/Prelude.thy ===== *)
theory Prelude
  imports Main "HOL-Library.Word" "HOL-Library.Char_ord" "HOL-Library.List_Lexorder"
    "HOL-Library.Sublist" "HOL-Library.Code_Target_Nat"
begin

text \<open>
  Shared vocabulary of the development: the errors the C++ code can end in, the result type that
  carries them, bounds-checked memory reads, and the conversions between bytes and characters.

  The code reports failures by C++ exceptions, and some inputs make it execute operations whose
  behaviour the C++ standard leaves undefined (a null dereference, a read outside a buffer).
  Both are values of \<open>error\<close>, so every function that can fail returns \<open>error + 'a\<close> and a
  caller that does not catch the exception passes it on through \<open>bind\<close>.
\<close>

section \<open>Errors\<close>

datatype undefined_op =
    Null_dereference
  | Out_of_bounds_read
  | Out_of_bounds_write
  | Invalid_range
  | Overlapping_copy
  | Use_after_free
  | Uninitialised_read
  | Double_free

datatype error =
    Invalid_argument string
  | Out_of_range string
  | Runtime_error string
  | Bad_array_new_length
  | Undefined_behaviour undefined_op

type_synonym 'a result = "error + 'a"

named_theorems result_simps "rewriting of the outcome of a sequence of fallible steps"

definition bind :: "'a result \<Rightarrow> ('a \<Rightarrow> 'b result) \<Rightarrow> 'b result" where
  "bind r f = (case r of Inl e \<Rightarrow> Inl e | Inr v \<Rightarrow> f v)"

lemma bind_Inl [simp]: "bind (Inl e) f = Inl e"
  by (simp add: bind_def)

lemma bind_Inr [simp]: "bind (Inr v) f = f v"
  by (simp add: bind_def)

lemma bind_eq_Inr [result_simps]: "bind r f = Inr w \<longleftrightarrow> (\<exists>v. r = Inr v \<and> f v = Inr w)"
  by (cases r) auto

lemma bind_eq_Inl [result_simps]:
  "bind r f = Inl e \<longleftrightarrow> r = Inl e \<or> (\<exists>v. r = Inr v \<and> f v = Inl e)"
  by (cases r) auto

lemma bind_result_assoc: "bind (bind r f) g = bind r (\<lambda>v. bind (f v) g)"
  by (cases r) auto

lemma bind_cong [fundef_cong]:
  "r = r' \<Longrightarrow> (\<And>v. r' = Inr v \<Longrightarrow> f v = f' v) \<Longrightarrow> bind r f = bind r' f'"
  by (cases r') auto

lemma bindE:
  assumes "bind r f = Inr w"
  obtains v where "r = Inr v" "f v = Inr w"
  using assms by (cases r) auto

text \<open>A \<open>throw\<close> guarded by a condition.\<close>

definition throw_if :: "bool \<Rightarrow> error \<Rightarrow> unit result" where
  "throw_if b e = (if b then Inl e else Inr ())"

lemma throw_if_simps [simp]:
  "throw_if True e = Inl e" "throw_if False e = Inr ()"
  by (simp_all add: throw_if_def)

lemma throw_if_eq_Inr [result_simps]: "throw_if b e = Inr u \<longleftrightarrow> \<not> b"
  by (simp add: throw_if_def)

lemma throw_if_eq_Inl [result_simps]: "throw_if b e = Inl e' \<longleftrightarrow> b \<and> e' = e"
  by (auto simp: throw_if_def)

text \<open>Running a list of steps, stopping at the first failure.\<close>

fun fold_result :: "('b \<Rightarrow> 'a \<Rightarrow> 'a result) \<Rightarrow> 'b list \<Rightarrow> 'a \<Rightarrow> 'a result" where
  "fold_result f [] s = Inr s"
| "fold_result f (x # xs) s = bind (f x s) (fold_result f xs)"

lemma fold_result_append:
  "fold_result f (xs @ ys) s = bind (fold_result f xs s) (fold_result f ys)"
proof (induction xs arbitrary: s)
  case Nil
  then show ?case by simp
next
  case (Cons x xs)
  then show ?case by (cases "f x s") auto
qed

lemma fold_result_snoc:
  "fold_result f (xs @ [x]) s = bind (fold_result f xs s) (f x)"
proof -
  have "fold_result f [x] = f x"
    by (rule ext) (simp add: bind_def split: sum.split)
  then show ?thesis by (simp add: fold_result_append)
qed

lemma fold_result_invariant:
  assumes "fold_result f xs s = Inr t" and "P s"
    and "\<And>x s t. x \<in> set xs \<Longrightarrow> P s \<Longrightarrow> f x s = Inr t \<Longrightarrow> P t"
  shows "P t"
  using assms
proof (induction xs arbitrary: s)
  case Nil
  then show ?case by simp
next
  case (Cons x xs)
  from Cons.prems(1) obtain u where u: "f x s = Inr u" "fold_result f xs u = Inr t"
    by (auto simp: result_simps)
  show ?case
    using Cons.IH [OF u(2)] Cons.prems(2,3) u(1) by (meson list.set_intros)
qed

text \<open>
  Loops that may run forever are partial functions into \<open>'a result option\<close>; \<open>None\<close> stands for not
  returning. \<open>obind\<close> sequences such computations.
\<close>

definition obind :: "'a result option \<Rightarrow> ('a \<Rightarrow> 'b result option) \<Rightarrow> 'b result option" where
  "obind r f = Option.bind r (\<lambda>x. case x of Inl e \<Rightarrow> Some (Inl e) | Inr v \<Rightarrow> f v)"

lemma obind_simps [simp]:
  "obind None f = None" "obind (Some (Inl e)) f = Some (Inl e)" "obind (Some (Inr v)) f = f v"
  by (simp_all add: obind_def)

lemma obind_eq_Inr [result_simps]:
  "obind r f = Some (Inr w) \<longleftrightarrow> (\<exists>v. r = Some (Inr v) \<and> f v = Some (Inr w))"
proof (cases r)
  case (Some x)
  then show ?thesis by (cases x) simp_all
qed simp

lemma obindE:
  assumes "obind r f = Some (Inr w)"
  obtains v where "r = Some (Inr v)" "f v = Some (Inr w)"
  using assms by (auto simp: result_simps)

lemma obind_returns: "\<exists>x. r = Some x \<Longrightarrow> (\<And>v. r = Some (Inr v) \<Longrightarrow> \<exists>y. f v = Some y) \<Longrightarrow> \<exists>y. obind r f = Some y"
proof -
  assume r: "\<exists>x. r = Some x" and f: "\<And>v. r = Some (Inr v) \<Longrightarrow> \<exists>y. f v = Some y"
  from r obtain x where "r = Some x" by blast
  then show ?thesis using f by (cases x) simp_all
qed

lemma obind_mono [partial_function_mono]:
  assumes "mono_option B" "\<And>y. mono_option (\<lambda>f. C y f)"
  shows "mono_option (\<lambda>f. obind (B f) (\<lambda>y. C y f))"
proof -
  have "mono_option (\<lambda>f. case x of Inl e \<Rightarrow> Some (Inl e) | Inr v \<Rightarrow> C v f)" for x
    using assms(2) by (cases x) (simp_all add: monotone_def flat_ord_def)
  then show ?thesis unfolding obind_def by (rule bind_mono [OF assms(1)])
qed

section \<open>Bytes and memory\<close>

type_synonym byte = "8 word"

definition char_of_byte :: "byte \<Rightarrow> char" where
  "char_of_byte b = char_of (unat b)"

definition byte_of_char :: "char \<Rightarrow> byte" where
  "byte_of_char c = of_nat (of_char c)"

lemma unat_inject: "unat v = unat w \<longleftrightarrow> v = w" for v w :: "'a::len word"
  by (auto intro: unsigned_word_eqI)

lemma unat_byte_of_char [simp]: "unat (byte_of_char c) = of_char c"
  by (simp add: byte_of_char_def unat_of_nat)

lemma char_of_byte_of_char [simp]: "char_of_byte (byte_of_char c) = c"
  by (simp add: char_of_byte_def)

lemma byte_of_char_of_byte [simp]: "byte_of_char (char_of_byte b) = b"
  using unsigned_less [of b, where 'a = nat] by (simp add: byte_of_char_def char_of_byte_def)

lemma char_of_byte_eq_iff [simp]: "char_of_byte a = char_of_byte b \<longleftrightarrow> a = b"
  by (metis byte_of_char_of_byte)

lemma map_char_of_byte_eq_iff [simp]: "map char_of_byte xs = map char_of_byte ys \<longleftrightarrow> xs = ys"
  by (metis (no_types, lifting) byte_of_char_of_byte list.map_comp map_idI comp_apply)

text \<open>
  A pointer into a buffer is modelled by the bytes from that pointer to the end of the buffer;
  reading past them is undefined.
\<close>

definition read8 :: "byte list \<Rightarrow> nat \<Rightarrow> byte result" where
  "read8 p i = (if i < length p then Inr (p ! i) else Inl (Undefined_behaviour Out_of_bounds_read))"

definition read_bytes :: "byte list \<Rightarrow> nat \<Rightarrow> nat \<Rightarrow> byte list result" where
  "read_bytes p off n =
     (if off + n \<le> length p then Inr (take n (drop off p))
      else Inl (Undefined_behaviour Out_of_bounds_read))"

lemma read8_ok [simp]: "i < length p \<Longrightarrow> read8 p i = Inr (p ! i)"
  by (simp add: read8_def)

lemma read_bytes_ok [simp]: "off + n \<le> length p \<Longrightarrow> read_bytes p off n = Inr (take n (drop off p))"
  by (simp add: read_bytes_def)

lemma read_bytes_length: "read_bytes p off n = Inr bs \<Longrightarrow> length bs = n"
  by (auto simp: read_bytes_def split: if_splits)

text \<open>\<open>memcmp\<close> over two ranges of equal length: the sign of the first differing byte.\<close>

fun memcmp :: "byte list \<Rightarrow> byte list \<Rightarrow> int" where
  "memcmp (x # xs) (y # ys) = (if x = y then memcmp xs ys else if x < y then -1 else 1)"
| "memcmp _ _ = 0"

lemma memcmp_eq_0 [simp]: "length xs = length ys \<Longrightarrow> memcmp xs ys = 0 \<longleftrightarrow> xs = ys"
  by (induction xs ys rule: memcmp.induct) auto

lemma memcmp_antisym: "memcmp ys xs = - memcmp xs ys"
  by (induction xs ys rule: memcmp.induct) auto

end
