(* ===== verification/Util.thy ===== *)
theory Util
  imports Prelude
begin

text \<open>
  The string helpers of src/src/lib/util.cc and the part of the C and C++ string library that the
  program calls: character classes of the "C" locale (the program never calls \<open>setlocale\<close>),
  \<open>std::getline\<close> on a string stream, \<open>std::string::find\<close>, \<open>std::to_string\<close>, \<open>std::stoul\<close>,
  \<open>std::stoi\<close> and \<open>strtoul\<close>. A \<open>std::string\<close> is a HOL \<open>string\<close>; a NUL-terminated C string is
  the list of its characters before the terminator, and a pointer into it is the suffix that
  starts there.
\<close>

section \<open>Character classes\<close>

definition isspace :: "char \<Rightarrow> bool" where
  "isspace c = (let n = (of_char c :: nat) in n = 32 \<or> (9 \<le> n \<and> n \<le> 13))"

definition isprint :: "char \<Rightarrow> bool" where
  "isprint c = (let n = (of_char c :: nat) in 32 \<le> n \<and> n \<le> 126)"

definition tolower_char :: "char \<Rightarrow> char" where
  "tolower_char c = (let n = (of_char c :: nat) in if 65 \<le> n \<and> n \<le> 90 then char_of (n + 32) else c)"

section \<open>Trimming and case\<close>

definition trimLeft :: "string \<Rightarrow> string" where
  "trimLeft s = dropWhile isspace s"

definition trimRight :: "string \<Rightarrow> string" where
  "trimRight s = rev (dropWhile isspace (rev s))"

definition trim :: "string \<Rightarrow> string" where
  "trim s = trimRight (trimLeft s)"

definition toLower :: "string \<Rightarrow> string" where
  "toLower s = map tolower_char s"

text \<open>A string without outer white space: what \<open>trim\<close> leaves and leaves alone.\<close>

definition trimmed :: "string \<Rightarrow> bool" where
  "trimmed s \<longleftrightarrow> s = [] \<or> (\<not> isspace (hd s) \<and> \<not> isspace (last s))"

lemma dropWhile_hd: "dropWhile P xs \<noteq> [] \<Longrightarrow> \<not> P (hd (dropWhile P xs))"
  by (rule hd_dropWhile)

lemma trimLeft_id: "s = [] \<or> \<not> isspace (hd s) \<Longrightarrow> trimLeft s = s"
  by (cases s) (auto simp: trimLeft_def)

lemma trimRight_id: "s = [] \<or> \<not> isspace (last s) \<Longrightarrow> trimRight s = s"
  by (cases s rule: rev_cases) (auto simp: trimRight_def)

lemma trim_id [simp]: "trimmed s \<Longrightarrow> trim s = s"
  by (auto simp: trim_def trimmed_def trimLeft_id trimRight_id)

lemma trimLeft_hd: "trimLeft s \<noteq> [] \<Longrightarrow> \<not> isspace (hd (trimLeft s))"
  unfolding trimLeft_def by (rule hd_dropWhile)

lemma trimRight_last: "trimRight s \<noteq> [] \<Longrightarrow> \<not> isspace (last (trimRight s))"
  unfolding trimRight_def using hd_dropWhile [of isspace "rev s"] by (simp add: last_rev)

lemma trimRight_prefix: "\<exists>ws. s = trimRight s @ ws"
proof -
  have "rev s = takeWhile isspace (rev s) @ dropWhile isspace (rev s)" by simp
  then have "s = trimRight s @ rev (takeWhile isspace (rev s))"
    unfolding trimRight_def by (metis rev_append rev_rev_ident)
  then show ?thesis by blast
qed

lemma trimmed_trim [simp]: "trimmed (trim s)"
proof (cases "trim s = []")
  case True
  then show ?thesis by (simp add: trimmed_def)
next
  case False
  obtain ws where ws: "trimLeft s = trim s @ ws"
    using trimRight_prefix [of "trimLeft s"] by (auto simp: trim_def)
  with False have "hd (trimLeft s) = hd (trim s)" "trimLeft s \<noteq> []" by auto
  with trimLeft_hd [of s] have "\<not> isspace (hd (trim s))" by simp
  moreover have "\<not> isspace (last (trim s))"
    using False trimRight_last by (simp add: trim_def)
  ultimately show ?thesis by (simp add: trimmed_def)
qed

lemma trim_idem [simp]: "trim (trim s) = trim s"
  by simp

lemma trim_space_append: "isspace c \<Longrightarrow> trim (c # s) = trim s"
  by (simp add: trim_def trimLeft_def)

section \<open>String streams and \<open>std::getline\<close>\<close>

record istream =
  rest :: string
  eofbit :: bool
  failbit :: bool

definition open_stream :: "string \<Rightarrow> istream" where
  "open_stream s = \<lparr>rest = s, eofbit = False, failbit = False\<rparr>"

lemma open_stream_simps [simp]:
  "rest (open_stream s) = s" "\<not> eofbit (open_stream s)" "\<not> failbit (open_stream s)"
  by (simp_all add: open_stream_def)

text \<open>
  \<open>std::getline(stream, token, d)\<close>: whether the stream is still usable afterwards, the token, the
  new stream. Where nothing was extracted the token is the empty string; every caller passes a
  string that is empty or is not looked at after a failure.
\<close>

definition getline :: "char \<Rightarrow> istream \<Rightarrow> bool \<times> string \<times> istream" where
  "getline d st =
     (if eofbit st \<or> failbit st then (False, [], st\<lparr>failbit := True\<rparr>)
      else if rest st = [] then (False, [], st\<lparr>eofbit := True, failbit := True\<rparr>)
      else
        let r = dropWhile (\<lambda>c. c \<noteq> d) (rest st)
        in (True, takeWhile (\<lambda>c. c \<noteq> d) (rest st), st\<lparr>rest := drop 1 r, eofbit := (r = [])\<rparr>))"

lemma getline_shorter: "getline d st = (True, tok, st') \<Longrightarrow> length (rest st') < length (rest st)"
proof -
  assume a: "getline d st = (True, tok, st')"
  then have ne: "rest st \<noteq> []" and r: "rest st' = drop 1 (dropWhile (\<lambda>c. c \<noteq> d) (rest st))"
    by (auto simp: getline_def Let_def split: if_splits)
  have "length (dropWhile (\<lambda>c. c \<noteq> d) (rest st)) \<le> length (rest st)"
    by (rule length_dropWhile_le)
  with ne r show ?thesis by (cases "dropWhile (\<lambda>c. c \<noteq> d) (rest st)") auto
qed

lemma dropWhile_absent: "d \<notin> set l \<Longrightarrow> dropWhile (\<lambda>c. c \<noteq> d) l = []"
  by (auto simp: dropWhile_eq_Nil_conv)

lemma takeWhile_absent: "d \<notin> set l \<Longrightarrow> takeWhile (\<lambda>c. c \<noteq> d) l = l"
  by (auto simp: takeWhile_eq_all_conv)

lemma getline_line:
  assumes "\<not> eofbit st" "\<not> failbit st" "d \<notin> set l" "rest st = l @ d # r"
  shows "getline d st = (True, l, st\<lparr>rest := r\<rparr>)"
proof -
  have "takeWhile (\<lambda>c. c \<noteq> d) (l @ d # r) = l" "dropWhile (\<lambda>c. c \<noteq> d) (l @ d # r) = d # r"
    using assms(3) by (auto simp: takeWhile_append dropWhile_append)
  with assms show ?thesis by (simp add: getline_def Let_def)
qed

lemma getline_last:
  assumes "\<not> eofbit st" "\<not> failbit st" "d \<notin> set l" "rest st = l" "l \<noteq> []"
  shows "getline d st = (True, l, st\<lparr>rest := [], eofbit := True\<rparr>)"
  using assms by (simp add: getline_def Let_def takeWhile_absent dropWhile_absent)

lemma getline_at_eof [simp]: "eofbit st \<Longrightarrow> getline d st = (False, [], st\<lparr>failbit := True\<rparr>)"
  by (simp add: getline_def)

section \<open>\<open>tokenize\<close>\<close>

text \<open>The loop reads with the fixed separator \<open>':'\<close>; the parameter \<open>delimiter\<close> is not used.\<close>

function tokenize_loop :: "istream \<Rightarrow> string list" where
  "tokenize_loop st =
     (case getline (CHR '':'') st of (ok, token, st') \<Rightarrow>
        if ok then token # tokenize_loop st' else [])"
  by pat_completeness auto
termination
  by (relation "measure (\<lambda>st. length (rest st))") (auto simp: getline_shorter [OF sym])

declare tokenize_loop.simps [simp del]

definition tokenize :: "string \<Rightarrow> char \<Rightarrow> string list" where
  "tokenize str delimiter = tokenize_loop (open_stream str)"

text \<open>The tokens separated by colons, as the reference for what \<open>tokenize\<close> splits.\<close>

fun join_colon :: "string list \<Rightarrow> string" where
  "join_colon [] = []"
| "join_colon [t] = t"
| "join_colon (t # u # ts) = t @ CHR '':'' # join_colon (u # ts)"

lemma join_colon_not_Nil: "ts \<noteq> [] \<Longrightarrow> last ts \<noteq> [] \<Longrightarrow> join_colon ts \<noteq> []"
  by (induction ts rule: join_colon.induct) auto

lemma tokenize_loop_join:
  assumes "ts \<noteq> []" "last ts \<noteq> []" "\<forall>t \<in> set ts. CHR '':'' \<notin> set t"
  shows "tokenize_loop (open_stream (join_colon ts)) = ts"
  using assms
proof (induction ts rule: join_colon.induct)
  case 1
  then show ?case by simp
next
  case (2 t)
  then have "getline (CHR '':'') (open_stream t) =
      (True, t, open_stream t\<lparr>rest := [], eofbit := True\<rparr>)"
    by (intro getline_last) auto
  then show ?case by (simp add: tokenize_loop.simps)
next
  case (3 t u ts)
  have "getline (CHR '':'') (open_stream (t @ CHR '':'' # join_colon (u # ts))) =
      (True, t, open_stream (join_colon (u # ts)))"
    using 3(4) by (subst getline_line [where l = t]) (auto simp: open_stream_def)
  moreover have "tokenize_loop (open_stream (join_colon (u # ts))) = u # ts"
    using 3 by auto
  ultimately show ?case by (subst tokenize_loop.simps) simp
qed

lemma tokenize_join [simp]:
  "ts \<noteq> [] \<Longrightarrow> last ts \<noteq> [] \<Longrightarrow> \<forall>t \<in> set ts. CHR '':'' \<notin> set t \<Longrightarrow>
    tokenize (join_colon ts) d = ts"
  by (simp add: tokenize_def tokenize_loop_join)

section \<open>\<open>token\<close>: the text before a delimiter of a C string\<close>

definition token :: "string \<Rightarrow> char \<Rightarrow> string option \<times> string" where
  "token s delimiter =
     (case dropWhile (\<lambda>c. c \<noteq> delimiter) s of
        [] \<Rightarrow> (None, s)
      | end_ptr \<Rightarrow> (Some end_ptr, takeWhile (\<lambda>c. c \<noteq> delimiter) s))"

lemma token_found [simp]: "d \<notin> set l \<Longrightarrow> token (l @ d # r) d = (Some (d # r), l)"
  by (simp add: token_def takeWhile_append dropWhile_append)

lemma token_absent [simp]: "d \<notin> set s \<Longrightarrow> token s d = (None, s)"
  by (simp add: token_def dropWhile_absent)

section \<open>Searching\<close>

text \<open>\<open>find(pattern, pos)\<close> of \<open>std::string\<close> and \<open>std::string_view\<close>.\<close>

fun find_at :: "string \<Rightarrow> string \<Rightarrow> nat \<Rightarrow> nat option" where
  "find_at p [] i = (if p = [] then Some i else None)"
| "find_at p (c # cs) i = (if prefix p (c # cs) then Some i else find_at p cs (Suc i))"

definition find_from :: "string \<Rightarrow> string \<Rightarrow> nat \<Rightarrow> nat option" where
  "find_from view p pos = (if length view < pos then None else find_at p (drop pos view) pos)"

text \<open>\<open>view.substr(pos, n)\<close>: \<open>n\<close> characters, or fewer at the end.\<close>

definition substr :: "string \<Rightarrow> nat \<Rightarrow> nat \<Rightarrow> string" where
  "substr view pos n = take n (drop pos view)"

lemma find_at_ge: "find_at p cs i = Some j \<Longrightarrow> i \<le> j \<and> j \<le> i + length cs"
  by (induction p cs i rule: find_at.induct) (auto split: if_splits)

lemma find_from_ge: "find_from view p pos = Some j \<Longrightarrow> pos \<le> j \<and> j \<le> length view"
  using find_at_ge [of p "drop pos view" pos j] by (auto simp: find_from_def split: if_splits)

lemma find_at_skip:
  "hd p \<notin> set xs \<Longrightarrow> p \<noteq> [] \<Longrightarrow> find_at p (xs @ r) i = find_at p r (i + length xs)"
  by (induction xs arbitrary: i) (auto simp: neq_Nil_conv)

lemma find_at_here: "p \<noteq> [] \<Longrightarrow> find_at p (p @ r) i = Some i"
  by (cases p) auto

lemma find_at_absent: "hd p \<notin> set xs \<Longrightarrow> p \<noteq> [] \<Longrightarrow> find_at p xs i = None"
  using find_at_skip [of p xs "[]" i] by simp

lemma find_from_drop: "find_from (xs @ ys) p (length xs) = find_at p ys (length xs)"
  by (simp add: find_from_def)

end
