(* ===== verification/Numbers.thy ===== *)
theory Numbers
  imports Util
begin

text \<open>
  Numbers as text: \<open>std::to_string\<close>, \<open>strtoul\<close>, \<open>std::stoul\<close>, \<open>std::stoi\<close>, the
  \<open>bytes_to_hex_string\<close> of src/src/lib/util.cc, and the conversions between \<open>unsigned long\<close>,
  \<open>int\<close> and \<open>uint16_t\<close> that the callers rely on. The host is LP64 (\<open>unsigned long\<close> has 64
  bits, \<open>int\<close> has 32), as on the Linux systems the program is built for.
\<close>

section \<open>Printing\<close>

definition digit_char :: "nat \<Rightarrow> char" where
  "digit_char n = (if n < 10 then char_of (48 + n) else char_of (87 + n))"

fun to_string :: "nat \<Rightarrow> string" where
  "to_string n = (if n < 10 then [digit_char n] else to_string (n div 10) @ [digit_char (n mod 10)])"

declare to_string.simps [simp del]

definition hex2 :: "byte \<Rightarrow> string" where
  "hex2 b = [digit_char (unat b div 16), digit_char (unat b mod 16)]"

definition bytes_to_hex_string :: "byte list \<Rightarrow> string" where
  "bytes_to_hex_string data = concat (map hex2 data)"

section \<open>Reading\<close>

definition digit_value :: "nat \<Rightarrow> char \<Rightarrow> nat option" where
  "digit_value base c =
     (let n = of_char c;
          v = (if 48 \<le> n \<and> n \<le> 57 then n - 48
               else if 97 \<le> n \<and> n \<le> 122 then n - 87
               else if 65 \<le> n \<and> n \<le> 90 then n - 55
               else 36)
      in if v < base then Some v else None)"

text \<open>The value of the longest run of digits and its length.\<close>

fun scan_digits :: "nat \<Rightarrow> nat \<Rightarrow> string \<Rightarrow> nat \<times> nat" where
  "scan_digits base acc [] = (acc, 0)"
| "scan_digits base acc (c # cs) =
     (case digit_value base c of
        None \<Rightarrow> (acc, 0)
      | Some d \<Rightarrow> (case scan_digits base (acc * base + d) cs of (v, k) \<Rightarrow> (v, Suc k)))"

definition hex_prefix :: "string \<Rightarrow> bool" where
  "hex_prefix s =
     (case s of z # x # d # _ \<Rightarrow>
        z = CHR ''0'' \<and> (x = CHR ''x'' \<or> x = CHR ''X'') \<and> digit_value 16 d \<noteq> None
      | _ \<Rightarrow> False)"

text \<open>
  The subject sequence of \<open>strtol\<close> and \<open>strtoul\<close>: white space, an optional sign, the prefix
  \<open>0x\<close> where the base is 16, digits. The result is the sign, the magnitude and the number of
  characters consumed, or \<open>None\<close> where there is no digit.
\<close>

definition scan_number :: "nat \<Rightarrow> string \<Rightarrow> (bool \<times> nat \<times> nat) option" where
  "scan_number base s =
     (let s1 = dropWhile isspace s;
          neg = (case s1 of c # _ \<Rightarrow> c = CHR ''-'' | [] \<Rightarrow> False);
          sg = (case s1 of c # _ \<Rightarrow> if c = CHR ''-'' \<or> c = CHR ''+'' then 1 else 0 | [] \<Rightarrow> 0);
          s2 = drop sg s1;
          px = (if base = 16 \<and> hex_prefix s2 then 2 else 0)
      in case scan_digits base 0 (drop px s2) of (v, k) \<Rightarrow>
           if k = 0 then None
           else Some (neg, v, (length s - length s1) + sg + px + k))"

definition ULONG_MAX :: nat where
  "ULONG_MAX = 2 ^ 64 - 1"

definition ulong_value :: "bool \<Rightarrow> nat \<Rightarrow> nat" where
  "ulong_value neg v =
     (if v > ULONG_MAX then ULONG_MAX else if neg then (2 ^ 64 - v) mod 2 ^ 64 else v)"

text \<open>\<open>strtoul\<close>: the value and the number of characters before \<open>end_ptr\<close>.\<close>

definition strtoul :: "nat \<Rightarrow> string \<Rightarrow> nat \<times> nat" where
  "strtoul base s =
     (case scan_number base s of None \<Rightarrow> (0, 0) | Some (neg, v, k) \<Rightarrow> (ulong_value neg v, k))"

definition stoul :: "string \<Rightarrow> nat result" where
  "stoul s =
     (case scan_number 10 s of
        None \<Rightarrow> Inl (Invalid_argument ''stoul'')
      | Some (neg, v, k) \<Rightarrow>
          if v > ULONG_MAX then Inl (Out_of_range ''stoul'') else Inr (ulong_value neg v))"

definition stoi :: "string \<Rightarrow> int result" where
  "stoi s =
     (case scan_number 10 s of
        None \<Rightarrow> Inl (Invalid_argument ''stoi'')
      | Some (neg, v, k) \<Rightarrow>
          let i = (if neg then - int v else int v)
          in if i < - (2 ^ 31) \<or> 2 ^ 31 - 1 < i then Inl (Out_of_range ''stoi'') else Inr i)"

text \<open>Conversion of an \<open>unsigned long\<close> or \<open>size_t\<close> to \<open>int\<close>.\<close>

definition int_of_ulong :: "nat \<Rightarrow> int" where
  "int_of_ulong n = sint (of_nat n :: 32 word)"

lemma int_of_ulong_small: "n < 2 ^ 31 \<Longrightarrow> int_of_ulong n = int n"
proof -
  assume "n < 2 ^ 31"
  then have "signed_take_bit 31 (int n) = int n"
    by (intro signed_take_bit_int_eq_self) auto
  then show ?thesis by (simp add: int_of_ulong_def signed_of_nat)
qed

lemma int_of_ulong_bound: "int_of_ulong n < 2 ^ 31"
  using sint_lt [of "of_nat n :: 32 word"] by (simp add: int_of_ulong_def)

section \<open>Digits and numerals\<close>

lemma of_char_digit_char [simp]:
  "n < 16 \<Longrightarrow> of_char (digit_char n) = (if n < 10 then 48 + n else 87 + n)"
  by (simp add: digit_char_def)

lemma digit_char_numeral [simp]:
  "digit_char 0 = CHR ''0''" "digit_char (Suc 0) = CHR ''1''" "digit_char 2 = CHR ''2''"
  "digit_char 3 = CHR ''3''" "digit_char 4 = CHR ''4''" "digit_char 5 = CHR ''5''"
  "digit_char 6 = CHR ''6''" "digit_char 7 = CHR ''7''" "digit_char 8 = CHR ''8''"
  "digit_char 9 = CHR ''9''"
  by code_simp+

lemma digit_value_digit_char [simp]: "n < 16 \<Longrightarrow> n < base \<Longrightarrow> digit_value base (digit_char n) = Some n"
  by (simp add: digit_value_def)

lemma digit_char_inj: "m < 16 \<Longrightarrow> n < 16 \<Longrightarrow> digit_char m = digit_char n \<longleftrightarrow> m = n"
  by (metis digit_value_digit_char option.inject)

definition is_digit :: "char \<Rightarrow> bool" where
  "is_digit c \<longleftrightarrow> digit_value 10 c \<noteq> None"

lemma is_digit_iff: "is_digit c \<longleftrightarrow> 48 \<le> (of_char c :: nat) \<and> (of_char c :: nat) \<le> 57"
  by (auto simp: is_digit_def digit_value_def Let_def)

lemma is_digit_not_space [simp]: "is_digit c \<Longrightarrow> \<not> isspace c"
  by (simp add: is_digit_iff isspace_def)

lemma is_digit_digit_char [simp]: "n < 10 \<Longrightarrow> is_digit (digit_char n)"
  by (simp add: is_digit_iff)

lemma is_digit_value:
  "is_digit c \<Longrightarrow> digit_value 10 c = Some (of_char c - 48) \<and> (of_char c - 48 :: nat) < 10 \<and>
    digit_char (of_char c - 48) = c"
  by (auto simp: is_digit_iff digit_value_def digit_char_def)

lemma to_string_digits: "\<forall>c \<in> set (to_string n). is_digit c"
  by (induction n rule: to_string.induct) (subst to_string.simps, auto)

lemma to_string_not_Nil [simp]: "to_string n \<noteq> []"
  by (subst to_string.simps) simp

lemma scan_digits_append:
  "\<forall>c \<in> set xs. digit_value base c \<noteq> None \<Longrightarrow>
    scan_digits base acc (xs @ ys) =
      (case scan_digits base acc xs of (v, k) \<Rightarrow>
        (case scan_digits base v ys of (w, l) \<Rightarrow> (w, k + l)))"
  by (induction xs arbitrary: acc) (auto split: prod.splits option.splits)

lemma scan_digits_to_string:
  "scan_digits 10 0 (to_string n) = (n, length (to_string n))"
proof (induction n rule: to_string.induct)
  case (1 n)
  show ?case
  proof (cases "n < 10")
    case True
    then show ?thesis by (simp add: to_string.simps [of n])
  next
    case False
    have "\<forall>c \<in> set (to_string (n div 10)). digit_value 10 c \<noteq> None"
      using to_string_digits [of "n div 10"] by (simp add: is_digit_def)
    with 1 [OF False] have "scan_digits 10 0 (to_string (n div 10) @ [digit_char (n mod 10)]) =
        (n, Suc (length (to_string (n div 10))))"
      by (simp add: scan_digits_append)
    with False show ?thesis by (simp add: to_string.simps [of n])
  qed
qed

lemma scan_digits_stop:
  assumes "\<forall>c \<in> set ds. digit_value base c \<noteq> None" "s = [] \<or> digit_value base (hd s) = None"
  shows "scan_digits base acc (ds @ s) = scan_digits base acc ds"
proof -
  have "scan_digits base v s = (v, 0)" for v
    using assms(2) by (cases s) auto
  then show ?thesis by (simp add: scan_digits_append [OF assms(1)] split: prod.split)
qed

text \<open>
  A numeral followed by something that is no digit reads back as the number; this covers the
  port numbers, the content length and the status code the program reads.
\<close>

lemma is_digit_no_sign: "is_digit c \<Longrightarrow> c \<noteq> CHR ''-'' \<and> c \<noteq> CHR ''+''"
  by (auto simp: is_digit_iff)

lemma scan_number_to_string:
  assumes "s = [] \<or> digit_value 10 (hd s) = None"
  shows "scan_number 10 (to_string n @ s) = Some (False, n, length (to_string n))"
proof -
  obtain c cs where c: "to_string n = c # cs" by (cases "to_string n") auto
  with to_string_digits [of n] have d: "is_digit c" "\<forall>c \<in> set (to_string n). digit_value 10 c \<noteq> None"
    by (auto simp: is_digit_def)
  have "scan_digits 10 0 (to_string n @ s) = (n, length (to_string n))"
    using scan_digits_stop [OF d(2) assms] by (simp add: scan_digits_to_string)
  with d(1) c is_digit_no_sign [OF d(1)] show ?thesis
    by (simp add: scan_number_def Let_def)
qed

lemma stoul_to_string [simp]: "n \<le> ULONG_MAX \<Longrightarrow> stoul (to_string n) = Inr n"
  using scan_number_to_string [of "[]" n] by (simp add: stoul_def ulong_value_def)

lemma stoi_to_string: "n < 2 ^ 31 \<Longrightarrow> stoi (to_string n) = Inr (int n)"
  using scan_number_to_string [of "[]" n] by (simp add: stoi_def)

lemma to_string_inj: "to_string m = to_string n \<longleftrightarrow> m = n"
  by (metis prod.inject scan_digits_to_string)

section \<open>Hexadecimal strings\<close>

lemma hex2_inj: "hex2 a = hex2 b \<longleftrightarrow> a = b"
proof
  assume "hex2 a = hex2 b"
  moreover have "unat a div 16 < 16" "unat b div 16 < 16"
    using unsigned_less [of a, where 'a = nat] unsigned_less [of b, where 'a = nat] by simp_all
  ultimately have "unat a div 16 = unat b div 16" "unat a mod 16 = unat b mod 16"
    by (simp_all add: hex2_def digit_char_inj)
  then have "unat a = unat b" by (metis mult_div_mod_eq)
  then show "a = b" by (rule unsigned_word_eqI)
qed simp

lemma length_hex [simp]: "length (bytes_to_hex_string bs) = 2 * length bs"
  by (induction bs) (simp_all add: bytes_to_hex_string_def hex2_def)

lemma hex_append: "bytes_to_hex_string (b # bs) = hex2 b @ bytes_to_hex_string bs"
  by (simp add: bytes_to_hex_string_def)

lemma length_hex2 [simp]: "length (hex2 b) = 2"
  by (simp add: hex2_def)

lemma hex_inj: "bytes_to_hex_string xs = bytes_to_hex_string ys \<longleftrightarrow> xs = ys"
proof
  assume eq: "bytes_to_hex_string xs = bytes_to_hex_string ys"
  then have "length xs = length ys" by (metis length_hex mult_cancel1 zero_neq_numeral)
  then show "xs = ys"
    using eq by (induction xs ys rule: list_induct2) (simp_all add: hex_append hex2_inj)
qed simp

lemma digit_char_no_colon: "n < 16 \<Longrightarrow> digit_char n \<noteq> CHR '':''"
proof
  assume "n < 16" "digit_char n = CHR '':''"
  then have "(of_char (digit_char n) :: nat) = 58" by simp
  with \<open>n < 16\<close> show False by (simp split: if_splits)
qed

lemma hex2_no_colon: "CHR '':'' \<notin> set (hex2 b)"
proof -
  have "unat b div 16 < 16"
    using unsigned_less [of b, where 'a = nat] by simp
  then show ?thesis
    using digit_char_no_colon [of "unat b div 16"] digit_char_no_colon [of "unat b mod 16"]
    by (auto simp: hex2_def)
qed

lemma hex_no_colon: "CHR '':'' \<notin> set (bytes_to_hex_string bs)"
  using hex2_no_colon by (auto simp: bytes_to_hex_string_def)

lemma to_string_no_colon: "CHR '':'' \<notin> set (to_string n)"
  using to_string_digits [of n] by (auto simp: is_digit_iff)

end
