(* ===== verification/Inet.thy ===== *)
theory Inet
  imports Numbers
begin

unbundle bit_operations_syntax

text \<open>
  Network byte order, socket addresses and the text form of addresses.

  The host is little-endian, so a 16-bit header field loaded from the packet has its two bytes
  swapped and \<open>htons\<close>/\<open>ntohs\<close> swap them back; ports are passed around in the loaded
  ("raw") form, as the code does. \<open>inet_pton\<close> and \<open>inet_ntop\<close> for \<open>AF_INET\<close> are the dotted
  decimal form of POSIX, with the rejection of leading zeros of the GNU C library; for
  \<open>AF_INET6\<close> the two functions are a parameter of the model, the record \<open>inet6\<close>.
\<close>

section \<open>Byte order\<close>

definition htons :: "16 word \<Rightarrow> 16 word" where
  "htons w = push_bit 8 w OR drop_bit 8 w"

abbreviation ntohs :: "16 word \<Rightarrow> 16 word" where
  "ntohs \<equiv> htons"

lemma htons_htons [simp]: "htons (htons w) = w"
  unfolding htons_def by (rule bit_word_eqI) (auto simp: bit_simps)

lemma htons_eq_iff [simp]: "htons a = htons b \<longleftrightarrow> a = b"
  by (metis htons_htons)

text \<open>An \<open>int\<close> or \<open>unsigned long\<close> passed as \<open>uint16_t\<close> keeps its low 16 bits.\<close>

definition htons_int :: "int \<Rightarrow> 16 word" where
  "htons_int i = htons (word_of_int i)"

section \<open>Socket addresses\<close>

definition AF_INET :: int where "AF_INET = 2"
definition AF_INET6 :: int where "AF_INET6 = 10"

record sockaddr =
  sa_family :: int
  sa_port :: "16 word"
  sa_addr :: "byte list"

section \<open>Dotted decimal text\<close>

fun split_on :: "char \<Rightarrow> string \<Rightarrow> string list" where
  "split_on d [] = [[]]"
| "split_on d (c # cs) =
     (if c = d then [] # split_on d cs
      else (case split_on d cs of t # ts \<Rightarrow> (c # t) # ts | [] \<Rightarrow> [[c]]))"

definition parse_octet :: "string \<Rightarrow> byte option" where
  "parse_octet s =
     (let v = fst (scan_digits 10 0 s)
      in if s \<noteq> [] \<and> list_all is_digit s \<and> (hd s = CHR ''0'' \<longrightarrow> length s = 1) \<and> v \<le> 255
         then Some (of_nat v) else None)"

definition inet_pton4 :: "string \<Rightarrow> byte list option" where
  "inet_pton4 s =
     (case split_on (CHR ''.'') s of
        [a, b, c, d] \<Rightarrow>
          (case (parse_octet a, parse_octet b, parse_octet c, parse_octet d) of
             (Some w, Some x, Some y, Some z) \<Rightarrow> Some [w, x, y, z]
           | _ \<Rightarrow> None)
      | _ \<Rightarrow> None)"

definition show_octet :: "byte \<Rightarrow> string" where
  "show_octet b = to_string (unat b)"

definition inet_ntop4 :: "byte list \<Rightarrow> string" where
  "inet_ntop4 a =
     show_octet (a ! 0) @ CHR ''.'' # show_octet (a ! 1) @ CHR ''.'' # show_octet (a ! 2) @
     CHR ''.'' # show_octet (a ! 3)"

record inet6 =
  inet_pton6 :: "string \<Rightarrow> byte list option"
  inet_ntop6 :: "byte list \<Rightarrow> string"

subsection \<open>Printing and reading back\<close>

lemma split_on_absent: "d \<notin> set s \<Longrightarrow> split_on d s = [s]"
  by (induction s) auto

lemma split_on_append: "d \<notin> set s \<Longrightarrow> split_on d (s @ d # r) = s # split_on d r"
  by (induction s) auto

lemma split_on_not_Nil [simp]: "split_on d s \<noteq> []"
  by (induction s) (auto split: list.split)

text \<open>The inverse of \<open>split_on\<close>.\<close>

fun join_on :: "char \<Rightarrow> string list \<Rightarrow> string" where
  "join_on d [] = []"
| "join_on d [t] = t"
| "join_on d (t # u # ts) = t @ d # join_on d (u # ts)"

lemma join_on_split_on: "join_on d (split_on d s) = s"
proof (induction s)
  case (Cons c cs)
  obtain t ts where "split_on d cs = t # ts" by (meson list.exhaust split_on_not_Nil)
  then show ?case using Cons by (cases ts) auto
qed simp

lemma to_string_scan_digits:
  assumes "s \<noteq> []" "list_all is_digit s" "hd s = CHR ''0'' \<longrightarrow> length s = 1"
  shows "to_string (fst (scan_digits 10 0 s)) = s"
  using assms
proof (induction s rule: rev_induct)
  case Nil
  then show ?case by simp
next
  case (snoc c s)
  from snoc.prems(2) obtain v where v: "digit_value 10 c = Some v" "v < 10" "digit_char v = c"
    using is_digit_value [of c] by auto
  have ds: "\<forall>c \<in> set s. digit_value 10 c \<noteq> None"
    using snoc.prems(2) by (auto simp: list_all_iff is_digit_def)
  show ?case
  proof (cases "s = []")
    case True
    with v show ?thesis by (simp add: to_string.simps [of v])
  next
    case False
    let ?m = "fst (scan_digits 10 0 s)"
    have hd0: "hd s \<noteq> CHR ''0''" using False snoc.prems(3) by auto
    have IH: "to_string ?m = s" using False snoc hd0 by auto
    have "?m \<noteq> 0"
    proof
      assume "?m = 0"
      then have "s = [digit_char 0]" using IH by (simp add: to_string.simps [of 0])
      with hd0 show False by simp
    qed
    moreover have "fst (scan_digits 10 0 (s @ [c])) = ?m * 10 + v"
      using v by (simp add: scan_digits_append [OF ds] split: prod.split)
    ultimately show ?thesis
      using IH v by (simp add: to_string.simps [of "?m * 10 + v"])
  qed
qed

lemma to_string_no_leading_zero: "hd (to_string n) = CHR ''0'' \<Longrightarrow> n = 0"
proof (induction n rule: to_string.induct)
  case (1 n)
  show ?case
  proof (cases "n < 10")
    case True
    have "of_char (digit_char n) = (48::nat) \<Longrightarrow> n = 0" using True by simp
    with 1(2) True show ?thesis by (simp add: to_string.simps [of n])
  next
    case False
    with 1(2) have "hd (to_string (n div 10)) = CHR ''0''"
      by (simp add: to_string.simps [of n])
    with 1(1) [OF False] False show ?thesis by simp
  qed
qed

lemma parse_octet_show [simp]: "parse_octet (show_octet b) = Some b"
proof -
  have u: "unat b \<le> 255" using unsigned_less [of b, where 'a = nat] by simp
  have "hd (to_string (unat b)) = CHR ''0'' \<longrightarrow> length (to_string (unat b)) = 1"
    using to_string_no_leading_zero [of "unat b"] by (metis One_nat_def length_Cons list.size(3)
        to_string.simps zero_less_numeral)
  with u show ?thesis
    using to_string_digits [of "unat b"]
    by (simp add: parse_octet_def show_octet_def scan_digits_to_string list_all_iff)
qed

lemma show_octet_parse:
  assumes "parse_octet s = Some b"
  shows "show_octet b = s"
proof -
  let ?v = "fst (scan_digits 10 0 s)"
  from assms have s: "s \<noteq> []" "list_all is_digit s" "hd s = CHR ''0'' \<longrightarrow> length s = 1"
    and v: "?v \<le> 255" "b = of_nat ?v"
    by (auto simp: parse_octet_def Let_def split: if_splits)
  then have "unat b = ?v" by (simp add: unat_of_nat)
  then show ?thesis using to_string_scan_digits [OF s] by (simp add: show_octet_def)
qed

lemma show_octet_no_dot: "CHR ''.'' \<notin> set (show_octet b)"
  using to_string_digits [of "unat b"] by (auto simp: show_octet_def is_digit_iff)

lemma inet_pton4_ntop4 [simp]: "length a = 4 \<Longrightarrow> inet_pton4 (inet_ntop4 a) = Some a"
proof -
  assume "length a = 4"
  then obtain w x y z where a: "a = [w, x, y, z]"
    by (auto simp: numeral_eq_Suc length_Suc_conv)
  then show ?thesis
    by (simp add: inet_pton4_def inet_ntop4_def split_on_append split_on_absent show_octet_no_dot)
qed

lemma inet_ntop4_pton4:
  assumes "inet_pton4 s = Some a"
  shows "inet_ntop4 a = s"
proof -
  from assms obtain p q r t w x y z where
    sp: "split_on (CHR ''.'') s = [p, q, r, t]" and a: "a = [w, x, y, z]"
    and o: "parse_octet p = Some w" "parse_octet q = Some x" "parse_octet r = Some y"
      "parse_octet t = Some z"
    by (auto simp: inet_pton4_def split: list.splits option.splits)
  have "s = p @ CHR ''.'' # q @ CHR ''.'' # r @ CHR ''.'' # t"
    using join_on_split_on [of "CHR ''.''" s] sp by simp
  then show ?thesis using a o by (simp add: inet_ntop4_def show_octet_parse)
qed

lemma inet_pton4_length: "inet_pton4 s = Some a \<Longrightarrow> length a = 4"
  by (auto simp: inet_pton4_def split: list.splits option.splits)

lemma inet_ntop4_no_colon: "CHR '':'' \<notin> set (inet_ntop4 a)"
  using to_string_no_colon by (auto simp: inet_ntop4_def show_octet_def)

lemma inet_ntop4_not_Nil [simp]: "inet_ntop4 a \<noteq> []"
  by (simp add: inet_ntop4_def)

section \<open>Address text as an interface\<close>

text \<open>
  What the conversation factory relies on: the text of an address reads back as the address, and
  an accepted text denotes an address of the right size.
\<close>

locale address_text =
  fixes pton :: "string \<Rightarrow> byte list option"
    and ntop :: "byte list \<Rightarrow> string"
    and size :: nat
  assumes pton_ntop: "length a = size \<Longrightarrow> pton (ntop a) = Some a"
    and pton_size: "pton s = Some a \<Longrightarrow> length a = size"
begin

lemma ntop_inj: "length a = size \<Longrightarrow> length b = size \<Longrightarrow> ntop a = ntop b \<longleftrightarrow> a = b"
  by (metis option.inject pton_ntop)

text \<open>Normalising a text (reading it and printing the address) is idempotent.\<close>

lemma normalise_idem: "pton s = Some a \<Longrightarrow> pton (ntop a) = Some a"
  by (simp add: pton_ntop pton_size)

end

interpretation ipv4_text: address_text inet_pton4 inet_ntop4 4
  by unfold_locales (simp_all add: inet_pton4_length)

end
