(* ===== verification/Network_Layers.thy ===== *)
theory Network_Layers
  imports Inet
begin

text \<open>
  The protocol layers of src/src/include/network_layers.h and the packet that holds them,
  src/src/include/transport_packet.h. A layer is a pointer into the captured frame (the bytes
  from that pointer to the end of the capture) and the packet size the layer below announced;
  the two can disagree, since sizes come from header fields that nobody checks. Every field
  access is a bounds-checked read, so an access beyond the captured bytes is
  \<open>Undefined_behaviour\<close>.
\<close>

section \<open>Layers\<close>

datatype protocol = PROTO_ETHERNET | PROTO_IP | PROTO_IPv6 | PROTO_TCP | PROTO_UDP

datatype layer_number = PHYSICAL | DATA_LINK | NETWORK | TRANSPORT | SESSION | PRESENTATION | APPLICATION

fun layer_num :: "layer_number \<Rightarrow> nat" where
  "layer_num PHYSICAL = 1"
| "layer_num DATA_LINK = 2"
| "layer_num NETWORK = 3"
| "layer_num TRANSPORT = 4"
| "layer_num SESSION = 5"
| "layer_num PRESENTATION = 6"
| "layer_num APPLICATION = 7"

text \<open>Layers are ordered by their numbers, the order of encapsulation.\<close>

instantiation layer_number :: linorder
begin

definition less_eq_layer_number :: "layer_number \<Rightarrow> layer_number \<Rightarrow> bool" where
  "m \<le> n \<longleftrightarrow> layer_num m \<le> layer_num n"

definition less_layer_number :: "layer_number \<Rightarrow> layer_number \<Rightarrow> bool" where
  "m < n \<longleftrightarrow> layer_num m < layer_num n"

lemma layer_num_inject: "layer_num m = layer_num n \<longleftrightarrow> m = n"
  by (cases m; cases n) simp_all

instance
  by standard (auto simp: less_eq_layer_number_def less_layer_number_def layer_num_inject)

end

lemma layer_number_simps [simp]:
  "DATA_LINK \<le> TRANSPORT" "NETWORK \<le> TRANSPORT" "PHYSICAL \<le> n" "1 \<le> layer_num n"
  by (cases n; simp add: less_eq_layer_number_def)+

record layer =
  packet_ptr :: "byte list"
  packet_size :: int

text \<open>A 16-bit header field as the little-endian host loads it.\<close>

definition load16 :: "byte list \<Rightarrow> nat \<Rightarrow> 16 word result" where
  "load16 p i =
     bind (read8 p i) (\<lambda>a. bind (read8 p (i + 1)) (\<lambda>b. Inr (ucast a OR push_bit 8 (ucast b))))"

lemma load16_ok [simp]:
  "i + 1 < length p \<Longrightarrow> load16 p i = Inr (ucast (p ! i) OR push_bit 8 (ucast (p ! (i + 1))))"
  by (simp add: load16_def)

definition be16 :: "byte \<Rightarrow> byte \<Rightarrow> 16 word" where
  "be16 hi lo = push_bit 8 (ucast hi) OR ucast lo"

lemma ntohs_load16 [simp]:
  "ntohs (ucast a OR push_bit 8 (ucast b)) = be16 a b" for a b :: byte
  unfolding htons_def be16_def
  by (rule bit_word_eqI) (auto simp: bit_simps dest: bit_imp_le_length)

subsection \<open>Ethernet\<close>

definition eth_getEtherType :: "layer \<Rightarrow> 16 word result" where
  "eth_getEtherType l = bind (load16 (packet_ptr l) 12) (\<lambda>t. Inr (ntohs t))"

definition eth_getData :: "layer \<Rightarrow> byte list" where
  "eth_getData l = drop 14 (packet_ptr l)"

definition eth_getDataSize :: "layer \<Rightarrow> int" where
  "eth_getDataSize l = packet_size l - 14"

subsection \<open>Network layer\<close>

text \<open>
  The four concrete classes below \<open>Layer3\<close>. The two specification classes carry no packet.
\<close>

datatype layer3 = IpLayerSpec | IpV6LayerSpec | IpLayer layer | IpV6Layer layer

abbreviation unsupported :: error where
  "unsupported \<equiv> Runtime_error ''unsupported operation''"

definition ip_hl4 :: "byte list \<Rightarrow> nat result" where
  "ip_hl4 p = bind (read8 p 0) (\<lambda>b. Inr (unat (b AND 15) * 4))"

definition ip_getProtocol :: protocol where [simp]: "ip_getProtocol = PROTO_IP"
definition ipv6_getProtocol :: protocol where [simp]: "ipv6_getProtocol = PROTO_IPv6"

fun getProtocol3 :: "layer3 \<Rightarrow> protocol" where
  "getProtocol3 IpLayerSpec = ip_getProtocol"
| "getProtocol3 (IpLayer _) = ip_getProtocol"
| "getProtocol3 IpV6LayerSpec = ipv6_getProtocol"
| "getProtocol3 (IpV6Layer _) = ipv6_getProtocol"

text \<open>The accessors of \<open>IpLayer\<close> and \<open>IpV6Layer\<close>; address getters return pointers and read nothing.\<close>

definition ip_getData :: "layer \<Rightarrow> byte list result" where
  [simp]: "ip_getData l = bind (ip_hl4 (packet_ptr l)) (\<lambda>h. Inr (drop h (packet_ptr l)))"

definition ip_getDataSize :: "layer \<Rightarrow> int result" where
  [simp]: "ip_getDataSize l =
     bind (load16 (packet_ptr l) 2) (\<lambda>len.
     bind (ip_hl4 (packet_ptr l)) (\<lambda>h. Inr (uint (ntohs len) - int h)))"

definition ip_getNextProtocol :: "layer \<Rightarrow> int result" where
  [simp]: "ip_getNextProtocol l = bind (read8 (packet_ptr l) 9) (\<lambda>p. Inr (uint p))"

definition ip_getSrcAddr :: "layer \<Rightarrow> byte list" where
  [simp]: "ip_getSrcAddr l = drop 12 (packet_ptr l)"

definition ip_getDestAddr :: "layer \<Rightarrow> byte list" where
  [simp]: "ip_getDestAddr l = drop 16 (packet_ptr l)"

definition ip_getSrcAddrStr :: "layer \<Rightarrow> string result" where
  [simp]: "ip_getSrcAddrStr l = bind (read_bytes (packet_ptr l) 12 4) (\<lambda>a. Inr (inet_ntop4 a))"

definition ipv6_getData :: "layer \<Rightarrow> byte list" where
  [simp]: "ipv6_getData l = drop 40 (packet_ptr l)"

definition ipv6_getDataSize :: "layer \<Rightarrow> int result" where
  [simp]: "ipv6_getDataSize l = bind (load16 (packet_ptr l) 4) (\<lambda>len. Inr (uint (ntohs len)))"

definition ipv6_getNextProtocol :: "layer \<Rightarrow> int result" where
  [simp]: "ipv6_getNextProtocol l = bind (read8 (packet_ptr l) 6) (\<lambda>p. Inr (uint p))"

definition ipv6_getSrcAddr :: "layer \<Rightarrow> byte list" where
  [simp]: "ipv6_getSrcAddr l = drop 8 (packet_ptr l)"

definition ipv6_getDestAddr :: "layer \<Rightarrow> byte list" where
  [simp]: "ipv6_getDestAddr l = drop 24 (packet_ptr l)"

definition ipv6_getSrcAddrStr :: "inet6 \<Rightarrow> layer \<Rightarrow> string result" where
  [simp]: "ipv6_getSrcAddrStr n l = bind (read_bytes (packet_ptr l) 8 16) (\<lambda>a. Inr (inet_ntop6 n a))"

text \<open>The specification classes have no packet to look at.\<close>

definition ip_spec_getData :: "byte list result" where [simp]: "ip_spec_getData = Inl unsupported"
definition ipv6_spec_getData :: "byte list result" where [simp]: "ipv6_spec_getData = Inl unsupported"
definition ip_spec_getDataSize :: "int result" where [simp]: "ip_spec_getDataSize = Inl unsupported"
definition ipv6_spec_getDataSize :: "int result" where [simp]: "ipv6_spec_getDataSize = Inl unsupported"

text \<open>The virtual calls.\<close>

fun getData3 :: "layer3 \<Rightarrow> byte list result" where
  "getData3 (IpLayer l) = ip_getData l"
| "getData3 (IpV6Layer l) = Inr (ipv6_getData l)"
| "getData3 IpLayerSpec = ip_spec_getData"
| "getData3 IpV6LayerSpec = ipv6_spec_getData"

fun getDataSize3 :: "layer3 \<Rightarrow> int result" where
  "getDataSize3 (IpLayer l) = ip_getDataSize l"
| "getDataSize3 (IpV6Layer l) = ipv6_getDataSize l"
| "getDataSize3 IpLayerSpec = ip_spec_getDataSize"
| "getDataSize3 IpV6LayerSpec = ipv6_spec_getDataSize"

fun getNextProtocol :: "layer3 \<Rightarrow> int result" where
  "getNextProtocol (IpLayer l) = ip_getNextProtocol l"
| "getNextProtocol (IpV6Layer l) = ipv6_getNextProtocol l"
| "getNextProtocol _ = Inl unsupported"

fun getSrcAddr :: "layer3 \<Rightarrow> byte list result" where
  "getSrcAddr (IpLayer l) = Inr (ip_getSrcAddr l)"
| "getSrcAddr (IpV6Layer l) = Inr (ipv6_getSrcAddr l)"
| "getSrcAddr _ = Inl unsupported"

fun getDestAddr :: "layer3 \<Rightarrow> byte list result" where
  "getDestAddr (IpLayer l) = Inr (ip_getDestAddr l)"
| "getDestAddr (IpV6Layer l) = Inr (ipv6_getDestAddr l)"
| "getDestAddr _ = Inl unsupported"

fun getSrcAddrStr :: "inet6 \<Rightarrow> layer3 \<Rightarrow> string result" where
  "getSrcAddrStr n (IpLayer l) = ip_getSrcAddrStr l"
| "getSrcAddrStr n (IpV6Layer l) = ipv6_getSrcAddrStr n l"
| "getSrcAddrStr n _ = Inl unsupported"

text \<open>The accessors that the specification classes define and the packet classes inherit.\<close>

definition ip_getAddrFamily :: int where [simp]: "ip_getAddrFamily = AF_INET"
definition ipv6_getAddrFamily :: int where [simp]: "ipv6_getAddrFamily = AF_INET6"
definition ip_getAddrSize :: nat where [simp]: "ip_getAddrSize = 4"
definition ipv6_getAddrSize :: nat where [simp]: "ipv6_getAddrSize = 16"
definition ip_getSockAddrSize :: nat where [simp]: "ip_getSockAddrSize = 16"
definition ipv6_getSockAddrSize :: nat where [simp]: "ipv6_getSockAddrSize = 28"

text \<open>\<open>inet_pton\<close> leaves the buffer alone where the text is no address.\<close>

definition pton_into :: "byte list option \<Rightarrow> byte list \<Rightarrow> bool \<times> byte list" where
  [simp]: "pton_into parsed buf = (case parsed of None \<Rightarrow> (False, buf) | Some a \<Rightarrow> (True, a))"

definition ip_getAddrFromString :: "string \<Rightarrow> byte list \<Rightarrow> bool \<times> byte list" where
  [simp]: "ip_getAddrFromString addr_str buf = pton_into (inet_pton4 addr_str) buf"

definition ipv6_getAddrFromString :: "inet6 \<Rightarrow> string \<Rightarrow> byte list \<Rightarrow> bool \<times> byte list" where
  [simp]: "ipv6_getAddrFromString n addr_str buf = pton_into (inet_pton6 n addr_str) buf"

definition ip_getSockAddr :: "byte list \<Rightarrow> 16 word \<Rightarrow> sockaddr" where
  [simp]: "ip_getSockAddr addr port = \<lparr>sa_family = ip_getAddrFamily, sa_port = port, sa_addr = addr\<rparr>"

definition ipv6_getSockAddr :: "byte list \<Rightarrow> 16 word \<Rightarrow> sockaddr" where
  [simp]: "ipv6_getSockAddr addr port = \<lparr>sa_family = ipv6_getAddrFamily, sa_port = port, sa_addr = addr\<rparr>"

definition getAddrFamily :: "layer3 \<Rightarrow> int" where
  "getAddrFamily l = (if getProtocol3 l = PROTO_IP then ip_getAddrFamily else ipv6_getAddrFamily)"

definition getAddrSize :: "layer3 \<Rightarrow> nat" where
  "getAddrSize l = (if getProtocol3 l = PROTO_IP then ip_getAddrSize else ipv6_getAddrSize)"

definition getSockAddrSize :: "layer3 \<Rightarrow> nat" where
  "getSockAddrSize l = (if getProtocol3 l = PROTO_IP then ip_getSockAddrSize else ipv6_getSockAddrSize)"

definition getAddrFromString :: "inet6 \<Rightarrow> layer3 \<Rightarrow> string \<Rightarrow> byte list \<Rightarrow> bool \<times> byte list" where
  "getAddrFromString n l addr_str buf =
     (if getProtocol3 l = PROTO_IP then ip_getAddrFromString addr_str buf
      else ipv6_getAddrFromString n addr_str buf)"

definition getSockAddr :: "layer3 \<Rightarrow> byte list \<Rightarrow> 16 word \<Rightarrow> sockaddr" where
  "getSockAddr l addr port =
     (if getProtocol3 l = PROTO_IP then ip_getSockAddr addr port else ipv6_getSockAddr addr port)"

subsection \<open>Transport layer\<close>

datatype layer4 = TcpLayer layer | UdpLayer layer

definition TH_FIN :: byte where "TH_FIN = 0x01"
definition TH_SYN :: byte where "TH_SYN = 0x02"
definition TH_RST :: byte where "TH_RST = 0x04"
definition TH_ACK :: byte where "TH_ACK = 0x10"

definition tcp_off4 :: "layer \<Rightarrow> nat result" where
  "tcp_off4 l = bind (read8 (packet_ptr l) 12) (\<lambda>b. Inr (unat (drop_bit 4 b) * 4))"

definition tcp_getData :: "layer \<Rightarrow> byte list result" where
  "tcp_getData l = bind (tcp_off4 l) (\<lambda>h. Inr (drop h (packet_ptr l)))"

definition tcp_getDataSize :: "layer \<Rightarrow> int result" where
  "tcp_getDataSize l = bind (tcp_off4 l) (\<lambda>h. Inr (packet_size l - int h))"

definition getFlags :: "layer \<Rightarrow> byte result" where
  "getFlags l = read8 (packet_ptr l) 13"

definition hasFlag :: "byte \<Rightarrow> layer \<Rightarrow> bool result" where
  "hasFlag f l = bind (getFlags l) (\<lambda>b. Inr (b AND f \<noteq> 0))"

definition hasSyn :: "layer \<Rightarrow> bool result" where "hasSyn l = hasFlag TH_SYN l"
definition hasAck :: "layer \<Rightarrow> bool result" where "hasAck l = hasFlag TH_ACK l"
definition hasRst :: "layer \<Rightarrow> bool result" where "hasRst l = hasFlag TH_RST l"
definition hasFin :: "layer \<Rightarrow> bool result" where "hasFin l = hasFlag TH_FIN l"

definition udp_getData :: "layer \<Rightarrow> byte list" where
  "udp_getData l = drop 8 (packet_ptr l)"

definition udp_getDataSize :: "layer \<Rightarrow> int result" where
  "udp_getDataSize l = bind (load16 (packet_ptr l) 4) (\<lambda>len. Inr (uint (ntohs len) - 8))"

definition tcp_getSrcPort :: "layer \<Rightarrow> 16 word result" where
  [simp]: "tcp_getSrcPort l = load16 (packet_ptr l) 0"

definition tcp_getDestPort :: "layer \<Rightarrow> 16 word result" where
  [simp]: "tcp_getDestPort l = load16 (packet_ptr l) 2"

definition udp_getSrcPort :: "layer \<Rightarrow> 16 word result" where
  [simp]: "udp_getSrcPort l = load16 (packet_ptr l) 0"

definition udp_getDestPort :: "layer \<Rightarrow> 16 word result" where
  [simp]: "udp_getDestPort l = load16 (packet_ptr l) 2"

fun getSrcPort :: "layer4 \<Rightarrow> 16 word result" where
  "getSrcPort (TcpLayer l) = tcp_getSrcPort l"
| "getSrcPort (UdpLayer l) = udp_getSrcPort l"

fun getDestPort :: "layer4 \<Rightarrow> 16 word result" where
  "getDestPort (TcpLayer l) = tcp_getDestPort l"
| "getDestPort (UdpLayer l) = udp_getDestPort l"

section \<open>Packets\<close>

datatype any_layer = Ethernet layer | Net layer3 | Trans layer4

definition eth_getLayerNumber :: layer_number where [simp]: "eth_getLayerNumber = DATA_LINK"
definition layer3_getLayerNumber :: layer_number where [simp]: "layer3_getLayerNumber = NETWORK"
definition tcp_getLayerNumber :: layer_number where [simp]: "tcp_getLayerNumber = TRANSPORT"
definition udp_getLayerNumber :: layer_number where [simp]: "udp_getLayerNumber = TRANSPORT"

fun getLayerNumber :: "any_layer \<Rightarrow> layer_number" where
  "getLayerNumber (Ethernet _) = eth_getLayerNumber"
| "getLayerNumber (Net _) = layer3_getLayerNumber"
| "getLayerNumber (Trans (TcpLayer _)) = tcp_getLayerNumber"
| "getLayerNumber (Trans (UdpLayer _)) = udp_getLayerNumber"

lemma getLayerNumber_Trans [simp]: "getLayerNumber (Trans l) = TRANSPORT"
  by (cases l) simp_all

definition eth_getProtocol :: protocol where [simp]: "eth_getProtocol = PROTO_ETHERNET"
definition tcp_getProtocol :: protocol where [simp]: "tcp_getProtocol = PROTO_TCP"
definition udp_getProtocol :: protocol where [simp]: "udp_getProtocol = PROTO_UDP"

fun getProtocol :: "any_layer \<Rightarrow> protocol" where
  "getProtocol (Ethernet _) = eth_getProtocol"
| "getProtocol (Net l) = getProtocol3 l"
| "getProtocol (Trans (TcpLayer _)) = tcp_getProtocol"
| "getProtocol (Trans (UdpLayer _)) = udp_getProtocol"

record transport_packet =
  layers :: "any_layer option list"

definition new_packet :: transport_packet where
  "new_packet = \<lparr>layers = replicate (layer_num TRANSPORT) None\<rparr>"

definition addLayer :: "any_layer \<Rightarrow> transport_packet \<Rightarrow> transport_packet" where
  "addLayer l p = p\<lparr>layers := (layers p)[layer_num (getLayerNumber l) - 1 := Some l]\<rparr>"

definition getLayer :: "transport_packet \<Rightarrow> layer_number \<Rightarrow> any_layer option result" where
  "getLayer p num =
     (if layer_num num - 1 < length (layers p) then Inr (layers p ! (layer_num num - 1))
      else Inl (Undefined_behaviour Out_of_bounds_read))"

definition isLayer :: "transport_packet \<Rightarrow> layer_number \<Rightarrow> protocol \<Rightarrow> bool result" where
  "isLayer p num proto =
     bind (getLayer p num) (\<lambda>l. Inr (case l of None \<Rightarrow> False | Some x \<Rightarrow> getProtocol x = proto))"

text \<open>
  \<open>dynamic_cast\<close> to \<open>Layer3*\<close>, \<open>Layer4*\<close>, \<open>TcpLayer*\<close> and \<open>UdpLayer*\<close>: a null pointer where the
  layer is absent or of another class. Using the result of the first two without a check
  dereferences it.
\<close>

fun as_layer3 :: "any_layer option \<Rightarrow> layer3 option" where
  "as_layer3 (Some (Net l)) = Some l"
| "as_layer3 _ = None"

fun as_layer4 :: "any_layer option \<Rightarrow> layer4 option" where
  "as_layer4 (Some (Trans l)) = Some l"
| "as_layer4 _ = None"

fun as_tcp :: "any_layer option \<Rightarrow> layer option" where
  "as_tcp (Some (Trans (TcpLayer l))) = Some l"
| "as_tcp _ = None"

fun as_udp :: "any_layer option \<Rightarrow> layer option" where
  "as_udp (Some (Trans (UdpLayer l))) = Some l"
| "as_udp _ = None"

definition deref :: "'a option \<Rightarrow> 'a result" where
  "deref p = (case p of None \<Rightarrow> Inl (Undefined_behaviour Null_dereference) | Some v \<Rightarrow> Inr v)"

lemma deref_simps [simp]:
  "deref None = Inl (Undefined_behaviour Null_dereference)" "deref (Some v) = Inr v"
  by (simp_all add: deref_def)

definition network_layer :: "transport_packet \<Rightarrow> layer3 result" where
  "network_layer p = bind (getLayer p NETWORK) (\<lambda>l. deref (as_layer3 l))"

definition transport_layer :: "transport_packet \<Rightarrow> layer4 result" where
  "transport_layer p = bind (getLayer p TRANSPORT) (\<lambda>l. deref (as_layer4 l))"

text \<open>A packet with a network and a transport layer, as \<open>Capture::packetHandler\<close> builds it.\<close>

definition packet_of :: "layer3 \<Rightarrow> layer4 \<Rightarrow> transport_packet" where
  "packet_of l3 l4 = addLayer (Trans l4) (addLayer (Net l3) new_packet)"

lemma getLayer_packet_of [simp]:
  "getLayer (packet_of l3 l4) NETWORK = Inr (Some (Net l3))"
  "getLayer (packet_of l3 l4) TRANSPORT = Inr (Some (Trans l4))"
  by (simp_all add: getLayer_def packet_of_def addLayer_def new_packet_def)

lemma packet_of_layers [simp]:
  "network_layer (packet_of l3 l4) = Inr l3" "transport_layer (packet_of l3 l4) = Inr l4"
  by (simp_all add: network_layer_def transport_layer_def)

lemma getLayer_addLayer:
  assumes "length (layers p) = 4" "n \<le> TRANSPORT"
  shows "getLayer (addLayer l p) n = (if getLayerNumber l = n then Inr (Some l) else getLayer p n)"
  using assms by (cases n; cases l) (auto simp: getLayer_def addLayer_def less_eq_layer_number_def)

end
