(* ===== verification/Actions.thy ===== *)
theory Actions
  imports Network_Layers
begin

text \<open>
  The recorded actions (src/src/include/action.h), the target test server
  (src/src/include/target_test_server.h) and the base class of conversations
  (src/src/include/packet_conversation.h): its two constructors and its action queue. The queue
  operations are offered to the replay clients through the locale \<open>action_queue_ops\<close>.
\<close>

section \<open>Actions\<close>

datatype action_type = CONNECT | SEND | RECV | CLOSE

record sub_token =
  tok :: string
  begin_idx :: int
  end_idx :: int

text \<open>\<open>OffsettedSubToken(orig, offset)\<close>.\<close>

definition offsetted_sub_token :: "sub_token \<Rightarrow> int \<Rightarrow> sub_token" where
  "offsetted_sub_token orig offset =
     \<lparr>tok = tok orig, begin_idx = begin_idx orig + offset, end_idx = end_idx orig + offset\<rparr>"

record action =
  act_type :: action_type
  act_data :: string
  sub_tokens :: "sub_token list"

text \<open>\<open>Action(type)\<close> and \<open>Action(type, data)\<close>.\<close>

definition new_action :: "action_type \<Rightarrow> action" where
  "new_action t = \<lparr>act_type = t, act_data = [], sub_tokens = []\<rparr>"

definition new_action_data :: "action_type \<Rightarrow> string \<Rightarrow> action" where
  "new_action_data t d = \<lparr>act_type = t, act_data = d, sub_tokens = []\<rparr>"

text \<open>
  \<open>Action(type, data, data_len)\<close> copies the range from \<open>data\<close> to \<open>data + data_len\<close>; a negative
  length makes it an invalid iterator range.
\<close>

definition new_action_range :: "action_type \<Rightarrow> byte list \<Rightarrow> int \<Rightarrow> action result" where
  "new_action_range t p len =
     (if len < 0 then Inl (Undefined_behaviour Invalid_range)
      else bind (read_bytes p 0 (nat len)) (\<lambda>bs. Inr (new_action_data t (map char_of_byte bs))))"

definition addSubToken :: "string \<Rightarrow> int \<Rightarrow> int \<Rightarrow> action \<Rightarrow> action" where
  "addSubToken t b e a = a\<lparr>sub_tokens := sub_tokens a @ [\<lparr>tok = t, begin_idx = b, end_idx = e\<rparr>]\<rparr>"

lemma new_action_range_data:
  "new_action_range t p len = Inr a \<Longrightarrow> act_type a = t \<and> length (act_data a) = nat len \<and> 0 \<le> len"
  by (auto simp: new_action_range_def new_action_data_def result_simps read_bytes_def split: if_splits)

section \<open>The target test server\<close>

record target_test_server =
  test_addr :: string
  test_port :: int

section \<open>Conversations\<close>

text \<open>
  \<open>cap_src_addr_\<close>, \<open>cap_dest_addr_\<close> and the captured ports are only set by the constructor that
  takes a packet: the pointers stay null and the ports indeterminate otherwise.
\<close>

record packet_conversation =
  action_queue :: "action list"
  addr_family :: int
  addr_size :: nat
  sock_addr_size :: nat
  test_sock_addr :: sockaddr
  cap_src_addr :: "byte list option"
  cap_dest_addr :: "byte list option"
  test_dest_addr :: "byte list"
  cap_dest_port :: "16 word option"
  cap_src_port :: "16 word option"
  test_dest_port :: "16 word"

text \<open>The accessors the clients use.\<close>

definition getAddressFamily :: "'a packet_conversation_scheme \<Rightarrow> int" where
  [simp]: "getAddressFamily c = addr_family c"

definition conv_getSockAddrSize :: "'a packet_conversation_scheme \<Rightarrow> nat" where
  [simp]: "conv_getSockAddrSize c = sock_addr_size c"

definition getTestSockAddr :: "'a packet_conversation_scheme \<Rightarrow> sockaddr" where
  [simp]: "getTestSockAddr c = test_sock_addr c"

definition getActionQueue :: "'a packet_conversation_scheme \<Rightarrow> action list" where
  [simp]: "getActionQueue c = action_queue c"

text \<open>\<open>PacketConversation(layer3, target)\<close>: a conversation read from a script.\<close>

definition conversation_from_spec :: "inet6 \<Rightarrow> layer3 \<Rightarrow> target_test_server \<Rightarrow> packet_conversation" where
  "conversation_from_spec n l3 target =
     (let size = getAddrSize l3;
          port = htons_int (test_port target);
          addr = snd (getAddrFromString n l3 (test_addr target) (replicate size 0))
      in \<lparr>action_queue = [], addr_family = getAddrFamily l3, addr_size = size,
          sock_addr_size = getSockAddrSize l3, test_sock_addr = getSockAddr l3 addr port,
          cap_src_addr = None, cap_dest_addr = None, test_dest_addr = addr,
          cap_dest_port = None, cap_src_port = None, test_dest_port = port\<rparr>)"

text \<open>\<open>PacketConversation(packet, target)\<close>: a conversation that starts with a captured packet.\<close>

definition conversation_from_packet ::
  "inet6 \<Rightarrow> transport_packet \<Rightarrow> target_test_server option \<Rightarrow> packet_conversation result" where
  "conversation_from_packet n packet target =
     bind (network_layer packet) (\<lambda>l3.
     bind (getSrcAddr l3) (\<lambda>src_ptr.
     bind (read_bytes src_ptr 0 (getAddrSize l3)) (\<lambda>src.
     bind (getDestAddr l3) (\<lambda>dest_ptr.
     bind (read_bytes dest_ptr 0 (getAddrSize l3)) (\<lambda>dest.
     bind (transport_layer packet) (\<lambda>l4.
     bind (getSrcPort l4) (\<lambda>sport.
     bind (getDestPort l4) (\<lambda>dport.
       let (addr, port) =
         (case target of
            Some t \<Rightarrow> (snd (getAddrFromString n l3 (test_addr t) (replicate (getAddrSize l3) 0)),
                       htons_int (test_port t))
          | None \<Rightarrow> (dest, dport))
       in Inr \<lparr>action_queue = [], addr_family = getAddrFamily l3, addr_size = getAddrSize l3,
               sock_addr_size = getSockAddrSize l3, test_sock_addr = getSockAddr l3 addr port,
               cap_src_addr = Some src, cap_dest_addr = Some dest, test_dest_addr = addr,
               cap_dest_port = Some dport, cap_src_port = Some sport, test_dest_port = port\<rparr>))))))))"

definition actionFront :: "'a packet_conversation_scheme \<Rightarrow> action result" where
  "actionFront c =
     (case action_queue c of [] \<Rightarrow> Inl (Undefined_behaviour Out_of_bounds_read) | a # _ \<Rightarrow> Inr a)"

definition actionEmpty :: "'a packet_conversation_scheme \<Rightarrow> bool" where
  "actionEmpty c = (action_queue c = [])"

definition actionPop :: "'a packet_conversation_scheme \<Rightarrow> 'a packet_conversation_scheme result" where
  "actionPop c =
     (case action_queue c of
        [] \<Rightarrow> Inl (Undefined_behaviour Out_of_bounds_read)
      | _ # as \<Rightarrow> Inr (c\<lparr>action_queue := as\<rparr>))"

definition actionPush :: "action \<Rightarrow> 'a packet_conversation_scheme \<Rightarrow> 'a packet_conversation_scheme" where
  "actionPush a c = c\<lparr>action_queue := action_queue c @ [a]\<rparr>"

lemma action_queue_actionPush [simp]: "action_queue (actionPush a c) = action_queue c @ [a]"
  by (simp add: actionPush_def)

text \<open>
  \<open>memcmp(layer3->getSrcAddr(), addr.get(), addr_size) == 0\<close>, where \<open>addr\<close> is one of the
  captured addresses, and the short-circuit conjunction the handlers combine it with.
\<close>

definition src_is :: "layer3 \<Rightarrow> byte list option \<Rightarrow> nat \<Rightarrow> bool result" where
  "src_is l3 addr n =
     bind (getSrcAddr l3) (\<lambda>p.
     bind (read_bytes p 0 n) (\<lambda>a.
     bind (deref addr) (\<lambda>q.
     bind (read_bytes q 0 n) (\<lambda>b. Inr (memcmp a b = 0)))))"

definition and_then :: "bool result \<Rightarrow> bool result \<Rightarrow> bool result" where
  "and_then a b = bind a (\<lambda>x. if x then b else Inr False)"

lemma and_then_simps [simp]:
  "and_then (Inl e) b = Inl e" "and_then (Inr True) b = b" "and_then (Inr False) b = Inr False"
  by (simp_all add: and_then_def)

lemma and_then_Inr [simp]: "and_then (Inr x) (Inr y) = Inr (x \<and> y)"
  by (cases x) simp_all

section \<open>The queue interface\<close>

locale action_queue_ops =
  fixes front :: "'c \<Rightarrow> 'a result"
    and is_empty :: "'c \<Rightarrow> bool"
    and pop :: "'c \<Rightarrow> 'c result"
    and push :: "'a \<Rightarrow> 'c \<Rightarrow> 'c"
    and pending :: "'c \<Rightarrow> 'a list"
  assumes is_empty: "is_empty c \<longleftrightarrow> pending c = []"
    and front: "pending c = a # as \<Longrightarrow> front c = Inr a"
    and pop: "pending c = a # as \<Longrightarrow> \<exists>c'. pop c = Inr c' \<and> pending c' = as"
    and push: "pending (push a c) = pending c @ [a]"
begin

text \<open>A client that checks \<open>is_empty\<close> first never takes from an empty queue.\<close>

lemma guarded_front_pop:
  assumes "\<not> is_empty c"
  obtains a c' where "front c = Inr a" "pop c = Inr c'" "pending c = a # pending c'"
  using assms is_empty front pop by (metis neq_Nil_conv)

lemma pop_shorter: "\<not> is_empty c \<Longrightarrow> pop c = Inr c' \<Longrightarrow> length (pending c') < length (pending c)"
  using guarded_front_pop [of c] by (metis Inr_inject length_Cons lessI)

text \<open>The first element pushed is the first one taken.\<close>

lemma push_front: "\<not> is_empty c \<Longrightarrow> front (push a c) = front c"
  by (metis append_Cons front guarded_front_pop push)

lemma push_first: "is_empty c \<Longrightarrow> front (push a c) = Inr a"
  by (metis append_Nil front is_empty push)

end

interpretation conv_queue: action_queue_ops actionFront actionEmpty actionPop actionPush action_queue
  by unfold_locales (simp_all add: actionFront_def actionEmpty_def actionPop_def)

end
