(* ===== verification/Tcp_Conversation.thy ===== *)
theory Tcp_Conversation
  imports Actions
begin

text \<open>
  The recorder of a TCP conversation: src/src/include/tcp_conversation.h and
  src/src/lib/tcp_conversation.cc. Each captured packet is one step of a four-state machine
  (\<open>CLOSED\<close>, \<open>SYN_SENT\<close>, \<open>SYN_RECEIVED\<close>, \<open>ESTABLISHED\<close>) that appends actions to the queue. The
  lemmas show the handlers' effect on decoded segments (a refinement of the abstract recorder
  \<open>record_segment\<close>), the session grammar of the queue, and the recording of whole sessions.
\<close>

section \<open>State and construction\<close>

datatype tcp_state = SYN_SENT | SYN_RECEIVED | ESTABLISHED | CLOSED

text \<open>\<open>closed_sockets\<close> is the sequence of \<open>close(fd)\<close> calls made so far.\<close>

record tcp_conversation = packet_conversation +
  socket_fd :: int
  cap_tcp_state :: tcp_state
  closed_sockets :: "int list"

definition tcp_from_packet ::
  "inet6 \<Rightarrow> transport_packet \<Rightarrow> target_test_server option \<Rightarrow> tcp_conversation result" where
  "tcp_from_packet n packet target =
     bind (conversation_from_packet n packet target)
       (\<lambda>c. Inr (packet_conversation.extend c (tcp_conversation.fields (-1) CLOSED [])))"

definition tcp_from_spec :: "inet6 \<Rightarrow> layer3 \<Rightarrow> target_test_server \<Rightarrow> tcp_conversation" where
  "tcp_from_spec n l3 target =
     packet_conversation.extend (conversation_from_spec n l3 target)
       (tcp_conversation.fields (-1) CLOSED [])"

definition TCP_PROT_NAME :: string where
  "TCP_PROT_NAME = ''TCP''"

section \<open>The handlers\<close>

definition close_socket :: "tcp_conversation \<Rightarrow> tcp_conversation" where
  "close_socket c = c\<lparr>closed_sockets := closed_sockets c @ [socket_fd c]\<rparr>"

definition closeProcessCapturePacket ::
  "layer3 \<Rightarrow> layer \<Rightarrow> tcp_conversation \<Rightarrow> tcp_conversation result" where
  "closeProcessCapturePacket l3 tcp c =
     bind (and_then (src_is l3 (cap_src_addr c) (addr_size c))
                    (bind (getFlags tcp) (\<lambda>f. Inr (f = TH_SYN)))) (\<lambda>syn.
       if syn then
         (let c1 = (if socket_fd c \<noteq> -1 then (close_socket c)\<lparr>socket_fd := -1\<rparr> else c)
          in Inr (c1\<lparr>cap_tcp_state := SYN_SENT\<rparr>))
       else bind (tcp_getDataSize tcp) (\<lambda>_. Inr c))"

definition synSentProcessCapturePacket ::
  "layer3 \<Rightarrow> layer \<Rightarrow> tcp_conversation \<Rightarrow> tcp_conversation result" where
  "synSentProcessCapturePacket l3 tcp c =
     bind (and_then (src_is l3 (cap_dest_addr c) (addr_size c)) (and_then (hasAck tcp) (hasSyn tcp)))
       (\<lambda>b. Inr (if b then c\<lparr>cap_tcp_state := SYN_RECEIVED\<rparr> else c))"

definition synRecvProcessCapturePacket ::
  "layer3 \<Rightarrow> layer \<Rightarrow> tcp_conversation \<Rightarrow> tcp_conversation result" where
  "synRecvProcessCapturePacket l3 tcp c =
     bind (and_then (src_is l3 (cap_src_addr c) (addr_size c)) (hasAck tcp)) (\<lambda>b.
       Inr (if b then (let c1 = c\<lparr>cap_tcp_state := ESTABLISHED\<rparr>
                       in c1\<lparr>action_queue := action_queue c1 @ [new_action CONNECT]\<rparr>)
            else c))"

definition src_port_is :: "layer4 \<Rightarrow> 16 word option \<Rightarrow> bool result" where
  "src_port_is l4 port = bind (getSrcPort l4) (\<lambda>p. Inr (port = Some p))"

definition estProcessCapturePacket ::
  "layer3 \<Rightarrow> layer \<Rightarrow> tcp_conversation \<Rightarrow> tcp_conversation result" where
  "estProcessCapturePacket l3 tcp c =
     bind (tcp_getDataSize tcp) (\<lambda>data_size.
     bind (if data_size \<noteq> 0 then
             bind (tcp_getData tcp) (\<lambda>tcp_data.
             bind (and_then (src_is l3 (cap_src_addr c) (addr_size c))
                            (src_port_is (TcpLayer tcp) (cap_src_port c))) (\<lambda>from_client.
             bind (new_action_range (if from_client then SEND else RECV) tcp_data data_size) (\<lambda>a.
               Inr (c\<lparr>action_queue := action_queue c @ [a]\<rparr>))))
           else Inr c) (\<lambda>c1.
     bind (hasFin tcp) (\<lambda>fin.
       Inr (if fin then (let c2 = c1\<lparr>cap_tcp_state := CLOSED\<rparr>
                         in c2\<lparr>action_queue := action_queue c2 @ [new_action CLOSE]\<rparr>)
            else c1))))"

definition tcp_processCapturePacket ::
  "transport_packet \<Rightarrow> tcp_conversation \<Rightarrow> tcp_conversation result" where
  "tcp_processCapturePacket packet c =
     bind (getLayer packet TRANSPORT) (\<lambda>t.
       case as_tcp t of
         None \<Rightarrow> Inr c
       | Some tcp \<Rightarrow>
           bind (hasRst tcp) (\<lambda>rst.
             if rst then
               (let c1 = (if socket_fd c \<noteq> -1 then close_socket c else c)
                in Inr (c1\<lparr>cap_tcp_state := CLOSED\<rparr>))
             else
               bind (network_layer packet) (\<lambda>l3.
                 case cap_tcp_state c of
                   CLOSED \<Rightarrow> closeProcessCapturePacket l3 tcp c
                 | SYN_SENT \<Rightarrow> synSentProcessCapturePacket l3 tcp c
                 | SYN_RECEIVED \<Rightarrow> synRecvProcessCapturePacket l3 tcp c
                 | ESTABLISHED \<Rightarrow> estProcessCapturePacket l3 tcp c)))"

definition tcp_record :: "transport_packet list \<Rightarrow> tcp_conversation \<Rightarrow> tcp_conversation result" where
  "tcp_record = fold_result tcp_processCapturePacket"

section \<open>The session grammar of the queue\<close>

text \<open>
  Replaying a queue: data and \<open>CLOSE\<close> are only legal while a connection is open. \<open>session_run\<close>
  reads the action types with the flag "a connection is open" and yields the flag at the end,
  or nothing where an action is illegal.
\<close>

fun session_run :: "bool \<Rightarrow> action_type list \<Rightarrow> bool option" where
  "session_run open [] = Some open"
| "session_run open (CONNECT # as) = session_run True as"
| "session_run True (SEND # as) = session_run True as"
| "session_run True (RECV # as) = session_run True as"
| "session_run True (CLOSE # as) = session_run False as"
| "session_run False (_ # as) = None"

lemma session_run_append:
  "session_run open (xs @ ys) = Option.bind (session_run open xs) (\<lambda>open'. session_run open' ys)"
  by (induction "open" xs rule: session_run.induct) auto

definition queue_types :: "'a packet_conversation_scheme \<Rightarrow> action_type list" where
  "queue_types c = map act_type (action_queue c)"

text \<open>The invariant of the recorder.\<close>

definition tcp_inv :: "tcp_conversation \<Rightarrow> bool" where
  "tcp_inv c \<longleftrightarrow>
     socket_fd c = -1 \<and> closed_sockets c = [] \<and>
     (\<exists>open. session_run False (queue_types c) = Some open \<and>
             (cap_tcp_state c = ESTABLISHED \<longrightarrow> open)) \<and>
     (\<forall>a \<in> set (action_queue c). (act_data a \<noteq> []) = (act_type a \<in> {SEND, RECV}))"

lemma tcp_from_packet_inv: "tcp_from_packet n p t = Inr c \<Longrightarrow> tcp_inv c"
  by (auto simp: tcp_from_packet_def conversation_from_packet_def result_simps tcp_inv_def
      queue_types_def packet_conversation.defs tcp_conversation.defs split: option.splits)

lemma tcp_from_spec_inv: "tcp_inv (tcp_from_spec n l3 t)"
  by (auto simp: tcp_from_spec_def conversation_from_spec_def tcp_inv_def Let_def
      queue_types_def packet_conversation.defs tcp_conversation.defs)

lemma closeProcess_inv:
  "closeProcessCapturePacket l3 tcp c = Inr c' \<Longrightarrow> tcp_inv c \<Longrightarrow> tcp_inv c'"
  by (auto simp: closeProcessCapturePacket_def tcp_inv_def queue_types_def result_simps
      split: if_splits)

lemma synSentProcess_inv:
  "synSentProcessCapturePacket l3 tcp c = Inr c' \<Longrightarrow> tcp_inv c \<Longrightarrow> tcp_inv c'"
  by (auto simp: synSentProcessCapturePacket_def tcp_inv_def queue_types_def result_simps
      split: if_splits)

lemma synRecvProcess_inv:
  "synRecvProcessCapturePacket l3 tcp c = Inr c' \<Longrightarrow> tcp_inv c \<Longrightarrow> tcp_inv c'"
  by (auto simp: synRecvProcessCapturePacket_def tcp_inv_def queue_types_def result_simps
      session_run_append new_action_def split: if_splits)

lemma estProcess_inv:
  assumes "estProcessCapturePacket l3 tcp c = Inr c'" "tcp_inv c" "cap_tcp_state c = ESTABLISHED"
  shows "tcp_inv c'"
proof -
  from assms(1) obtain size where size: "tcp_getDataSize tcp = Inr size"
    by (auto simp: estProcessCapturePacket_def result_simps)
  obtain c1 where c1: "tcp_inv c1" "cap_tcp_state c1 = ESTABLISHED"
    and rest: "bind (hasFin tcp) (\<lambda>fin.
       Inr (if fin then (let c2 = c1\<lparr>cap_tcp_state := CLOSED\<rparr>
                         in c2\<lparr>action_queue := action_queue c2 @ [new_action CLOSE]\<rparr>)
            else c1)) = Inr c'"
  proof (cases "size = 0")
    case True
    with size assms that [of c] show ?thesis by (auto simp: estProcessCapturePacket_def)
  next
    case False
    with assms(1) size obtain t p a where
      a: "new_action_range (if t then SEND else RECV) p size = Inr a"
      and r: "bind (hasFin tcp) (\<lambda>fin. Inr (if fin
          then (let c2 = (c\<lparr>action_queue := action_queue c @ [a]\<rparr>)\<lparr>cap_tcp_state := CLOSED\<rparr>
                in c2\<lparr>action_queue := action_queue c2 @ [new_action CLOSE]\<rparr>)
          else c\<lparr>action_queue := action_queue c @ [a]\<rparr>)) = Inr c'"
      by (auto simp: estProcessCapturePacket_def bind_eq_Inr)
    have "act_type a \<in> {SEND, RECV}" "act_data a \<noteq> []"
      using new_action_range_data [OF a] False by auto
    then have "tcp_inv (c\<lparr>action_queue := action_queue c @ [a]\<rparr>)"
      using assms(2,3) by (auto simp: tcp_inv_def queue_types_def session_run_append)
    with r assms(3) that [of "c\<lparr>action_queue := action_queue c @ [a]\<rparr>"] show ?thesis by simp
  qed
  from rest c1 show ?thesis
    by (auto simp: tcp_inv_def queue_types_def session_run_append new_action_def result_simps
        Let_def split: if_splits)
qed

lemma tcp_process_inv:
  assumes "tcp_processCapturePacket p c = Inr c'" "tcp_inv c"
  shows "tcp_inv c'"
proof -
  from assms(1) obtain t where t: "getLayer p TRANSPORT = Inr t"
    by (auto simp: tcp_processCapturePacket_def result_simps)
  show ?thesis
  proof (cases "as_tcp t")
    case None
    with assms t show ?thesis by (simp add: tcp_processCapturePacket_def)
  next
    case (Some tcp)
    with assms(1) t obtain rst where rst: "hasRst tcp = Inr rst"
      by (auto simp: tcp_processCapturePacket_def result_simps)
    show ?thesis
    proof (cases rst)
      case True
      with assms t Some rst show ?thesis
        by (auto simp: tcp_processCapturePacket_def tcp_inv_def queue_types_def)
    next
      case False
      with assms(1) t Some rst obtain l3 where "(case cap_tcp_state c of
                   CLOSED \<Rightarrow> closeProcessCapturePacket l3 tcp c
                 | SYN_SENT \<Rightarrow> synSentProcessCapturePacket l3 tcp c
                 | SYN_RECEIVED \<Rightarrow> synRecvProcessCapturePacket l3 tcp c
                 | ESTABLISHED \<Rightarrow> estProcessCapturePacket l3 tcp c) = Inr c'"
        by (auto simp: tcp_processCapturePacket_def result_simps)
      with assms(2) show ?thesis
        using closeProcess_inv synSentProcess_inv synRecvProcess_inv estProcess_inv
        by (cases "cap_tcp_state c") auto
    qed
  qed
qed

lemma tcp_record_inv: "tcp_record ps c = Inr c' \<Longrightarrow> tcp_inv c \<Longrightarrow> tcp_inv c'"
  unfolding tcp_record_def by (erule fold_result_invariant) (auto intro: tcp_process_inv)

section \<open>Decoded segments and the abstract recorder\<close>

text \<open>
  What a well-formed TCP packet says: source address, source port, flags and payload. A packet is
  well formed where both headers and the announced payload lie within the captured bytes.
\<close>

record segment =
  seg_src :: "byte list"
  seg_sport :: "16 word"
  seg_flags :: byte
  seg_payload :: string

definition l3_src :: "layer3 \<Rightarrow> byte list option" where
  "l3_src l3 =
     (case l3 of
        IpLayer l \<Rightarrow> if 16 \<le> length (packet_ptr l) then Some (take 4 (drop 12 (packet_ptr l))) else None
      | IpV6Layer l \<Rightarrow> if 24 \<le> length (packet_ptr l) then Some (take 16 (drop 8 (packet_ptr l))) else None
      | _ \<Rightarrow> None)"

definition tcp_header_len :: "layer \<Rightarrow> nat" where
  "tcp_header_len l = unat (drop_bit 4 (packet_ptr l ! 12)) * 4"

definition segment_of_layers :: "layer3 \<Rightarrow> layer \<Rightarrow> segment option" where
  "segment_of_layers l3 l =
     (case l3_src l3 of
        None \<Rightarrow> None
      | Some src \<Rightarrow>
          if 14 \<le> length (packet_ptr l) \<and> int (tcp_header_len l) \<le> packet_size l \<and>
             packet_size l \<le> int (length (packet_ptr l))
          then Some \<lparr>seg_src = src,
                     seg_sport = ucast (packet_ptr l ! 0) OR push_bit 8 (ucast (packet_ptr l ! 1)),
                     seg_flags = packet_ptr l ! 13,
                     seg_payload = map char_of_byte (take (nat (packet_size l) - tcp_header_len l)
                                     (drop (tcp_header_len l) (packet_ptr l)))\<rparr>
          else None)"

definition tcp_segment :: "transport_packet \<Rightarrow> segment option" where
  "tcp_segment p =
     (case (network_layer p, getLayer p TRANSPORT) of
        (Inr l3, Inr (Some (Trans (TcpLayer l)))) \<Rightarrow> segment_of_layers l3 l
      | _ \<Rightarrow> None)"

definition seg_has :: "byte \<Rightarrow> segment \<Rightarrow> bool" where
  "seg_has f s \<longleftrightarrow> seg_flags s AND f \<noteq> 0"

definition data_actions :: "byte list \<Rightarrow> 16 word \<Rightarrow> segment \<Rightarrow> action list" where
  "data_actions client cport s =
     (if seg_payload s = [] then []
      else [new_action_data (if seg_src s = client \<and> seg_sport s = cport then SEND else RECV)
              (seg_payload s)])"

fun record_segment ::
  "byte list \<Rightarrow> byte list \<Rightarrow> 16 word \<Rightarrow> segment \<Rightarrow> tcp_state \<times> action list \<Rightarrow> tcp_state \<times> action list" where
  "record_segment client server cport s (st, q) =
     (if seg_has TH_RST s then (CLOSED, q)
      else case st of
        CLOSED \<Rightarrow> (if seg_src s = client \<and> seg_flags s = TH_SYN then SYN_SENT else CLOSED, q)
      | SYN_SENT \<Rightarrow>
          (if seg_src s = server \<and> seg_has TH_ACK s \<and> seg_has TH_SYN s then SYN_RECEIVED else SYN_SENT, q)
      | SYN_RECEIVED \<Rightarrow>
          if seg_src s = client \<and> seg_has TH_ACK s then (ESTABLISHED, q @ [new_action CONNECT])
          else (SYN_RECEIVED, q)
      | ESTABLISHED \<Rightarrow>
          if seg_has TH_FIN s then (CLOSED, q @ data_actions client cport s @ [new_action CLOSE])
          else (ESTABLISHED, q @ data_actions client cport s))"

text \<open>The endpoints a conversation was created with.\<close>

definition endpoints :: "tcp_conversation \<Rightarrow> byte list \<Rightarrow> byte list \<Rightarrow> 16 word \<Rightarrow> bool" where
  "endpoints c client server cport \<longleftrightarrow>
     cap_src_addr c = Some client \<and> cap_dest_addr c = Some server \<and> cap_src_port c = Some cport \<and>
     length client = addr_size c \<and> length server = addr_size c \<and> socket_fd c = -1"

lemma l3_src_getSrcAddr:
  "l3_src l3 = Some a \<Longrightarrow> \<exists>p. getSrcAddr l3 = Inr p \<and> take (length a) p = a \<and> length a \<le> length p"
  by (cases l3) (auto simp: l3_src_def split: if_splits)

lemma src_is_decoded:
  assumes "l3_src l3 = Some a" "length a = n" "cap = Some b" "length b = n"
  shows "src_is l3 cap n = Inr (a = b)"
proof -
  obtain p where p: "getSrcAddr l3 = Inr p" "take n p = a" "n \<le> length p"
    using l3_src_getSrcAddr [OF assms(1)] assms(2) by auto
  then have "read_bytes p 0 n = Inr a" by simp
  moreover have "read_bytes b 0 n = Inr b" using assms(4) by simp
  ultimately show ?thesis using p assms by (simp add: src_is_def)
qed

lemma segment_of_layersD:
  assumes "segment_of_layers l3 l = Some s"
  shows "l3_src l3 = Some (seg_src s)" "getFlags l = Inr (seg_flags s)"
    "getSrcPort (TcpLayer l) = Inr (seg_sport s)"
    "hasFlag f l = Inr (seg_has f s)"
    "tcp_getDataSize l = Inr (int (length (seg_payload s)))"
    "\<exists>d. tcp_getData l = Inr d \<and>
       new_action_range t d (int (length (seg_payload s))) = Inr (new_action_data t (seg_payload s))"
proof -
  let ?h = "tcp_header_len l" and ?n = "nat (packet_size l)"
  from assms have s: "14 \<le> length (packet_ptr l)" "int ?h \<le> packet_size l"
      "packet_size l \<le> int (length (packet_ptr l))"
    and p: "seg_payload s = map char_of_byte (take (?n - ?h) (drop ?h (packet_ptr l)))"
    and r: "l3_src l3 = Some (seg_src s)" "seg_flags s = packet_ptr l ! 13"
      "seg_sport s = ucast (packet_ptr l ! 0) OR push_bit 8 (ucast (packet_ptr l ! 1))"
    by (auto simp: segment_of_layers_def split: option.splits if_splits)
  have len: "length (seg_payload s) = ?n - ?h" using p s by simp
  have off: "tcp_off4 l = Inr ?h"
    using s by (simp add: tcp_off4_def tcp_header_len_def)
  show "l3_src l3 = Some (seg_src s)" by (rule r)
  show fl: "getFlags l = Inr (seg_flags s)" using s r by (simp add: getFlags_def)
  show "getSrcPort (TcpLayer l) = Inr (seg_sport s)" using s r by simp
  show "hasFlag f l = Inr (seg_has f s)" using fl by (simp add: hasFlag_def seg_has_def)
  show "tcp_getDataSize l = Inr (int (length (seg_payload s)))"
    using off s len by (simp add: tcp_getDataSize_def)
  have "read_bytes (drop ?h (packet_ptr l)) 0 (?n - ?h) = Inr (take (?n - ?h) (drop ?h (packet_ptr l)))"
    using s by simp
  then show "\<exists>d. tcp_getData l = Inr d \<and>
       new_action_range t d (int (length (seg_payload s))) = Inr (new_action_data t (seg_payload s))"
    using off p len by (simp add: tcp_getData_def new_action_range_def)
qed

text \<open>One step of the code on a well-formed packet is one step of the abstract recorder.\<close>

lemma tcp_process_refines:
  assumes seg: "tcp_segment p = Some s" and len: "length (seg_src s) = addr_size c"
    and ep: "endpoints c client server cport"
  shows "\<exists>c'. tcp_processCapturePacket p c = Inr c' \<and>
    (cap_tcp_state c', action_queue c') =
       record_segment client server cport s (cap_tcp_state c, action_queue c) \<and>
    endpoints c' client server cport \<and> addr_size c' = addr_size c"
proof -
  from seg obtain l3 l where l: "network_layer p = Inr l3"
      "getLayer p TRANSPORT = Inr (Some (Trans (TcpLayer l)))" "segment_of_layers l3 l = Some s"
    by (auto simp: tcp_segment_def split: sum.splits option.splits any_layer.splits layer4.splits)
  note d = segment_of_layersD [OF l(3)]
  have src: "src_is l3 (Some client) (addr_size c) = Inr (seg_src s = client)"
      "src_is l3 (Some server) (addr_size c) = Inr (seg_src s = server)"
    using src_is_decoded [OF d(1) len] ep by (auto simp: endpoints_def)
  have port: "src_port_is (TcpLayer l) (Some cport) = Inr (seg_sport s = cport)"
    using d(3) by (auto simp: src_port_is_def)
  have cap: "cap_src_addr c = Some client" "cap_dest_addr c = Some server" "cap_src_port c = Some cport"
    using ep by (auto simp: endpoints_def)
  note code = tcp_processCapturePacket_def closeProcessCapturePacket_def
    synSentProcessCapturePacket_def synRecvProcessCapturePacket_def hasRst_def hasAck_def hasSyn_def
  have sock: "socket_fd c = -1" using ep by (simp add: endpoints_def)
  note step = code l(1,2) d(2,4,5) src sock cap
  consider (rst) "seg_has TH_RST s"
    | (early) "\<not> seg_has TH_RST s" "cap_tcp_state c \<noteq> ESTABLISHED"
    | (est) "\<not> seg_has TH_RST s" "cap_tcp_state c = ESTABLISHED" by blast
  then show ?thesis
  proof cases
    case rst
    with ep show ?thesis by (simp add: step endpoints_def)
  next
    case early
    with ep show ?thesis
      by (cases "cap_tcp_state c") (simp_all add: step endpoints_def Let_def)
  next
    case est
    obtain dp where dp: "tcp_getData l = Inr dp"
      "\<And>t. new_action_range t dp (int (length (seg_payload s))) = Inr (new_action_data t (seg_payload s))"
      using d(6) by (metis Inr_inject)
    have "estProcessCapturePacket l3 l c =
      Inr (let c1 = c\<lparr>action_queue := action_queue c @ data_actions client cport s\<rparr>
           in if seg_has TH_FIN s
              then c1\<lparr>cap_tcp_state := CLOSED, action_queue := action_queue c1 @ [new_action CLOSE]\<rparr>
              else c1)"
      by (simp add: estProcessCapturePacket_def d(4,5) dp src port cap hasFin_def data_actions_def)
    with est ep show ?thesis by (simp add: step endpoints_def Let_def)
  qed
qed

definition record_segments ::
  "byte list \<Rightarrow> byte list \<Rightarrow> 16 word \<Rightarrow> segment list \<Rightarrow> tcp_state \<times> action list \<Rightarrow> tcp_state \<times> action list" where
  "record_segments client server cport = fold (record_segment client server cport)"

text \<open>The packets of a list decode, with addresses of the conversation's family.\<close>

definition decodes :: "nat \<Rightarrow> transport_packet list \<Rightarrow> segment list \<Rightarrow> bool" where
  "decodes n ps ss \<longleftrightarrow>
     list_all2 (\<lambda>p s. tcp_segment p = Some s \<and> length (seg_src s) = n) ps ss"

lemma tcp_record_simulates:
  assumes "decodes (addr_size c) ps ss" "endpoints c client server cport"
  shows "\<exists>c'. tcp_record ps c = Inr c' \<and>
    (cap_tcp_state c', action_queue c') =
      record_segments client server cport ss (cap_tcp_state c, action_queue c) \<and>
    endpoints c' client server cport"
proof -
  have "list_all2 (\<lambda>p s. tcp_segment p = Some s \<and> length (seg_src s) = n) ps ss \<Longrightarrow>
    endpoints c client server cport \<Longrightarrow> addr_size c = n \<Longrightarrow>
    \<exists>c'. tcp_record ps c = Inr c' \<and>
      (cap_tcp_state c', action_queue c') =
        record_segments client server cport ss (cap_tcp_state c, action_queue c) \<and>
      endpoints c' client server cport" for n
  proof (induction ps ss arbitrary: c rule: list_all2_induct)
    case Nil
    then show ?case by (simp add: tcp_record_def record_segments_def)
  next
    case (Cons p ps s ss)
    then obtain c1 where c1: "tcp_processCapturePacket p c = Inr c1"
      "(cap_tcp_state c1, action_queue c1) =
         record_segment client server cport s (cap_tcp_state c, action_queue c)"
      "endpoints c1 client server cport" "addr_size c1 = n"
      using tcp_process_refines [of p s c client server cport] by auto
    from Cons.IH [OF c1(3,4)] obtain c2 where "tcp_record ps c1 = Inr c2"
      "(cap_tcp_state c2, action_queue c2) =
         record_segments client server cport ss (cap_tcp_state c1, action_queue c1)"
      "endpoints c2 client server cport" by blast
    with c1(1,2) show ?case by (simp add: tcp_record_def record_segments_def)
  qed
  with assms show ?thesis by (simp add: decodes_def)
qed

section \<open>Whole sessions\<close>

lemma record_established:
  assumes "\<forall>s \<in> set ss. \<not> seg_has TH_RST s \<and> \<not> seg_has TH_FIN s"
  shows "record_segments client server cport ss (ESTABLISHED, q) =
    (ESTABLISHED, q @ concat (map (data_actions client cport) ss))"
  using assms by (induction ss arbitrary: q) (auto simp: record_segments_def)

text \<open>A complete session: the handshake, data in both directions, a segment with \<open>FIN\<close>.\<close>

definition handshake :: "byte list \<Rightarrow> byte list \<Rightarrow> segment \<Rightarrow> segment \<Rightarrow> segment \<Rightarrow> bool" where
  "handshake client server syn synack ack \<longleftrightarrow>
     seg_src syn = client \<and> seg_flags syn = TH_SYN \<and>
     seg_src synack = server \<and> seg_flags synack = TH_SYN OR TH_ACK \<and>
     seg_src ack = client \<and> seg_flags ack = TH_ACK"

lemma record_handshake:
  "handshake client server syn synack ack \<Longrightarrow>
    record_segments client server cport [syn, synack, ack] (CLOSED, q) =
      (ESTABLISHED, q @ [new_action CONNECT])"
  by (simp add: handshake_def record_segments_def seg_has_def TH_SYN_def TH_ACK_def TH_RST_def)

text \<open>
  Behind the first \<open>FIN\<close> nothing is recorded until the client's address sends a plain \<open>SYN\<close> again,
  neither the rest of the closing handshake nor data of a half-closed connection.
\<close>

definition reopens :: "byte list \<Rightarrow> segment \<Rightarrow> bool" where
  "reopens client s \<longleftrightarrow> seg_src s = client \<and> seg_flags s = TH_SYN"

lemma record_closed:
  assumes "\<forall>s \<in> set ss. \<not> reopens client s"
  shows "record_segments client server cport ss (CLOSED, q) = (CLOSED, q)"
  using assms by (induction ss) (auto simp: record_segments_def reopens_def)

lemma record_segments_append:
  "record_segments client server cport (xs @ ys) s =
    record_segments client server cport ys (record_segments client server cport xs s)"
  by (simp add: record_segments_def)

lemma record_session:
  assumes "handshake client server syn synack ack"
    and "\<forall>s \<in> set ss. \<not> seg_has TH_RST s \<and> \<not> seg_has TH_FIN s"
    and "\<not> seg_has TH_RST fin" "seg_has TH_FIN fin" "\<forall>s \<in> set after. \<not> reopens client s"
  shows "record_segments client server cport ([syn, synack, ack] @ ss @ [fin] @ after) (CLOSED, q) =
    (CLOSED, q @ new_action CONNECT # concat (map (data_actions client cport) (ss @ [fin])) @
             [new_action CLOSE])"
proof -
  have "record_segments client server cport [fin] (ESTABLISHED, q') =
      (CLOSED, q' @ data_actions client cport fin @ [new_action CLOSE])" for q'
    using assms(3,4) by (simp add: record_segments_def)
  then show ?thesis
    by (simp only: record_segments_append record_handshake [OF assms(1)]
        record_established [OF assms(2)] record_closed [OF assms(5)]) simp
qed

lemma tcp_from_packet_endpoints:
  assumes c: "tcp_from_packet n p target = Inr c" and s: "tcp_segment p = Some s"
    and len: "length (seg_src s) = addr_size c" and srv: "cap_dest_addr c = Some server"
  shows "endpoints c (seg_src s) server (seg_sport s) \<and> cap_tcp_state c = CLOSED \<and> action_queue c = []"
proof -
  from s obtain l3 l where l: "network_layer p = Inr l3"
      "getLayer p TRANSPORT = Inr (Some (Trans (TcpLayer l)))" "segment_of_layers l3 l = Some s"
    by (auto simp: tcp_segment_def split: sum.splits option.splits any_layer.splits layer4.splits)
  note d = segment_of_layersD [OF l(3)]
  have t: "transport_layer p = Inr (TcpLayer l)" using l(2) by (simp add: transport_layer_def)
  obtain sp where sp: "getSrcAddr l3 = Inr sp" "take (length (seg_src s)) sp = seg_src s"
      "length (seg_src s) \<le> length sp"
    using l3_src_getSrcAddr [OF d(1)] by blast
  note defs = tcp_from_packet_def conversation_from_packet_def packet_conversation.defs
    tcp_conversation.defs result_simps Let_def
  have size: "addr_size c = getAddrSize l3"
    using c l(1) t by (auto simp: defs split: option.splits)
  have src: "read_bytes sp 0 (getAddrSize l3) = Inr (seg_src s)"
    using sp len size by simp
  have fields: "cap_src_addr c = Some (seg_src s)" "cap_src_port c = Some (seg_sport s)"
      "socket_fd c = -1" "cap_tcp_state c = CLOSED" "action_queue c = []"
    using c l(1) t sp(1) src d(3) by (auto simp: defs split: option.splits)
  have "length server = addr_size c"
    using c l(1) t srv size by (auto simp: defs dest: read_bytes_length split: option.splits)
  then show ?thesis using fields srv len by (simp add: endpoints_def)
qed

lemma session_recorded:
  assumes "tcp_from_packet n p target = Inr c"
    and "decodes (addr_size c) (p # ps) ([syn, synack, ack] @ ss @ [fin] @ after)"
    and "cap_dest_addr c = Some server" "handshake (seg_src syn) server syn synack ack"
    and "\<forall>s \<in> set ss. \<not> seg_has TH_RST s \<and> \<not> seg_has TH_FIN s"
    and "\<not> seg_has TH_RST fin" "seg_has TH_FIN fin" "\<forall>s \<in> set after. \<not> reopens (seg_src syn) s"
  shows "\<exists>c'. tcp_record (p # ps) c = Inr c' \<and> cap_tcp_state c' = CLOSED \<and>
    action_queue c' = new_action CONNECT #
      concat (map (data_actions (seg_src syn) (seg_sport syn)) (ss @ [fin])) @ [new_action CLOSE]"
proof -
  have "tcp_segment p = Some syn" "length (seg_src syn) = addr_size c"
    using assms(2) by (auto simp: decodes_def)
  then have c: "endpoints c (seg_src syn) server (seg_sport syn)"
      "cap_tcp_state c = CLOSED" "action_queue c = []"
    using tcp_from_packet_endpoints [OF assms(1)] assms(3) by auto
  show ?thesis
    using tcp_record_simulates [OF assms(2) c(1)] record_session [OF assms(4-8)] c(2,3)
    by (metis append_Nil prod.inject)
qed

section \<open>Properties\<close>

text \<open>
  C8. What a captured TCP session is recorded as: where the packets decode and are a handshake, any
  segments without \<open>FIN\<close> and \<open>RST\<close>, the first segment with \<open>FIN\<close> and whatever follows it without
  opening a connection anew (the other side's \<open>FIN\<close>, the last acknowledgements, late data), and the
  first packet created the conversation, recording them succeeds and leaves the queue
  \<open>CONNECT\<close>, the non-empty payloads from behind the handshake up to and including the first
  \<open>FIN\<close> in capture order, as \<open>SEND\<close> (from the client's address and port) or \<open>RECV\<close>, and
  \<open>CLOSE\<close>. Payload that the three segments of the handshake carry, and payload behind the first
  \<open>FIN\<close>, is not recorded.
\<close>

theorem tcp_session_recorded:
  assumes "tcp_from_packet n p target = Inr c"
    and "decodes (addr_size c) (p # ps) ([syn, synack, ack] @ ss @ [fin] @ after)"
    and "cap_dest_addr c = Some server" "handshake (seg_src syn) server syn synack ack"
    and "\<forall>s \<in> set ss. \<not> seg_has TH_RST s \<and> \<not> seg_has TH_FIN s"
    and "\<not> seg_has TH_RST fin" "seg_has TH_FIN fin" "\<forall>s \<in> set after. \<not> reopens (seg_src syn) s"
  shows "\<exists>c'. tcp_record (p # ps) c = Inr c' \<and> cap_tcp_state c' = CLOSED \<and>
    action_queue c' = new_action CONNECT #
      concat (map (data_actions (seg_src syn) (seg_sport syn)) (ss @ [fin])) @ [new_action CLOSE]"
  using assms by (rule session_recorded)

text \<open>
  C11. The recorder refines its abstract specification: on packets that decode, the code never
  fails, and state and queue evolve as \<open>record_segment\<close> says, in every state and for every
  combination of flags.
\<close>

theorem tcp_recorder_refinement:
  assumes "decodes (addr_size c) ps ss" "endpoints c client server cport"
  shows "\<exists>c'. tcp_record ps c = Inr c' \<and>
    (cap_tcp_state c', action_queue c') =
      record_segments client server cport ss (cap_tcp_state c, action_queue c) \<and>
    endpoints c' client server cport"
  using assms by (rule tcp_record_simulates)

text \<open>
  A TCP packet with \<open>RST\<close> closes the recording in every state and records nothing: no
  \<open>CLOSE\<close> action follows, so the replayed connection of a reset session stays open.
\<close>

theorem tcp_reset_records_nothing:
  assumes "getLayer p TRANSPORT = Inr (Some (Trans (TcpLayer l)))"
    and "13 < length (packet_ptr l)" "packet_ptr l ! 13 AND TH_RST \<noteq> 0" "tcp_inv c"
  shows "tcp_processCapturePacket p c = Inr (c\<lparr>cap_tcp_state := CLOSED\<rparr>)"
  using assms
  by (simp add: tcp_processCapturePacket_def hasRst_def hasFlag_def getFlags_def tcp_inv_def)

section \<open>Witnesses\<close>

text \<open>An IPv4 frame from 10.0.0.\<open>s\<close> port \<open>sp\<close> to 10.0.0.\<open>d\<close> port \<open>dp\<close>.\<close>

definition sample_ip :: "byte \<Rightarrow> byte \<Rightarrow> byte \<Rightarrow> byte list \<Rightarrow> byte list" where
  "sample_ip proto s d payload =
     [0x45, 0, 0, of_nat (20 + length payload), 0, 0, 0, 0, 64, proto, 0, 0,
      10, 0, 0, s, 10, 0, 0, d] @ payload"

definition sample_tcp :: "byte \<Rightarrow> byte \<Rightarrow> byte \<Rightarrow> byte list \<Rightarrow> byte list" where
  "sample_tcp sp dp flags payload =
     [0, sp, 0, dp, 0, 0, 0, 0, 0, 0, 0, 0, 0x50, flags, 0, 0, 0, 0, 0, 0] @ payload"

definition sample_packet :: "byte \<Rightarrow> byte \<Rightarrow> byte \<Rightarrow> byte \<Rightarrow> byte \<Rightarrow> byte list \<Rightarrow> transport_packet" where
  "sample_packet s sp d dp flags payload =
     (let t = sample_tcp sp dp flags payload; f = sample_ip 6 s d t
      in packet_of (IpLayer \<lparr>packet_ptr = f, packet_size = int (length f)\<rparr>)
           (TcpLayer \<lparr>packet_ptr = t, packet_size = int (length t)\<rparr>))"

definition sample_inet6 :: inet6 where
  "sample_inet6 = \<lparr>inet_pton6 = (\<lambda>_. None), inet_ntop6 = (\<lambda>_. [])\<rparr>"

definition sample_session :: "transport_packet list" where
  "sample_session =
     [sample_packet 1 7 2 80 0x02 [], sample_packet 2 80 1 7 0x12 [], sample_packet 1 7 2 80 0x10 [],
      sample_packet 1 7 2 80 0x18 [71], sample_packet 2 80 1 7 0x11 [72]]"

definition sample_segment :: "byte \<Rightarrow> 16 word \<Rightarrow> byte \<Rightarrow> string \<Rightarrow> segment" where
  "sample_segment s sp flags payload =
     \<lparr>seg_src = [10, 0, 0, s], seg_sport = htons sp, seg_flags = flags, seg_payload = payload\<rparr>"

definition sample_segments :: "segment list" where
  "sample_segments =
     [sample_segment 1 7 0x02 [], sample_segment 2 80 0x12 [], sample_segment 1 7 0x10 [],
      sample_segment 1 7 0x18 ''G'', sample_segment 2 80 0x11 ''H'']"

definition sample_conversation :: tcp_conversation where
  "sample_conversation =
     (case tcp_from_packet sample_inet6 (hd sample_session) None of Inr c \<Rightarrow> c)"

lemma sample_decodes: "decodes 4 sample_session sample_segments"
  by code_simp

text \<open>What follows the first \<open>FIN\<close>: the client's, with late data, and the last acknowledgement.\<close>

definition sample_closing :: "transport_packet list" where
  "sample_closing = [sample_packet 1 7 2 80 0x11 [120], sample_packet 2 80 1 7 0x10 []]"

lemma sample_closing_decodes:
  "decodes 4 (sample_session @ sample_closing)
     ([sample_segment 1 7 0x02 [], sample_segment 2 80 0x12 [], sample_segment 1 7 0x10 []] @
      [sample_segment 1 7 0x18 ''G''] @ [sample_segment 2 80 0x11 ''H''] @
      [sample_segment 1 7 0x11 ''x'', sample_segment 2 80 0x10 []])"
  by code_simp

lemma sample_created:
  "tcp_from_packet sample_inet6 (hd sample_session) None = Inr sample_conversation"
  by code_simp

lemma sample_fields:
  "addr_size sample_conversation = 4" "cap_dest_addr sample_conversation = Some [10, 0, 0, 2]"
  "cap_src_addr sample_conversation = Some [10, 0, 0, 1]"
  "cap_src_port sample_conversation = Some (htons 7)" "socket_fd sample_conversation = -1"
  by code_simp+

theorem tcp_session_recorded_witness:
  "\<exists>c'. tcp_record (sample_session @ sample_closing) sample_conversation = Inr c' \<and> cap_tcp_state c' = CLOSED \<and>
    action_queue c' = [new_action CONNECT, new_action_data SEND ''G'', new_action_data RECV ''H'',
      new_action CLOSE]"
proof -
  let ?s = "sample_segment" and ?tl = "tl (sample_session @ sample_closing)"
    and ?after = "[sample_segment 1 7 0x11 ''x'', sample_segment 2 80 0x10 []]"
  have dec: "decodes (addr_size sample_conversation) (hd sample_session # ?tl)
      ([?s 1 7 0x02 [], ?s 2 80 0x12 [], ?s 1 7 0x10 []] @ [?s 1 7 0x18 ''G''] @ [?s 2 80 0x11 ''H''] @ ?after)"
    using sample_closing_decodes by (simp add: sample_fields sample_session_def)
  have hs: "handshake (seg_src (?s 1 7 0x02 [])) [10, 0, 0, 2] (?s 1 7 0x02 []) (?s 2 80 0x12 [])
      (?s 1 7 0x10 [])"
    by code_simp
  have flags: "\<forall>s \<in> set [?s 1 7 0x18 ''G'']. \<not> seg_has TH_RST s \<and> \<not> seg_has TH_FIN s"
      "\<not> seg_has TH_RST (?s 2 80 0x11 ''H'')" "seg_has TH_FIN (?s 2 80 0x11 ''H'')"
      "\<forall>s \<in> set ?after. \<not> reopens (seg_src (?s 1 7 0x02 [])) s"
    by code_simp+
  have acts: "new_action CONNECT #
      concat (map (data_actions (seg_src (?s 1 7 0x02 [])) (seg_sport (?s 1 7 0x02 [])))
        ([?s 1 7 0x18 ''G''] @ [?s 2 80 0x11 ''H''])) @ [new_action CLOSE] =
      [new_action CONNECT, new_action_data SEND ''G'', new_action_data RECV ''H'', new_action CLOSE]"
    by code_simp
  show ?thesis
    using tcp_session_recorded [OF sample_created dec sample_fields(2) hs flags]
    by (simp add: acts [simplified] sample_session_def)
qed

theorem tcp_recorder_refinement_witness:
  "\<exists>c'. tcp_record sample_session sample_conversation = Inr c' \<and>
    (cap_tcp_state c', action_queue c') =
      record_segments [10, 0, 0, 1] [10, 0, 0, 2] (htons 7) sample_segments
        (cap_tcp_state sample_conversation, action_queue sample_conversation) \<and>
    endpoints c' [10, 0, 0, 1] [10, 0, 0, 2] (htons 7)"
  by (rule tcp_recorder_refinement) (simp_all add: sample_fields sample_decodes endpoints_def)

theorem tcp_reset_records_nothing_witness:
  "tcp_processCapturePacket (sample_packet 2 80 1 7 0x14 []) sample_conversation =
    Inr (sample_conversation\<lparr>cap_tcp_state := CLOSED\<rparr>)"
proof -
  let ?t = "sample_tcp 80 7 0x14 []"
  let ?l = "\<lparr>packet_ptr = ?t, packet_size = int (length ?t)\<rparr>"
  have "getLayer (sample_packet 2 80 1 7 0x14 []) TRANSPORT = Inr (Some (Trans (TcpLayer ?l)))"
    by (simp add: sample_packet_def Let_def)
  moreover have "13 < length (packet_ptr ?l)" "packet_ptr ?l ! 13 AND TH_RST \<noteq> 0"
    by code_simp+
  ultimately show ?thesis
    by (rule tcp_reset_records_nothing) (rule tcp_from_packet_inv [OF sample_created])
qed

end
