(* ===== verification/Udp_Conversation.thy ===== *)
theory Udp_Conversation
  imports Actions
begin

text \<open>
  The recorder of a UDP conversation: src/src/include/udp_conversation.h and
  src/src/lib/udp_conversation.cc. Every datagram becomes one action; a datagram of the client's
  address and port is a \<open>SEND\<close>, any other a \<open>RECV\<close>. The class has no state beyond its base
  class (its member \<open>socket_\<close> is never set or read).
\<close>

type_synonym udp_conversation = packet_conversation

definition udp_from_packet ::
  "inet6 \<Rightarrow> transport_packet \<Rightarrow> target_test_server option \<Rightarrow> udp_conversation result" where
  "udp_from_packet n packet target = conversation_from_packet n packet target"

definition UDP_PROT_NAME :: string where
  "UDP_PROT_NAME = ''UDP''"

definition udp_processCapturePacket ::
  "transport_packet \<Rightarrow> udp_conversation \<Rightarrow> udp_conversation result" where
  "udp_processCapturePacket packet c =
     bind (getLayer packet TRANSPORT) (\<lambda>t.
     bind (getLayer packet NETWORK) (\<lambda>n.
       case as_udp t of
         None \<Rightarrow> Inr c
       | Some udp \<Rightarrow>
           bind (deref (as_layer3 n)) (\<lambda>l3.
           bind (and_then (src_is l3 (cap_src_addr c) (addr_size c))
                          (bind (getSrcPort (UdpLayer udp)) (\<lambda>p. Inr (cap_src_port c = Some p))))
             (\<lambda>from_client.
           bind (udp_getDataSize udp) (\<lambda>size.
           bind (new_action_range (if from_client then SEND else RECV) (udp_getData udp) size) (\<lambda>a.
             Inr (c\<lparr>action_queue := action_queue c @ [a]\<rparr>)))))))"

definition udp_record :: "transport_packet list \<Rightarrow> udp_conversation \<Rightarrow> udp_conversation result" where
  "udp_record = fold_result udp_processCapturePacket"

section \<open>Decoded datagrams\<close>

record datagram =
  dg_src :: "byte list"
  dg_sport :: "16 word"
  dg_payload :: string

definition dg_size :: "layer \<Rightarrow> int" where
  "dg_size l = uint (be16 (packet_ptr l ! 4) (packet_ptr l ! 5)) - 8"

text \<open>
  The datagram a packet holds: the announced length covers the header and stays within the
  captured bytes. \<open>l3_source\<close> is the source address of the network header.
\<close>

definition l3_source :: "layer3 \<Rightarrow> byte list option" where
  "l3_source l3 =
     (case getSrcAddr l3 of
        Inl e \<Rightarrow> None
      | Inr p \<Rightarrow> if getAddrSize l3 \<le> length p then Some (take (getAddrSize l3) p) else None)"

definition udp_datagram :: "transport_packet \<Rightarrow> datagram option" where
  "udp_datagram p =
     (case (network_layer p, getLayer p TRANSPORT) of
        (Inr l3, Inr (Some (Trans (UdpLayer l)))) \<Rightarrow>
          (case l3_source l3 of
             None \<Rightarrow> None
           | Some src \<Rightarrow>
               if 8 \<le> length (packet_ptr l) \<and> 0 \<le> dg_size l \<and>
                  dg_size l + 8 \<le> int (length (packet_ptr l))
               then Some \<lparr>dg_src = src,
                          dg_sport = ucast (packet_ptr l ! 0) OR push_bit 8 (ucast (packet_ptr l ! 1)),
                          dg_payload = map char_of_byte (take (nat (dg_size l)) (drop 8 (packet_ptr l)))\<rparr>
               else None)
      | _ \<Rightarrow> None)"

definition datagram_action :: "byte list \<Rightarrow> 16 word \<Rightarrow> datagram \<Rightarrow> action" where
  "datagram_action client cport d =
     new_action_data (if dg_src d = client \<and> dg_sport d = cport then SEND else RECV) (dg_payload d)"

lemma src_is_source:
  assumes "l3_source l3 = Some a" "getAddrSize l3 = n" "length client = n"
  shows "src_is l3 (Some client) n = Inr (a = client)"
  using assms by (auto simp: l3_source_def src_is_def split: sum.splits if_splits)

lemma udp_process_datagram:
  assumes d: "udp_datagram p = Some d" and "network_layer p = Inr l3"
    and "getAddrSize l3 = addr_size c" "cap_src_addr c = Some client"
    and "cap_src_port c = Some cport" "length client = addr_size c"
  shows "udp_processCapturePacket p c =
    Inr (c\<lparr>action_queue := action_queue c @ [datagram_action client cport d]\<rparr>)"
proof -
  from d assms(2) obtain l src where l: "getLayer p TRANSPORT = Inr (Some (Trans (UdpLayer l)))"
    "l3_source l3 = Some src"
    and size: "8 \<le> length (packet_ptr l)" "0 \<le> dg_size l" "dg_size l + 8 \<le> int (length (packet_ptr l))"
    and dd: "d = \<lparr>dg_src = src,
                  dg_sport = ucast (packet_ptr l ! 0) OR push_bit 8 (ucast (packet_ptr l ! 1)),
                  dg_payload = map char_of_byte (take (nat (dg_size l)) (drop 8 (packet_ptr l)))\<rparr>"
    by (auto simp: udp_datagram_def split: sum.splits option.splits any_layer.splits layer4.splits if_splits)
  have nl: "bind (getLayer p NETWORK) (\<lambda>n. deref (as_layer3 n)) = Inr l3"
    using assms(2) by (simp add: network_layer_def)
  then obtain n where n: "getLayer p NETWORK = Inr n" "deref (as_layer3 n) = Inr l3"
    by (auto simp: result_simps)
  have src: "src_is l3 (Some client) (addr_size c) = Inr (src = client)"
    using src_is_source [OF l(2)] assms(3,6) by simp
  have "udp_getDataSize l = Inr (dg_size l)"
    using size by (simp add: udp_getDataSize_def dg_size_def)
  moreover have "bind (getSrcPort (UdpLayer l)) (\<lambda>p. Inr (cap_src_port c = Some p)) =
      Inr (dg_sport d = cport)"
    using size dd assms(5) by auto
  moreover have "read_bytes (udp_getData l) 0 (nat (dg_size l)) =
      Inr (take (nat (dg_size l)) (drop 8 (packet_ptr l)))"
    using size by (simp add: udp_getData_def)
  ultimately show ?thesis
    using size src assms(4) n l(1) dd
    by (simp add: udp_processCapturePacket_def new_action_range_def datagram_action_def)
qed

lemma udp_record_datagrams:
  assumes "list_all2 (\<lambda>p d. udp_datagram p = Some d \<and>
      (\<exists>l3. network_layer p = Inr l3 \<and> getAddrSize l3 = addr_size c)) ps ds"
    and "cap_src_addr c = Some client" "cap_src_port c = Some cport" "length client = addr_size c"
  shows "udp_record ps c =
    Inr (c\<lparr>action_queue := action_queue c @ map (datagram_action client cport) ds\<rparr>)"
proof -
  have "list_all2 (\<lambda>p d. udp_datagram p = Some d \<and>
      (\<exists>l3. network_layer p = Inr l3 \<and> getAddrSize l3 = n)) ps ds \<Longrightarrow>
    cap_src_addr c = Some client \<Longrightarrow> cap_src_port c = Some cport \<Longrightarrow> length client = n \<Longrightarrow>
    addr_size c = n \<Longrightarrow>
    udp_record ps c = Inr (c\<lparr>action_queue := action_queue c @ map (datagram_action client cport) ds\<rparr>)"
    for n
  proof (induction ps ds arbitrary: c rule: list_all2_induct)
    case Nil
    then show ?case by (simp add: udp_record_def)
  next
    case (Cons p ps d ds)
    let ?c = "c\<lparr>action_queue := action_queue c @ [datagram_action client cport d]\<rparr>"
    have "udp_processCapturePacket p c = Inr ?c"
      using Cons.hyps(1) Cons.prems udp_process_datagram by metis
    moreover have "udp_record ps ?c =
        Inr (?c\<lparr>action_queue := action_queue ?c @ map (datagram_action client cport) ds\<rparr>)"
      using Cons.prems by (intro Cons.IH) simp_all
    ultimately show ?case by (simp add: udp_record_def)
  qed
  with assms show ?thesis by blast
qed

section \<open>Properties\<close>

text \<open>
  A UDP recording holds exactly the datagrams of the capture, in order: where every packet
  holds a datagram of the conversation's address family, the queue grows by one action per
  datagram, \<open>SEND\<close> from the client's address and port, \<open>RECV\<close> otherwise, with its payload
  (empty payloads included).
\<close>

theorem udp_recording_complete:
  assumes "list_all2 (\<lambda>p d. udp_datagram p = Some d \<and>
      (\<exists>l3. network_layer p = Inr l3 \<and> getAddrSize l3 = addr_size c)) ps ds"
    and "cap_src_addr c = Some client" "cap_src_port c = Some cport" "length client = addr_size c"
  shows "udp_record ps c =
    Inr (c\<lparr>action_queue := action_queue c @ map (datagram_action client cport) ds\<rparr>)"
  using assms by (rule udp_record_datagrams)

text \<open>A TCP packet leaves a UDP conversation unchanged.\<close>

lemma udp_ignores_other_protocols:
  assumes "getLayer p TRANSPORT = Inr (Some (Trans (TcpLayer l)))" "getLayer p NETWORK = Inr x"
  shows "udp_processCapturePacket p c = Inr c"
  using assms by (simp add: udp_processCapturePacket_def)

section \<open>Witnesses\<close>

definition sample_udp :: "byte \<Rightarrow> byte \<Rightarrow> byte \<Rightarrow> byte \<Rightarrow> byte list \<Rightarrow> transport_packet" where
  "sample_udp s sp d dp payload =
     (let t = [0, sp, 0, dp, 0, of_nat (8 + length payload), 0, 0] @ payload;
          f = [0x45, 0, 0, of_nat (20 + length t), 0, 0, 0, 0, 64, 17, 0, 0,
               10, 0, 0, s, 10, 0, 0, d] @ t
      in packet_of (IpLayer \<lparr>packet_ptr = f, packet_size = int (length f)\<rparr>)
           (UdpLayer \<lparr>packet_ptr = t, packet_size = int (length t)\<rparr>))"

definition sample_udp_conversation :: udp_conversation where
  "sample_udp_conversation =
     (case udp_from_packet \<lparr>inet_pton6 = (\<lambda>_. None), inet_ntop6 = (\<lambda>_. [])\<rparr>
        (sample_udp 1 7 2 53 [81]) None of Inr c \<Rightarrow> c)"

lemma sample_udp_fields:
  "addr_size sample_udp_conversation = 4" "cap_src_addr sample_udp_conversation = Some [10, 0, 0, 1]"
  "cap_src_port sample_udp_conversation = Some (htons 7)" "action_queue sample_udp_conversation = []"
  by code_simp+

lemma sample_udp_network:
  "\<exists>l3. network_layer (sample_udp s sp d dp payload) = Inr l3 \<and> getAddrSize l3 = 4"
  by (simp add: sample_udp_def Let_def getAddrSize_def)

lemma sample_udp_datagrams:
  "udp_datagram (sample_udp 1 7 2 53 [81]) =
     Some \<lparr>dg_src = [10, 0, 0, 1], dg_sport = htons 7, dg_payload = ''Q''\<rparr>"
  "udp_datagram (sample_udp 2 53 1 7 [82, 83]) =
     Some \<lparr>dg_src = [10, 0, 0, 2], dg_sport = htons 53, dg_payload = ''RS''\<rparr>"
  by code_simp+

theorem udp_recording_complete_witness:
  "udp_record [sample_udp 1 7 2 53 [81], sample_udp 2 53 1 7 [82, 83]] sample_udp_conversation =
    Inr (sample_udp_conversation\<lparr>action_queue := [new_action_data SEND ''Q'', new_action_data RECV ''RS'']\<rparr>)"
proof -
  let ?ds = "[\<lparr>dg_src = [10, 0, 0, 1], dg_sport = htons 7, dg_payload = ''Q''\<rparr>,
    \<lparr>dg_src = [10, 0, 0, 2], dg_sport = htons 53, dg_payload = ''RS''\<rparr>]"
  have "udp_record [sample_udp 1 7 2 53 [81], sample_udp 2 53 1 7 [82, 83]] sample_udp_conversation =
    Inr (sample_udp_conversation\<lparr>action_queue := action_queue sample_udp_conversation @
      map (datagram_action [10, 0, 0, 1] (htons 7)) ?ds\<rparr>)"
    by (rule udp_recording_complete)
      (simp_all add: sample_udp_fields sample_udp_datagrams sample_udp_network)
  moreover have "map (datagram_action [10, 0, 0, 1] (htons 7)) ?ds =
      [new_action_data SEND ''Q'', new_action_data RECV ''RS'']"
    by code_simp
  ultimately show ?thesis by (simp add: sample_udp_fields)
qed

end
