(* ===== verification/Conversation_Factory.thy ===== *)
theory Conversation_Factory
  imports Tcp_Conversation Udp_Conversation
begin

text \<open>
  src/src/include/conversation_factory.h and src/src/lib/conversation_factory.cc: the key that
  identifies the conversation of a packet, the keys under which a target test server may be
  configured for it, and the parser of the command line's client specification
  \<open>src[:port[:test[:port]]]\<close> (IPv4, or IPv6 with bracketed addresses).
\<close>

section \<open>Client specifications\<close>

definition NO_PORT :: int where
  "NO_PORT = -1"

definition quoted :: "string \<Rightarrow> string \<Rightarrow> string" where
  "quoted msg s = msg @ '' '' @ [CHR 0x27] @ s @ [CHR 0x27]"

text \<open>
  \<open>port = htons(stoul(token))\<close> with the handler that replaces an \<open>invalid_argument\<close>; an
  \<open>out_of_range\<close> is not caught.
\<close>

definition parse_port :: "string \<Rightarrow> int result" where
  "parse_port t =
     (case stoul t of
        Inr v \<Rightarrow> Inr (uint (htons_int (int v)))
      | Inl (Invalid_argument _) \<Rightarrow> Inl (Invalid_argument (quoted ''invalid port number'' t))
      | Inl e \<Rightarrow> Inl e)"

definition check_ipv4 :: "string \<Rightarrow> string result" where
  "check_ipv4 t =
     (case inet_pton4 t of
        None \<Rightarrow> Inl (Invalid_argument (quoted ''invalid IP address'' t))
      | Some _ \<Rightarrow> Inr t)"

definition normalizeIpV6 :: "inet6 \<Rightarrow> string \<Rightarrow> string result" where
  "normalizeIpV6 n s =
     (case inet_pton6 n s of
        None \<Rightarrow> Inl (Invalid_argument (quoted ''invalid IPv6 address'' s))
      | Some a \<Rightarrow> Inr (inet_ntop6 n a))"

definition spec_result ::
  "string \<Rightarrow> int \<Rightarrow> string \<Rightarrow> int \<Rightarrow> string \<times> target_test_server option" where
  "spec_result src_addr src_port taddr tport =
     (if src_port \<noteq> NO_PORT then src_addr @ '':'' @ to_string (nat src_port) else src_addr,
      if taddr = [] then None else Some \<lparr>test_addr = taddr, test_port = uint (htons_int tport)\<rparr>)"

text \<open>The \<open>switch\<close> on the number of tokens falls through from the last token to the first.\<close>

definition parseIpV4Spec :: "string \<Rightarrow> (string \<times> target_test_server option) result" where
  "parseIpV4Spec spec =
     (let tokens = tokenize spec (CHR '':''); k = length tokens
      in if k = 0 \<or> k > 4
         then Inl (Invalid_argument (quoted ''invalid conversation specificiation'' spec))
         else
           bind (if k = 4 then parse_port (tokens ! 3) else Inr NO_PORT) (\<lambda>tport.
           bind (if k \<ge> 3 then check_ipv4 (tokens ! 2) else Inr []) (\<lambda>taddr.
           bind (if k \<ge> 2 then parse_port (tokens ! 1) else Inr NO_PORT) (\<lambda>sport.
           bind (check_ipv4 (tokens ! 0)) (\<lambda>saddr.
             Inr (spec_result saddr sport taddr tport))))))"

text \<open>\<open>*(p + 1) == c\<close> for a pointer \<open>p\<close> to a character of a C string.\<close>

definition next_is :: "string \<Rightarrow> char \<Rightarrow> bool" where
  "next_is p c = (case p of _ # d # _ \<Rightarrow> d = c | _ \<Rightarrow> False)"

text \<open>The part of \<open>parseIpV6Spec\<close> after the source port: the test address and port.\<close>

definition parse_v6_target :: "inet6 \<Rightarrow> string \<Rightarrow> string \<Rightarrow> (string \<times> int) result" where
  "parse_v6_target n spec q =
     (case token (drop 1 q) (CHR '']'') of (first, second) \<Rightarrow>
        if second = [] then Inr ([], NO_PORT)
        else (case first of
            None \<Rightarrow> bind (normalizeIpV6 n second) (\<lambda>a. Inr (a, NO_PORT))
          | Some r \<Rightarrow>
              if hd second \<noteq> CHR ''['' then Inl (Invalid_argument (quoted ''invalid spec'' spec))
              else bind (normalizeIpV6 n (drop 1 second)) (\<lambda>a.
                if \<not> next_is r (CHR '':'') then Inl (Invalid_argument (quoted ''invalid spec'' spec))
                else (case token (drop 2 r) (CHR '':'') of (colon, port) \<Rightarrow>
                  if colon \<noteq> None then Inl (Invalid_argument (quoted ''invalid spec'' spec))
                  else if port \<noteq> [] then bind (parse_port port) (\<lambda>p. Inr (a, p))
                  else Inr (a, NO_PORT)))))"

text \<open>
  Without a closing bracket \<open>tok_result.first\<close> is null and \<open>*(tok_result.first + 1)\<close>
  dereferences it.
\<close>

definition parseIpV6Spec :: "inet6 \<Rightarrow> string \<Rightarrow> (string \<times> target_test_server option) result" where
  "parseIpV6Spec n spec =
     (case token spec (CHR '']'') of (first, second) \<Rightarrow>
      bind (case first of None \<Rightarrow> Inr [] | Some _ \<Rightarrow> normalizeIpV6 n (drop 1 second)) (\<lambda>saddr.
      bind (deref first) (\<lambda>p.
      bind (if next_is p (CHR '':'')
            then (case token (drop 2 p) (CHR '':'') of (first1, second1) \<Rightarrow>
                    if second1 \<noteq> [] then bind (parse_port second1) (\<lambda>port. Inr (first1, port))
                    else Inr (first1, NO_PORT))
            else Inr (first, NO_PORT)) (\<lambda>(first1, sport).
      bind (case first1 of None \<Rightarrow> Inr ([], NO_PORT) | Some q \<Rightarrow> parse_v6_target n spec q)
        (\<lambda>(taddr, tport). Inr (spec_result saddr sport taddr tport))))))"

definition tcpIpCreateTargetTestServer ::
  "inet6 \<Rightarrow> string \<Rightarrow> (string \<times> target_test_server option) result" where
  "tcpIpCreateTargetTestServer n spec =
     (if (case spec of c # _ \<Rightarrow> c = CHR ''['' | [] \<Rightarrow> False) then parseIpV6Spec n spec
      else parseIpV4Spec spec)"

section \<open>Keys of a packet\<close>

definition tcpIpGetTargetTestServerKeys :: "inet6 \<Rightarrow> transport_packet \<Rightarrow> string list result" where
  "tcpIpGetTargetTestServerKeys n packet =
     bind (network_layer packet) (\<lambda>l3.
     bind (getSrcAddrStr n l3) (\<lambda>src.
     bind (transport_layer packet) (\<lambda>l4.
     bind (getSrcPort l4) (\<lambda>port. Inr [src @ '':'' @ to_string (unat port), src]))))"

definition generateKey :: "string \<Rightarrow> 16 word \<Rightarrow> string \<Rightarrow> 16 word \<Rightarrow> string" where
  "generateKey addr1 port1 addr2 port2 =
     addr1 @ '':'' @ to_string (unat port1) @ '':'' @ addr2 @ '':'' @ to_string (unat port2)"

definition flow_key :: "byte list \<Rightarrow> 16 word \<Rightarrow> byte list \<Rightarrow> 16 word \<Rightarrow> string" where
  "flow_key src sport dest dport =
     (let s = bytes_to_hex_string src; d = bytes_to_hex_string dest; comp = memcmp src dest
      in if comp = 0 then
           (if sport < dport then generateKey s sport d dport else generateKey d dport s sport)
         else if comp < 0 then generateKey s sport d dport
         else generateKey d dport s sport)"

text \<open>Source and destination of a packet as \<open>tcpIpGetKey\<close> reads them.\<close>

definition packet_flow ::
  "transport_packet \<Rightarrow> (byte list \<times> 16 word \<times> byte list \<times> 16 word) result" where
  "packet_flow packet =
     bind (network_layer packet) (\<lambda>l3.
     bind (getSrcAddr l3) (\<lambda>sp.
     bind (getDestAddr l3) (\<lambda>dp.
     bind (transport_layer packet) (\<lambda>l4.
     bind (getSrcPort l4) (\<lambda>sport.
     bind (getDestPort l4) (\<lambda>dport.
     bind (read_bytes sp 0 (getAddrSize l3)) (\<lambda>src.
     bind (read_bytes dp 0 (getAddrSize l3)) (\<lambda>dest. Inr (src, sport, dest, dport)))))))))"

definition tcpIpGetKey :: "transport_packet \<Rightarrow> string result" where
  "tcpIpGetKey packet =
     bind (packet_flow packet) (\<lambda>(src, sport, dest, dport). Inr (flow_key src sport dest dport))"

section \<open>The conversation key\<close>

lemma colon_split:
  assumes "CHR '':'' \<notin> set u" "CHR '':'' \<notin> set v"
  shows "u @ CHR '':'' # r = v @ CHR '':'' # s \<longleftrightarrow> u = v \<and> r = s"
  using assms
proof (induction u arbitrary: v)
  case Nil
  then show ?case by (cases v) auto
next
  case (Cons c u)
  then show ?case by (cases v) auto
qed

lemma generateKey_hex_inj:
  "generateKey (bytes_to_hex_string a) p (bytes_to_hex_string b) q =
   generateKey (bytes_to_hex_string c) r (bytes_to_hex_string d) s \<longleftrightarrow>
     a = c \<and> p = r \<and> b = d \<and> q = s"
  by (auto simp: generateKey_def colon_split hex_no_colon to_string_no_colon hex_inj to_string_inj unat_inject)

lemma flow_key_sym: "length a = length b \<Longrightarrow> flow_key b q a p = flow_key a p b q"
  using memcmp_antisym [of a b] by (auto simp: flow_key_def Let_def)

lemma flow_key_cases:
  assumes "length a = length b"
  shows "flow_key a p b q = generateKey (bytes_to_hex_string a) p (bytes_to_hex_string b) q \<or>
    flow_key a p b q = generateKey (bytes_to_hex_string b) q (bytes_to_hex_string a) p"
  by (auto simp: flow_key_def Let_def)

lemma flow_key_eq_iff:
  assumes "length a = length b" "length c = length d"
  shows "flow_key a p b q = flow_key c r d s \<longleftrightarrow> {(a, p), (b, q)} = {(c, r), (d, s)}"
proof
  assume "flow_key a p b q = flow_key c r d s"
  then show "{(a, p), (b, q)} = {(c, r), (d, s)}"
    using flow_key_cases [OF assms(1), of p q] flow_key_cases [OF assms(2), of r s]
    by (auto simp: generateKey_hex_inj)
next
  assume "{(a, p), (b, q)} = {(c, r), (d, s)}"
  then have "(a, p) = (c, r) \<and> (b, q) = (d, s) \<or> (a, p) = (d, s) \<and> (b, q) = (c, r)"
    by (auto simp: doubleton_eq_iff)
  then show "flow_key a p b q = flow_key c r d s"
    using flow_key_sym [OF assms(2)] by auto
qed

lemma packet_flow_lengths:
  "packet_flow p = Inr (a, q, b, r) \<Longrightarrow> length a = length b"
  by (auto simp: packet_flow_def result_simps dest!: read_bytes_length)

section \<open>Reading specifications back\<close>

lemma parse_port_to_string:
  "p \<le> ULONG_MAX \<Longrightarrow> parse_port (to_string p) = Inr (uint (htons (of_nat p)))"
  by (simp add: parse_port_def htons_int_def)

lemma check_ipv4_ntop [simp]: "length a = 4 \<Longrightarrow> check_ipv4 (inet_ntop4 a) = Inr (inet_ntop4 a)"
  by (simp add: check_ipv4_def)

lemma uint_htons_port [simp]: "uint w \<noteq> NO_PORT" for w :: "16 word"
proof -
  have "0 \<le> uint w" by simp
  then show ?thesis unfolding NO_PORT_def by linarith
qed

lemma htons_int_uint [simp]: "htons_int (uint w) = htons w"
  by (simp add: htons_int_def)

lemma htons_int_NO_PORT [simp]: "uint (htons_int NO_PORT) = 65535"
  by code_simp

lemma uint_port: "p < 65536 \<Longrightarrow> uint (word_of_nat p :: 16 word) = int p"
  by (simp add: unsigned_of_nat take_bit_nat_eq_self)

lemma port_ulong: "p < 65536 \<Longrightarrow> p \<le> ULONG_MAX"
  by (simp add: ULONG_MAX_def)

definition source_key :: "string \<Rightarrow> nat \<Rightarrow> string" where
  "source_key addr port = addr @ '':'' @ to_string (unat (htons (of_nat port)))"

lemma spec_result_source:
  "spec_result addr (uint (htons (of_nat port))) taddr tport =
    (source_key addr port,
     if taddr = [] then None else Some \<lparr>test_addr = taddr, test_port = uint (htons_int tport)\<rparr>)"
  by (simp add: spec_result_def source_key_def nat_uint_eq)

lemma hd_to_string_digit: "is_digit (hd (to_string n))"
  using to_string_digits [of n] by (cases "to_string n") auto

lemma ipv4_not_bracket:
  "tcpIpCreateTargetTestServer n (join_colon (inet_ntop4 a # ts)) =
    parseIpV4Spec (join_colon (inet_ntop4 a # ts))"
proof -
  have "hd (inet_ntop4 a) \<noteq> CHR ''[''"
    using hd_to_string_digit [of "unat (a ! 0)"]
    by (auto simp: inet_ntop4_def show_octet_def is_digit_iff)
  moreover have "\<exists>cs. join_colon (inet_ntop4 a # ts) = hd (inet_ntop4 a) # cs"
    by (cases "inet_ntop4 a"; cases ts) auto
  ultimately show ?thesis by (auto simp: tcpIpCreateTargetTestServer_def)
qed

lemma ipv4_tokens:
  assumes "\<forall>t \<in> set ts. CHR '':'' \<notin> set t \<and> t \<noteq> []"
  shows "tokenize (join_colon (inet_ntop4 a # ts)) d = inet_ntop4 a # ts"
  using assms inet_ntop4_no_colon [of a] by (intro tokenize_join) auto

section \<open>Properties\<close>

text \<open>
  C23. The conversation key identifies the flow: two packets have the same key exactly where they
  have the same pair of endpoints (address and port), in either direction. Both directions of a
  conversation therefore meet in one entry of the store and distinct conversations never do.
\<close>

theorem conversation_key_identifies_flow:
  assumes "packet_flow p = Inr (a, pa, b, pb)" "packet_flow q = Inr (c, pc, d, pd)"
  shows "tcpIpGetKey p = tcpIpGetKey q \<longleftrightarrow> {(a, pa), (b, pb)} = {(c, pc), (d, pd)}"
  using flow_key_eq_iff packet_flow_lengths assms by (simp add: tcpIpGetKey_def)

text \<open>
  C29. A full IPv4 specification \<open>src:port:test:port\<close> is accepted, configures the given test
  server, and its key is among the lookup keys of an IPv4 packet exactly where the packet comes
  from the given address and port.
\<close>

theorem ipv4_spec_selects_source:
  assumes "length a = 4" "length b = 4" "sport < 65536" "dport < 65536"
    and "network_layer p = Inr (IpLayer l)" "read_bytes (packet_ptr l) 12 4 = Inr src"
    and "transport_layer p = Inr l4" "getSrcPort l4 = Inr port"
  shows "\<exists>key keys. tcpIpCreateTargetTestServer n
      (join_colon [inet_ntop4 a, to_string sport, inet_ntop4 b, to_string dport]) =
        Inr (key, Some \<lparr>test_addr = inet_ntop4 b, test_port = int dport\<rparr>) \<and>
    tcpIpGetTargetTestServerKeys n p = Inr keys \<and>
    (key \<in> set keys \<longleftrightarrow> src = a \<and> port = htons (of_nat sport))"
proof (intro exI conjI)
  let ?key = "source_key (inet_ntop4 a) sport"
  have tok: "tokenize (join_colon [inet_ntop4 a, to_string sport, inet_ntop4 b, to_string dport])
      (CHR '':'') = [inet_ntop4 a, to_string sport, inet_ntop4 b, to_string dport]"
    by (rule ipv4_tokens) (simp add: to_string_no_colon inet_ntop4_no_colon)
  show "tcpIpCreateTargetTestServer n
      (join_colon [inet_ntop4 a, to_string sport, inet_ntop4 b, to_string dport]) =
        Inr (?key, Some \<lparr>test_addr = inet_ntop4 b, test_port = int dport\<rparr>)"
    using assms(1-4)
    by (simp only: ipv4_not_bracket parseIpV4Spec_def tok)
      (simp add: parse_port_to_string port_ulong spec_result_source uint_port)
  show "tcpIpGetTargetTestServerKeys n p =
      Inr [inet_ntop4 src @ '':'' @ to_string (unat port), inet_ntop4 src]"
    using assms(5-8) by (simp add: tcpIpGetTargetTestServerKeys_def)
  have "?key \<noteq> inet_ntop4 src"
  proof
    assume "?key = inet_ntop4 src"
    moreover have "CHR '':'' \<in> set ?key" by (simp add: source_key_def)
    ultimately show False using inet_ntop4_no_colon by simp
  qed
  moreover have "?key = inet_ntop4 src @ '':'' @ to_string (unat port) \<longleftrightarrow>
      src = a \<and> port = htons (of_nat sport)"
    using ipv4_text.ntop_inj [OF assms(1), of src] read_bytes_length [OF assms(6)]
    by (auto simp: source_key_def colon_split inet_ntop4_no_colon to_string_inj unat_inject)
  ultimately show "?key \<in> set [inet_ntop4 src @ '':'' @ to_string (unat port), inet_ntop4 src] \<longleftrightarrow>
      src = a \<and> port = htons (of_nat sport)" by simp
qed

text \<open>
  A specification that names a test address without a test port does not default to the
  captured port: it sets the test port to 65535, the 16-bit value of the marker \<open>NO_PORT\<close>.
\<close>

theorem ipv4_spec_missing_test_port:
  assumes "length a = 4" "length b = 4" "sport < 65536"
  shows "tcpIpCreateTargetTestServer n (join_colon [inet_ntop4 a, to_string sport, inet_ntop4 b]) =
    Inr (source_key (inet_ntop4 a) sport, Some \<lparr>test_addr = inet_ntop4 b, test_port = 65535\<rparr>)"
proof -
  have tok: "tokenize (join_colon [inet_ntop4 a, to_string sport, inet_ntop4 b]) (CHR '':'') =
      [inet_ntop4 a, to_string sport, inet_ntop4 b]"
    by (rule ipv4_tokens) (simp add: to_string_no_colon inet_ntop4_no_colon)
  show ?thesis
    using assms by (simp only: ipv4_not_bracket parseIpV4Spec_def tok)
      (simp add: parse_port_to_string port_ulong spec_result_source)
qed

text \<open>
  C30. A full IPv6 specification \<open>[src]:port:[test]:port\<close> is accepted with both addresses
  normalised; the address text functions are a parameter.
\<close>

theorem ipv6_spec_accepted:
  assumes "inet_pton6 n s = Some a" "inet_pton6 n t = Some b" "inet_ntop6 n b \<noteq> []"
    and "CHR '']'' \<notin> set s" "CHR '']'' \<notin> set t" "sport < 65536" "dport < 65536"
  shows "tcpIpCreateTargetTestServer n
      (''['' @ s @ '']:'' @ to_string sport @ '':['' @ t @ '']:'' @ to_string dport) =
    Inr (source_key (inet_ntop6 n a) sport,
         Some \<lparr>test_addr = inet_ntop6 n b, test_port = int dport\<rparr>)"
proof -
  let ?r3 = "'']:'' @ to_string dport"
  let ?r2 = "'':['' @ t @ ?r3"
  let ?r1 = "'']:'' @ to_string sport @ ?r2"
  have t1: "token (''['' @ s @ ?r1) (CHR '']'') = (Some ?r1, ''['' @ s)"
    using token_found [of "CHR '']''" "''['' @ s" "tl ?r1"] assms(4) by simp
  have t2: "token (drop 2 ?r1) (CHR '':'') = (Some ?r2, to_string sport)"
    using token_found [of "CHR '':''" "to_string sport" "tl ?r2"] to_string_no_colon by simp
  have t3: "token (drop 1 ?r2) (CHR '']'') = (Some ?r3, ''['' @ t)"
    using token_found [of "CHR '']''" "''['' @ t" "tl ?r3"] assms(5) by simp
  have t4: "token (drop 2 ?r3) (CHR '':'') = (None, to_string dport)"
    using token_absent [of "CHR '':''" "to_string dport"] to_string_no_colon by simp
  have "parse_v6_target n spec ?r2 = Inr (inet_ntop6 n b, uint (htons (of_nat dport)))" for spec
    unfolding parse_v6_target_def t3
    using t4 assms(2,7) by (simp add: normalizeIpV6_def next_is_def parse_port_to_string port_ulong)
  then have "parseIpV6Spec n (''['' @ s @ ?r1) =
    Inr (source_key (inet_ntop6 n a) sport,
         Some \<lparr>test_addr = inet_ntop6 n b, test_port = int dport\<rparr>)"
    unfolding parseIpV6Spec_def t1
    using t2 assms(1,3,6,7)
    by (simp add: normalizeIpV6_def next_is_def parse_port_to_string port_ulong spec_result_source
        uint_port)
  then show ?thesis by (simp add: tcpIpCreateTargetTestServer_def)
qed

text \<open>
  A bracketed specification without the closing bracket is not rejected: the parser
  dereferences a null pointer.
\<close>

theorem ipv6_spec_unterminated:
  assumes "CHR '']'' \<notin> set s"
  shows "tcpIpCreateTargetTestServer n (CHR ''['' # s) = Inl (Undefined_behaviour Null_dereference)"
  using assms by (simp add: tcpIpCreateTargetTestServer_def parseIpV6Spec_def)

section \<open>Witnesses\<close>

theorem conversation_key_identifies_flow_witness:
  "tcpIpGetKey (sample_packet 1 7 2 80 0x02 []) = tcpIpGetKey (sample_packet 2 80 1 7 0x12 []) \<and>
   tcpIpGetKey (sample_packet 1 7 2 80 0x02 []) \<noteq> tcpIpGetKey (sample_packet 1 8 2 80 0x02 [])"
proof -
  have f: "packet_flow (sample_packet 1 7 2 80 0x02 []) =
      Inr ([10, 0, 0, 1], htons 7, [10, 0, 0, 2], htons 80)"
    "packet_flow (sample_packet 2 80 1 7 0x12 []) =
      Inr ([10, 0, 0, 2], htons 80, [10, 0, 0, 1], htons 7)"
    "packet_flow (sample_packet 1 8 2 80 0x02 []) =
      Inr ([10, 0, 0, 1], htons 8, [10, 0, 0, 2], htons 80)"
    by code_simp+
  show ?thesis
  proof
    show "tcpIpGetKey (sample_packet 1 7 2 80 0x02 []) = tcpIpGetKey (sample_packet 2 80 1 7 0x12 [])"
      by (rule conversation_key_identifies_flow [OF f(1) f(2), THEN iffD2]) (rule insert_commute)
    have "([10, 0, 0, 1], htons 7) \<notin> {([10, 0, 0, 1], htons 8), ([10, 0, 0, 2 :: byte], htons 80)}"
      by simp
    then show "tcpIpGetKey (sample_packet 1 7 2 80 0x02 []) \<noteq> tcpIpGetKey (sample_packet 1 8 2 80 0x02 [])"
      using conversation_key_identifies_flow [OF f(1) f(3), THEN iffD1] by (metis insertI1)
  qed
qed

theorem ipv4_spec_selects_source_witness:
  "\<exists>key keys. tcpIpCreateTargetTestServer sample_inet6 ''10.0.0.1:7:127.0.0.1:8080'' =
      Inr (key, Some \<lparr>test_addr = ''127.0.0.1'', test_port = 8080\<rparr>) \<and>
    tcpIpGetTargetTestServerKeys sample_inet6 (sample_packet 1 7 2 80 0x02 []) = Inr keys \<and>
    key \<in> set keys"
proof -
  let ?f = "sample_ip 6 1 2 (sample_tcp 7 80 0x02 [])" and ?t = "sample_tcp 7 80 0x02 []"
  let ?l3 = "\<lparr>packet_ptr = ?f, packet_size = int (length ?f)\<rparr>"
  let ?l4 = "TcpLayer \<lparr>packet_ptr = ?t, packet_size = int (length ?t)\<rparr>"
  have p: "network_layer (sample_packet 1 7 2 80 0x02 []) = Inr (IpLayer ?l3)"
    "transport_layer (sample_packet 1 7 2 80 0x02 []) = Inr ?l4"
    by (simp_all add: sample_packet_def Let_def)
  have r: "read_bytes (packet_ptr ?l3) 12 4 = Inr [10, 0, 0, 1]" "getSrcPort ?l4 = Inr (htons 7)"
    by code_simp+
  have txts: "inet_ntop4 [10, 0, 0, 1] = ''10.0.0.1''" "inet_ntop4 [127, 0, 0, 1] = ''127.0.0.1''"
    "to_string 7 = ''7''" "to_string 8080 = ''8080''"
    by (simp_all add: inet_ntop4_def show_octet_def to_string.simps)
  have h: "length [10, 0, 0, 1 :: byte] = 4" "length [127, 0, 0, 1 :: byte] = 4"
    "(7 :: nat) < 65536" "(8080 :: nat) < 65536" by simp_all
  have spec: "join_colon [inet_ntop4 [10, 0, 0, 1], to_string 7, inet_ntop4 [127, 0, 0, 1],
      to_string 8080] = ''10.0.0.1:7:127.0.0.1:8080''"
    by (simp add: txts)
  obtain key keys where k: "tcpIpCreateTargetTestServer sample_inet6 ''10.0.0.1:7:127.0.0.1:8080'' =
      Inr (key, Some \<lparr>test_addr = ''127.0.0.1'', test_port = int 8080\<rparr>)"
    "tcpIpGetTargetTestServerKeys sample_inet6 (sample_packet 1 7 2 80 0x02 []) = Inr keys"
    "key \<in> set keys \<longleftrightarrow> [10, 0, 0, 1] = [10, 0, 0, 1 :: byte] \<and> htons 7 = htons (of_nat 7)"
    using ipv4_spec_selects_source [OF h p(1) r(1) p(2) r(2), of sample_inet6]
    unfolding spec unfolding txts(2) by blast
  have "key \<in> set keys" by (rule k(3) [THEN iffD2]) simp
  with k(1,2) show ?thesis by (intro exI conjI) simp_all
qed

theorem ipv4_spec_missing_test_port_witness:
  "tcpIpCreateTargetTestServer sample_inet6 ''10.0.0.1:7:127.0.0.1'' =
    Inr (source_key ''10.0.0.1'' 7, Some \<lparr>test_addr = ''127.0.0.1'', test_port = 65535\<rparr>)"
proof -
  have txts: "inet_ntop4 [10, 0, 0, 1] = ''10.0.0.1''" "inet_ntop4 [127, 0, 0, 1] = ''127.0.0.1''"
    "to_string 7 = ''7''"
    by code_simp+
  show ?thesis
    using ipv4_spec_missing_test_port [of "[10, 0, 0, 1]" "[127, 0, 0, 1]" 7 sample_inet6]
    by (simp add: txts)
qed

definition sample_loopback6 :: inet6 where
  "sample_loopback6 =
     \<lparr>inet_pton6 = (\<lambda>s. if s = ''::1'' then Some (replicate 15 0 @ [1]) else None),
      inet_ntop6 = (\<lambda>_. ''::1'')\<rparr>"

theorem ipv6_spec_accepted_witness:
  "tcpIpCreateTargetTestServer sample_loopback6 ''[::1]:7:[::1]:80'' =
    Inr (source_key ''::1'' 7, Some \<lparr>test_addr = ''::1'', test_port = 80\<rparr>)"
proof -
  have p: "inet_pton6 sample_loopback6 ''::1'' = Some (replicate 15 0 @ [1])"
    "inet_ntop6 sample_loopback6 a = ''::1''" for a
    by (simp_all add: sample_loopback6_def)
  have txts: "to_string 7 = ''7''" "to_string 80 = ''80''" by code_simp+
  show ?thesis
    using ipv6_spec_accepted [OF p(1) p(1), of 7 80] by (simp add: p(2) txts)
qed

theorem ipv6_spec_unterminated_witness:
  "tcpIpCreateTargetTestServer sample_loopback6 ''[::1'' = Inl (Undefined_behaviour Null_dereference)"
  using ipv6_spec_unterminated [of "''::1''" sample_loopback6] by simp

end
