(* ===== verification/Ordered_Map.thy ===== *)
theory Ordered_Map
  imports Prelude
begin

text \<open>
  \<open>std::map\<close> as the program uses it: \<open>m[k] = v\<close>, \<open>contains\<close>, \<open>find\<close>, \<open>empty\<close> and iteration in
  key order. A map is its list of entries in ascending key order. The interface is the locale
  \<open>ordered_map\<close>; the conversation store and the HTTP header table rest on its laws.
\<close>

section \<open>The interface\<close>

locale ordered_map =
  fixes empty :: "'m"
    and put :: "('k::linorder) \<Rightarrow> 'v \<Rightarrow> 'm \<Rightarrow> 'm"
    and find :: "'m \<Rightarrow> 'k \<Rightarrow> 'v option"
    and entries :: "'m \<Rightarrow> ('k \<times> 'v) list"
    and invar :: "'m \<Rightarrow> bool"
  assumes invar_empty: "invar empty"
    and invar_put: "invar m \<Longrightarrow> invar (put k v m)"
    and find_empty: "find empty k = None"
    and find_put: "find (put k v m) k' = (if k' = k then Some v else find m k')"
    and entries_sorted: "invar m \<Longrightarrow> sorted_wrt (<) (map fst (entries m))"
    and find_entries: "find m = map_of (entries m)"
begin

lemma find_put_same: "find (put k v m) k = Some v"
  by (simp add: find_put)

lemma find_put_other: "k' \<noteq> k \<Longrightarrow> find (put k v m) k' = find m k'"
  by (simp add: find_put)

lemma distinct_keys: "invar m \<Longrightarrow> distinct (map fst (entries m))"
  using entries_sorted strict_sorted_iff by blast

lemma entries_find: "invar m \<Longrightarrow> (k, v) \<in> set (entries m) \<longleftrightarrow> find m k = Some v"
  by (simp add: find_entries distinct_keys map_of_eq_Some_iff)

lemma keys_dom: "fst ` set (entries m) = dom (find m)"
  by (simp add: find_entries dom_map_of_conv_image_fst)

text \<open>Iteration visits the same entries in the same order, whatever the order of insertion.\<close>

lemma entries_from_keys:
  assumes "invar m"
  shows "entries m = map (\<lambda>k. (k, the (find m k))) (map fst (entries m))"
proof -
  have "map (\<lambda>k. (k, the (find m k))) (map fst (entries m)) =
      map (\<lambda>p. (fst p, the (find m (fst p)))) (entries m)" by simp
  also have "\<dots> = map (\<lambda>p. p) (entries m)"
    using entries_find [OF assms] by (intro map_cong) (force simp: prod_eq_iff)+
  finally show ?thesis by simp
qed

lemma entries_canonical:
  assumes "invar m" "invar n" "find m = find n"
  shows "entries m = entries n"
proof -
  have "map fst (entries m) = map fst (entries n)"
  proof (rule strict_sorted_equal)
    show "set (map fst (entries m)) = set (map fst (entries n))"
      using assms(3) by (simp add: keys_dom)
  qed (use assms entries_sorted in auto)
  then show ?thesis
    using entries_from_keys [OF assms(1)] entries_from_keys [OF assms(2)] assms(3) by simp
qed

lemma length_entries: "invar m \<Longrightarrow> length (entries m) = card (dom (find m))"
  using distinct_card [OF distinct_keys, of m] by (simp add: keys_dom)

lemma finite_keys: "finite (dom (find m))"
  by (metis keys_dom finite_imageI List.finite_set)

lemma entries_put_length:
  assumes "invar m"
  shows "length (entries (put k v m)) =
    (if find m k = None then Suc (length (entries m)) else length (entries m))"
proof -
  have "dom (find (put k v m)) = insert k (dom (find m))"
    by (auto simp: find_put split: if_splits)
  then have "length (entries (put k v m)) = card (insert k (dom (find m)))"
    using assms by (simp add: length_entries invar_put)
  then show ?thesis
    using finite_keys [of m] length_entries [OF assms]
    by (simp add: card_insert_if domIff)
qed

end

section \<open>The sorted association list\<close>

fun map_put :: "'k::linorder \<Rightarrow> 'v \<Rightarrow> ('k \<times> 'v) list \<Rightarrow> ('k \<times> 'v) list" where
  "map_put k v [] = [(k, v)]"
| "map_put k v ((a, b) # m) =
     (if k < a then (k, v) # (a, b) # m
      else if k = a then (k, v) # m
      else (a, b) # map_put k v m)"

definition map_contains :: "('k \<times> 'v) list \<Rightarrow> 'k \<Rightarrow> bool" where
  "map_contains m k \<longleftrightarrow> map_of m k \<noteq> None"

definition map_ok :: "('k::linorder \<times> 'v) list \<Rightarrow> bool" where
  "map_ok m \<longleftrightarrow> sorted_wrt (<) (map fst m)"

lemma map_of_map_put [simp]: "map_of (map_put k v m) = (map_of m)(k \<mapsto> v)"
  by (induction k v m rule: map_put.induct) auto

lemma fst_set_map_put: "fst ` set (map_put k v m) = insert k (fst ` set m)"
  by (induction k v m rule: map_put.induct) auto

lemma map_ok_Nil [simp]: "map_ok []"
  by (simp add: map_ok_def)

lemma map_okD: "map_ok m \<Longrightarrow> sorted_wrt (<) (map fst m)"
  by (simp add: map_ok_def)

lemma map_ok_map_put: "map_ok m \<Longrightarrow> map_ok (map_put k v m)"
  unfolding map_ok_def
proof (induction k v m rule: map_put.induct)
  case (2 k v a b m)
  then show ?case by (auto simp: fst_set_map_put)
qed simp

lemma map_put_not_Nil [simp]: "map_put k v m \<noteq> []"
  by (induction k v m rule: map_put.induct) auto

interpretation stdmap: ordered_map "[]" map_put map_of "\<lambda>m. m" map_ok
  by unfold_locales (simp_all add: map_ok_map_put map_okD)

end
