(* ===== verification/Conversation_Store.thy ===== *)
theory Conversation_Store
  imports Conversation_Factory Ordered_Map
begin

text \<open>
  src/src/include/conversation_store.h: the store that maps each packet to its conversation,
  creating the conversation where the packet's source is configured, or where nothing is
  configured and the store is still empty. The class template is generic in the conversation
  type; its factory is the virtual interface \<open>ConversationFactory<T>\<close>, a record of functions
  here. A \<open>PacketConversation*\<close> into the store is the key of the entry it points to.
\<close>

section \<open>The factory interface\<close>

record 'c factory =
  createTargetTestServer :: "string \<Rightarrow> (string \<times> target_test_server option) result"
  getTargetTestServerKeys :: "transport_packet \<Rightarrow> string list result"
  getKey :: "transport_packet \<Rightarrow> string result"
  createConversation :: "transport_packet \<Rightarrow> target_test_server option \<Rightarrow> 'c result"

definition TcpConversationFactory :: "inet6 \<Rightarrow> tcp_conversation factory" where
  "TcpConversationFactory n =
     \<lparr>createTargetTestServer = tcpIpCreateTargetTestServer n,
      getTargetTestServerKeys = tcpIpGetTargetTestServerKeys n,
      getKey = tcpIpGetKey, createConversation = tcp_from_packet n\<rparr>"

definition UdpConversationFactory :: "inet6 \<Rightarrow> udp_conversation factory" where
  "UdpConversationFactory n =
     \<lparr>createTargetTestServer = tcpIpCreateTargetTestServer n,
      getTargetTestServerKeys = tcpIpGetTargetTestServerKeys n,
      getKey = tcpIpGetKey, createConversation = udp_from_packet n\<rparr>"

section \<open>The store\<close>

record 'c store =
  test_servers :: "(string \<times> target_test_server option) list"
  conversations :: "(string \<times> 'c) list"

definition new_store :: "'c store" where
  "new_store = \<lparr>test_servers = [], conversations = []\<rparr>"

text \<open>
  The loop over the lookup keys: whether one is configured, and the server pointer of the first,
  which may be null.
\<close>

fun find_server :: "(string \<times> 'p option) list \<Rightarrow> string list \<Rightarrow> bool \<times> 'p option" where
  "find_server servers [] = (False, None)"
| "find_server servers (k # ks) =
     (case map_of servers k of Some t \<Rightarrow> (True, t) | None \<Rightarrow> find_server servers ks)"

definition getConversation ::
  "'c factory \<Rightarrow> transport_packet \<Rightarrow> 'c store \<Rightarrow> (string option \<times> 'c store) result" where
  "getConversation f packet s =
     bind (getKey f packet) (\<lambda>conv_key.
       if map_contains (conversations s) conv_key then Inr (Some conv_key, s)
       else
         bind (getTargetTestServerKeys f packet) (\<lambda>configured_keys.
           case find_server (test_servers s) configured_keys of (is_configured, test_server) \<Rightarrow>
             if is_configured \<or> (test_servers s = [] \<and> conversations s = []) then
               bind (createConversation f packet test_server) (\<lambda>c.
                 Inr (Some conv_key, s\<lparr>conversations := map_put conv_key c (conversations s)\<rparr>))
             else Inr (None, s)))"

definition getConversations :: "'c store \<Rightarrow> 'c list" where
  "getConversations s = map snd (conversations s)"

definition addTargetTestServer :: "'c factory \<Rightarrow> string \<Rightarrow> 'c store \<Rightarrow> 'c store result" where
  "addTargetTestServer f spec s =
     bind (createTargetTestServer f spec) (\<lambda>(key, value).
       Inr (s\<lparr>test_servers := map_put key value (test_servers s)\<rparr>))"

text \<open>
  What \<open>Capture::packetHandler\<close> does with a dissected packet: find its conversation and let the
  conversation process the packet in place.
\<close>

definition store_packet ::
  "'c factory \<Rightarrow> (transport_packet \<Rightarrow> 'c \<Rightarrow> 'c result) \<Rightarrow> transport_packet \<Rightarrow> 'c store \<Rightarrow> 'c store result" where
  "store_packet f process packet s =
     bind (getConversation f packet s) (\<lambda>(conv, s').
       case conv of
         None \<Rightarrow> Inr s'
       | Some k \<Rightarrow>
           (case map_of (conversations s') k of
              None \<Rightarrow> Inl (Undefined_behaviour Null_dereference)
            | Some c \<Rightarrow> bind (process packet c) (\<lambda>c'.
                Inr (s'\<lparr>conversations := map_put k c' (conversations s')\<rparr>))))"

definition store_packets ::
  "'c factory \<Rightarrow> (transport_packet \<Rightarrow> 'c \<Rightarrow> 'c result) \<Rightarrow> transport_packet list \<Rightarrow> 'c store \<Rightarrow> 'c store result" where
  "store_packets f process = fold_result (store_packet f process)"

lemma find_server_configured:
  "fst (find_server servers ks) \<longleftrightarrow> (\<exists>k \<in> set ks. map_contains servers k)"
  by (induction ks) (auto simp: map_contains_def split: option.splits)

lemma find_server_Nil [simp]: "find_server [] ks = (False, None)"
  by (induction ks) auto

lemma getConversation_cases:
  assumes "getConversation f p s = Inr (r, s')"
  obtains (found) k where "getKey f p = Inr k" "map_contains (conversations s) k" "r = Some k" "s' = s"
  | (created) k ks t c where "getKey f p = Inr k" "\<not> map_contains (conversations s) k"
      "getTargetTestServerKeys f p = Inr ks" "t = snd (find_server (test_servers s) ks)"
      "(\<exists>x \<in> set ks. map_contains (test_servers s) x) \<or> (test_servers s = [] \<and> conversations s = [])"
      "createConversation f p t = Inr c" "r = Some k"
      "s' = s\<lparr>conversations := map_put k c (conversations s)\<rparr>"
  | (ignored) k ks where "getKey f p = Inr k" "\<not> map_contains (conversations s) k"
      "getTargetTestServerKeys f p = Inr ks"
      "\<not> (\<exists>x \<in> set ks. map_contains (test_servers s) x)"
      "test_servers s \<noteq> [] \<or> conversations s \<noteq> []" "r = None" "s' = s"
proof -
  from assms obtain k where k: "getKey f p = Inr k"
    by (auto simp: getConversation_def result_simps)
  show thesis
  proof (cases "map_contains (conversations s) k")
    case True
    with assms k have "r = Some k" "s' = s" by (simp_all add: getConversation_def)
    with found k True show ?thesis by blast
  next
    case False
    with assms k obtain ks where ks: "getTargetTestServerKeys f p = Inr ks"
      by (cases "getTargetTestServerKeys f p") (simp_all add: getConversation_def)
    obtain b t where bt: "find_server (test_servers s) ks = (b, t)" by fastforce
    then have b: "b \<longleftrightarrow> (\<exists>x \<in> set ks. map_contains (test_servers s) x)"
      using find_server_configured [of "test_servers s" ks] by simp
    show ?thesis
    proof (cases "b \<or> (test_servers s = [] \<and> conversations s = [])")
      case True
      with assms k False ks bt obtain c where "createConversation f p t = Inr c" "r = Some k"
        "s' = s\<lparr>conversations := map_put k c (conversations s)\<rparr>"
        by (cases "createConversation f p t") (auto simp: getConversation_def)
      with created [OF k False ks _ _ _ _ _, of t c] bt b True show ?thesis by simp
    next
      case no: False
      with assms k False ks bt have "r = None" "s' = s"
        by (simp_all add: getConversation_def)
      with ignored k False ks b no show ?thesis by blast
    qed
  qed
qed

section \<open>What a store relies on\<close>

text \<open>
  The contract between the store and a conversation class: conversations are created in a good
  state and stay good. The store's facts are proved once from it and hold for both classes.
\<close>

definition store_ok :: "('c \<Rightarrow> bool) \<Rightarrow> 'c store \<Rightarrow> bool" where
  "store_ok good s \<longleftrightarrow>
     map_ok (test_servers s) \<and> map_ok (conversations s) \<and>
     (\<forall>k c. map_of (conversations s) k = Some c \<longrightarrow> good c) \<and>
     (test_servers s = [] \<longrightarrow> length (conversations s) \<le> 1)"

locale recorder =
  fixes factory :: "'c factory"
    and process :: "transport_packet \<Rightarrow> 'c \<Rightarrow> 'c result"
    and good :: "'c \<Rightarrow> bool"
  assumes create_good: "createConversation factory p t = Inr c \<Longrightarrow> good c"
    and process_good: "process p c = Inr c' \<Longrightarrow> good c \<Longrightarrow> good c'"
begin

lemma new_store_ok: "store_ok good new_store"
  by (simp add: store_ok_def new_store_def)

lemma addTargetTestServer_ok:
  "addTargetTestServer factory spec s = Inr s' \<Longrightarrow> store_ok good s \<Longrightarrow> store_ok good s'"
  by (auto simp: addTargetTestServer_def store_ok_def result_simps map_ok_map_put)

lemma getConversation_ok:
  assumes "getConversation factory p s = Inr (r, s')" "store_ok good s"
  shows "store_ok good s' \<and> test_servers s' = test_servers s \<and>
    (r \<noteq> None \<longrightarrow> map_contains (conversations s') (the r)) \<and>
    (\<forall>k. map_contains (conversations s) k \<longrightarrow> map_of (conversations s') k = map_of (conversations s) k)"
  using assms(1)
proof (cases rule: getConversation_cases)
  case (created k ks t c)
  then show ?thesis
    using assms(2) create_good by (auto simp: store_ok_def map_contains_def map_ok_map_put)
qed (use assms(2) in simp_all)

lemma replace_ok:
  assumes "store_ok good s" "map_of (conversations s) k = Some c" "good c'"
  shows "store_ok good (s\<lparr>conversations := map_put k c' (conversations s)\<rparr>)"
proof -
  have "length (map_put k c' (conversations s)) = length (conversations s)"
    using stdmap.entries_put_length [of "conversations s" k c'] assms(1,2) by (simp add: store_ok_def)
  then show ?thesis using assms by (auto simp: store_ok_def map_ok_map_put)
qed

lemma store_packet_ok:
  assumes "store_packet factory process p s = Inr s'" "store_ok good s"
  shows "store_ok good s' \<and> test_servers s' = test_servers s"
proof -
  obtain r s1 where g: "getConversation factory p s = Inr (r, s1)"
    using assms(1) by (auto simp: store_packet_def result_simps)
  note ok = getConversation_ok [OF g assms(2)]
  show ?thesis
  proof (cases r)
    case None
    with assms(1) g ok show ?thesis by (simp add: store_packet_def)
  next
    case (Some k)
    then obtain c where c: "map_of (conversations s1) k = Some c"
      using ok by (auto simp: map_contains_def)
    with assms(1) g Some obtain c' where "process p c = Inr c'"
      "s' = s1\<lparr>conversations := map_put k c' (conversations s1)\<rparr>"
      by (auto simp: store_packet_def result_simps)
    moreover have "good c" using c ok by (auto simp: store_ok_def)
    ultimately show ?thesis using replace_ok [of s1 k c c'] process_good c ok by auto
  qed
qed

lemma store_packets_ok:
  "store_packets factory process ps s = Inr s' \<Longrightarrow> store_ok good s \<Longrightarrow>
    store_ok good s' \<and> test_servers s' = test_servers s"
  unfolding store_packets_def
  by (erule fold_result_invariant [where P = "\<lambda>u. store_ok good u \<and> test_servers u = test_servers s"])
    (auto dest: store_packet_ok)

text \<open>
  Demultiplexing: an existing conversation processes exactly the packets with its key, in order.
\<close>

lemma store_packet_conversation:
  assumes "store_packet factory process p s = Inr s'" "map_of (conversations s) k = Some c"
  shows "\<exists>c'. map_of (conversations s') k = Some c' \<and>
    (if getKey factory p = Inr k then process p c = Inr c' else c' = c)"
proof -
  obtain r s1 where g: "getConversation factory p s = Inr (r, s1)"
    and rest: "(case r of None \<Rightarrow> Inr s1 | Some k \<Rightarrow>
           (case map_of (conversations s1) k of
              None \<Rightarrow> Inl (Undefined_behaviour Null_dereference)
            | Some c \<Rightarrow> bind (process p c) (\<lambda>c'.
                Inr (s1\<lparr>conversations := map_put k c' (conversations s1)\<rparr>)))) = Inr s'"
    using assms(1) by (auto simp: store_packet_def result_simps)
  from g show ?thesis
  proof (cases rule: getConversation_cases)
    case (found kp)
    then obtain cp c' where "map_of (conversations s) kp = Some cp" "process p cp = Inr c'"
      "s' = s\<lparr>conversations := map_put kp c' (conversations s)\<rparr>"
      using rest by (auto simp: map_contains_def result_simps)
    with found assms(2) show ?thesis by (cases "kp = k") auto
  next
    case (created kp ks t cp)
    with rest assms(2) show ?thesis by (auto simp: map_contains_def result_simps)
  next
    case (ignored kp ks)
    with rest assms(2) show ?thesis by (auto simp: map_contains_def)
  qed
qed

lemma store_packets_conversation:
  assumes "store_packets factory process ps s = Inr s'" "map_of (conversations s) k = Some c"
  shows "\<exists>c'. map_of (conversations s') k = Some c' \<and>
    fold_result process (filter (\<lambda>p. getKey factory p = Inr k) ps) c = Inr c'"
  using assms
proof (induction ps arbitrary: s c)
  case Nil
  then show ?case by (simp add: store_packets_def)
next
  case (Cons p ps)
  then obtain s1 where s1: "store_packet factory process p s = Inr s1"
    "store_packets factory process ps s1 = Inr s'"
    by (auto simp: store_packets_def result_simps)
  obtain c1 where c1: "map_of (conversations s1) k = Some c1"
    "if getKey factory p = Inr k then process p c = Inr c1 else c1 = c"
    using store_packet_conversation [OF s1(1) Cons.prems(2)] by blast
  from Cons.IH [OF s1(2) c1(1)] c1(2) show ?case by (auto split: if_splits)
qed

text \<open>Every conversation was opened by a packet of the capture that the configuration admits.\<close>

lemma store_packet_origin:
  assumes "store_packet factory process p s = Inr s'" "map_contains (conversations s') k"
  shows "map_contains (conversations s) k \<or>
    (getKey factory p = Inr k \<and> (\<exists>ks. getTargetTestServerKeys factory p = Inr ks \<and>
      ((\<exists>x \<in> set ks. map_contains (test_servers s) x) \<or>
       (test_servers s = [] \<and> conversations s = []))))"
proof -
  obtain r s1 where g: "getConversation factory p s = Inr (r, s1)"
    and dom: "dom (map_of (conversations s')) = dom (map_of (conversations s1)) \<union> set_option r"
    using assms(1) by (fastforce simp: store_packet_def result_simps split: option.splits)
  from g show ?thesis
  proof (cases rule: getConversation_cases)
    case (found kp)
    with dom assms(2) show ?thesis by (auto simp: map_contains_def)
  next
    case (created kp ks t cp)
    with dom assms(2) show ?thesis by (auto simp: map_contains_def split: if_splits)
  next
    case (ignored kp ks)
    with dom assms(2) show ?thesis by (auto simp: map_contains_def)
  qed
qed

lemma store_packets_origin:
  assumes "store_packets factory process ps s = Inr s'" "store_ok good s" "test_servers s \<noteq> []"
    and "map_contains (conversations s') k"
  shows "map_contains (conversations s) k \<or>
    (\<exists>p \<in> set ps. getKey factory p = Inr k \<and>
      (\<exists>ks. getTargetTestServerKeys factory p = Inr ks \<and> (\<exists>x \<in> set ks. map_contains (test_servers s) x)))"
  using assms
proof (induction ps arbitrary: s)
  case Nil
  then show ?case by (simp add: store_packets_def)
next
  case (Cons p ps)
  then obtain s1 where s1: "store_packet factory process p s = Inr s1"
    "store_packets factory process ps s1 = Inr s'"
    by (auto simp: store_packets_def result_simps)
  note ok = store_packet_ok [OF s1(1) Cons.prems(2)]
  have "map_contains (conversations s1) k \<or> (\<exists>p \<in> set ps. getKey factory p = Inr k \<and>
      (\<exists>ks. getTargetTestServerKeys factory p = Inr ks \<and> (\<exists>x \<in> set ks. map_contains (test_servers s) x)))"
    using Cons.IH [OF s1(2)] ok Cons.prems(3,4) by simp
  then show ?case
    using store_packet_origin [OF s1(1), of k] Cons.prems(3) by auto
qed

text \<open>
  Without configured servers the first packet decides: its key becomes the only conversation, and
  packets of other flows are ignored.
\<close>

lemma store_packet_other_flow:
  assumes "test_servers s = []" "conversations s = [(k0, c)]"
    and "getKey factory p = Inr k" "k \<noteq> k0" "getTargetTestServerKeys factory p = Inr ks"
  shows "store_packet factory process p s = Inr s"
  using assms by (simp add: store_packet_def getConversation_def map_contains_def)

lemma single_conversation_run:
  assumes "test_servers s = []" "conversations s = [(k0, c)]"
    and "\<forall>p \<in> set ps. \<exists>k ks. getKey factory p = Inr k \<and> getTargetTestServerKeys factory p = Inr ks"
    and "fold_result process (filter (\<lambda>p. getKey factory p = Inr k0) ps) c = Inr c'"
  shows "store_packets factory process ps s = Inr (s\<lparr>conversations := [(k0, c')]\<rparr>)"
  using assms
proof (induction ps arbitrary: s c)
  case Nil
  then have "s\<lparr>conversations := [(k0, c')]\<rparr> = s" by simp
  then show ?case by (simp add: store_packets_def)
next
  case (Cons p ps)
  then obtain k ks where k: "getKey factory p = Inr k" "getTargetTestServerKeys factory p = Inr ks"
    by auto
  show ?case
  proof (cases "k = k0")
    case True
    with Cons.prems k obtain c1 where c1: "process p c = Inr c1"
      "fold_result process (filter (\<lambda>p. getKey factory p = Inr k0) ps) c1 = Inr c'"
      by (auto simp: result_simps)
    have "store_packet factory process p s = Inr (s\<lparr>conversations := [(k0, c1)]\<rparr>)"
      using Cons.prems(1,2) k True c1(1)
      by (simp add: store_packet_def getConversation_def map_contains_def)
    with Cons.IH [of "s\<lparr>conversations := [(k0, c1)]\<rparr>" c1] Cons.prems c1(2) show ?thesis
      by (simp add: store_packets_def)
  next
    case False
    with Cons.prems k have "store_packet factory process p s = Inr s"
      by (intro store_packet_other_flow) auto
    with Cons.IH [of s c] Cons.prems k False show ?thesis by (simp add: store_packets_def)
  qed
qed

text \<open>
  The first packet's key becomes the only conversation, and it records exactly the packets of that
  key.
\<close>

lemma unconfigured_run:
  assumes "getKey factory p0 = Inr k0" "getTargetTestServerKeys factory p0 = Inr ks0"
    and "createConversation factory p0 None = Inr c0"
    and "\<forall>p \<in> set ps. \<exists>k ks. getKey factory p = Inr k \<and> getTargetTestServerKeys factory p = Inr ks"
    and "fold_result process (filter (\<lambda>p. getKey factory p = Inr k0) (p0 # ps)) c0 = Inr c'"
  shows "store_packets factory process (p0 # ps) new_store =
    Inr \<lparr>test_servers = [], conversations = [(k0, c')]\<rparr>"
proof -
  obtain c1 where c1: "process p0 c0 = Inr c1"
    "fold_result process (filter (\<lambda>p. getKey factory p = Inr k0) ps) c1 = Inr c'"
    using assms(1,5) by (auto simp: result_simps)
  have "store_packet factory process p0 new_store =
      Inr \<lparr>test_servers = [], conversations = [(k0, c1)]\<rparr>"
    using assms(1-3) c1(1)
    by (simp add: store_packet_def getConversation_def new_store_def map_contains_def)
  with single_conversation_run [OF _ _ assms(4) c1(2)] show ?thesis
    by (simp add: store_packets_def)
qed

end

text \<open>Both conversation classes keep the contract.\<close>

interpretation tcp_store: recorder "TcpConversationFactory n" tcp_processCapturePacket tcp_inv for n
  by unfold_locales (auto simp: TcpConversationFactory_def intro: tcp_from_packet_inv tcp_process_inv)

definition udp_inv :: "udp_conversation \<Rightarrow> bool" where
  "udp_inv c \<longleftrightarrow> (\<forall>a \<in> set (action_queue c). act_type a = SEND \<or> act_type a = RECV)"

lemma udp_from_packet_inv: "udp_from_packet n p t = Inr c \<Longrightarrow> udp_inv c"
  by (auto simp: udp_from_packet_def conversation_from_packet_def result_simps udp_inv_def
      split: option.splits)

lemma udp_process_inv:
  assumes "udp_processCapturePacket p c = Inr c'" "udp_inv c"
  shows "udp_inv c'"
proof -
  from assms(1) obtain t n where tn: "getLayer p TRANSPORT = Inr t" "getLayer p NETWORK = Inr n"
    by (auto simp: udp_processCapturePacket_def elim!: bindE)
  show ?thesis
  proof (cases "as_udp t")
    case None
    with assms tn show ?thesis by (simp add: udp_processCapturePacket_def)
  next
    case (Some udp)
    with assms(1) tn obtain b q size a
      where a: "new_action_range (if b then SEND else RECV) q size = Inr a"
      and c': "c' = c\<lparr>action_queue := action_queue c @ [a]\<rparr>"
      by (simp add: udp_processCapturePacket_def) (elim bindE, blast)
    from new_action_range_data [OF a] c' assms(2) show ?thesis by (auto simp: udp_inv_def)
  qed
qed

interpretation udp_store: recorder "UdpConversationFactory n" udp_processCapturePacket udp_inv for n
  by unfold_locales (auto simp: UdpConversationFactory_def intro: udp_from_packet_inv udp_process_inv)

section \<open>Properties\<close>

text \<open>
  C21. Demultiplexing: over any capture, the conversation stored under a key records exactly the
  packets with that key, in capture order, and nothing else.
\<close>

theorem tcp_store_demultiplexes:
  assumes "store_packets (TcpConversationFactory n) tcp_processCapturePacket ps s = Inr s'"
    and "map_of (conversations s) k = Some c"
  shows "\<exists>c'. map_of (conversations s') k = Some c' \<and>
    tcp_record (filter (\<lambda>p. tcpIpGetKey p = Inr k) ps) c = Inr c'"
  using tcp_store.store_packets_conversation [OF assms]
  by (simp add: tcp_record_def TcpConversationFactory_def)

text \<open>
  C24. Where test servers are configured, a conversation is only opened by a packet of the capture
  one of whose lookup keys (source address with port, or source address) is configured.
\<close>

theorem configured_store_only_configured:
  assumes "store_packets (TcpConversationFactory n) tcp_processCapturePacket ps
      \<lparr>test_servers = servers, conversations = []\<rparr> = Inr s'"
    and "map_ok servers" "servers \<noteq> []" "map_contains (conversations s') k"
  shows "\<exists>p \<in> set ps. tcpIpGetKey p = Inr k \<and>
    (\<exists>ks. tcpIpGetTargetTestServerKeys n p = Inr ks \<and> (\<exists>x \<in> set ks. map_contains servers x))"
proof -
  have "store_ok tcp_inv \<lparr>test_servers = servers, conversations = []\<rparr>"
    using assms(2,3) by (simp add: store_ok_def)
  from tcp_store.store_packets_origin [OF assms(1) this _ assms(4)] assms(3) show ?thesis
    by (simp add: TcpConversationFactory_def map_contains_def)
qed

text \<open>
  C25. Without a client specification the store holds at most one conversation, whatever is
  captured; every conversation in it is replayable.
\<close>

theorem unconfigured_store_single_conversation:
  assumes "store_packets (TcpConversationFactory n) tcp_processCapturePacket ps new_store = Inr s"
  shows "length (getConversations s) \<le> 1 \<and>
    (\<forall>c \<in> set (getConversations s). session_run False (queue_types c) \<noteq> None)"
proof -
  have ok: "store_ok tcp_inv s" "test_servers s = []"
    using tcp_store.store_packets_ok [OF assms tcp_store.new_store_ok] by (simp_all add: new_store_def)
  then have "\<forall>c \<in> set (getConversations s). tcp_inv c"
    using stdmap.entries_find [of "conversations s"]
    by (auto simp: store_ok_def getConversations_def)
  with ok show ?thesis by (auto simp: store_ok_def getConversations_def tcp_inv_def)
qed

text \<open>
  The first packet of an unconfigured capture need not be a connection request: where a UDP
  packet comes first, it opens the only TCP conversation of the store, and whatever TCP sessions
  follow (of other endpoints), nothing is recorded.
\<close>

theorem udp_packet_claims_tcp_store:
  assumes "tcpIpGetKey p0 = Inr k0" "tcpIpGetTargetTestServerKeys n p0 = Inr ks0"
    and "tcp_from_packet n p0 None = Inr c0" "transport_layer p0 = Inr (UdpLayer l)"
    and "\<forall>p \<in> set ps. \<exists>k ks. tcpIpGetKey p = Inr k \<and> k \<noteq> k0 \<and>
      tcpIpGetTargetTestServerKeys n p = Inr ks"
  shows "\<exists>s c. store_packets (TcpConversationFactory n) tcp_processCapturePacket (p0 # ps) new_store = Inr s \<and>
    getConversations s = [c] \<and> action_queue c = []"
proof -
  obtain t where t: "getLayer p0 TRANSPORT = Inr t" "as_layer4 t = Some (UdpLayer l)"
    using assms(4) by (auto simp: transport_layer_def result_simps deref_def split: option.splits)
  then have "as_tcp t = None" by (cases t rule: as_layer4.cases) auto
  with t have "tcp_processCapturePacket p0 c0 = Inr c0"
    by (simp add: tcp_processCapturePacket_def)
  moreover have "action_queue c0 = []"
    using assms(3) by (auto simp: tcp_from_packet_def conversation_from_packet_def result_simps
        packet_conversation.defs tcp_conversation.defs)
  moreover have other: "filter (\<lambda>p. tcpIpGetKey p = Inr k0) (p0 # ps) = [p0]"
    using assms(1,5) by (auto simp: filter_empty_conv)
  ultimately show ?thesis
    using tcp_store.unconfigured_run [of n p0 k0 ks0 c0 ps c0] assms other
    by (fastforce simp: TcpConversationFactory_def getConversations_def)
qed

section \<open>Witnesses\<close>

definition sample_key :: string where
  "sample_key = ''0a000001:1792:0a000002:20480''"

definition sample_servers :: "(string \<times> target_test_server option) list" where
  "sample_servers = [(''10.0.0.1'', None)]"

abbreviation sample_store_packets ::
  "transport_packet list \<Rightarrow> tcp_conversation store \<Rightarrow> tcp_conversation store result" where
  "sample_store_packets \<equiv>
     store_packets (TcpConversationFactory sample_inet6) tcp_processCapturePacket"

definition sample_opening :: "transport_packet list" where
  "sample_opening = [sample_packet 1 7 2 80 0x02 [], sample_packet 2 80 1 7 0x12 []]"

lemma sample_session_keys: "\<forall>p \<in> set sample_session. tcpIpGetKey p = Inr sample_key"
  by code_simp

lemma sample_runs:
  "\<exists>s. sample_store_packets sample_opening \<lparr>test_servers = sample_servers, conversations = []\<rparr> = Inr s \<and>
    map_contains (conversations s) sample_key"
  "\<exists>s. sample_store_packets sample_opening new_store = Inr s \<and> map_contains (conversations s) sample_key"
  "\<exists>s. sample_store_packets sample_session
      \<lparr>test_servers = [], conversations = [(sample_key, sample_conversation)]\<rparr> = Inr s"
proof -
  have ex: "case r of Inl _ \<Rightarrow> False | Inr s \<Rightarrow> Q s \<Longrightarrow> \<exists>s. r = Inr s \<and> Q s"
    for r :: "tcp_conversation store result" and Q by (cases r) auto
  show "\<exists>s. sample_store_packets sample_opening \<lparr>test_servers = sample_servers, conversations = []\<rparr> = Inr s \<and>
      map_contains (conversations s) sample_key"
    by (rule ex) code_simp
  show "\<exists>s. sample_store_packets sample_opening new_store = Inr s \<and>
      map_contains (conversations s) sample_key"
    by (rule ex) code_simp
  have "\<exists>s. sample_store_packets sample_session
      \<lparr>test_servers = [], conversations = [(sample_key, sample_conversation)]\<rparr> = Inr s \<and> True"
    by (rule ex) code_simp
  then show "\<exists>s. sample_store_packets sample_session
      \<lparr>test_servers = [], conversations = [(sample_key, sample_conversation)]\<rparr> = Inr s"
    by simp
qed

theorem tcp_store_demultiplexes_witness:
  "\<exists>s' c'. sample_store_packets sample_session
      \<lparr>test_servers = [], conversations = [(sample_key, sample_conversation)]\<rparr> = Inr s' \<and>
    map_of (conversations s') sample_key = Some c' \<and>
    tcp_record sample_session sample_conversation = Inr c'"
proof -
  have "filter (\<lambda>p. tcpIpGetKey p = Inr sample_key) sample_session = sample_session"
    using sample_session_keys by (simp add: filter_id_conv)
  with sample_runs(3) tcp_store_demultiplexes [of sample_inet6 sample_session _ _ sample_key sample_conversation]
  show ?thesis by fastforce
qed

theorem configured_store_only_configured_witness:
  "\<exists>p \<in> set sample_opening. tcpIpGetKey p = Inr sample_key \<and>
    (\<exists>ks. tcpIpGetTargetTestServerKeys sample_inet6 p = Inr ks \<and>
      (\<exists>x \<in> set ks. map_contains sample_servers x))"
proof -
  obtain s where s: "sample_store_packets sample_opening
      \<lparr>test_servers = sample_servers, conversations = []\<rparr> = Inr s"
    "map_contains (conversations s) sample_key"
    using sample_runs(1) by blast
  show ?thesis
    by (rule configured_store_only_configured [OF s(1) _ _ s(2)]) (simp_all add: sample_servers_def map_ok_def)
qed

theorem unconfigured_store_single_conversation_witness:
  "\<exists>s. sample_store_packets sample_opening new_store = Inr s \<and> length (getConversations s) = 1"
proof -
  obtain s where s: "sample_store_packets sample_opening new_store = Inr s"
    "map_contains (conversations s) sample_key"
    using sample_runs(2) by blast
  then have "conversations s \<noteq> []" by (auto simp: map_contains_def)
  with unconfigured_store_single_conversation [OF s(1)] s(1) show ?thesis
    by (cases "conversations s") (auto simp: getConversations_def)
qed

theorem udp_packet_claims_tcp_store_witness:
  "\<exists>s c. sample_store_packets (sample_udp 1 9 2 53 [81] # sample_session) new_store = Inr s \<and>
    getConversations s = [c] \<and> action_queue c = []"
proof -
  let ?p = "sample_udp 1 9 2 53 [81]"
  have "tcpIpGetKey ?p = Inr ''0a000001:2304:0a000002:13568''"
    "tcpIpGetTargetTestServerKeys sample_inet6 ?p = Inr [''10.0.0.1:2304'', ''10.0.0.1'']"
    by code_simp+
  moreover obtain c where "tcp_from_packet sample_inet6 ?p None = Inr c"
  proof -
    have "case tcp_from_packet sample_inet6 ?p None of Inl _ \<Rightarrow> False | Inr _ \<Rightarrow> True" by code_simp
    then show thesis using that by (cases "tcp_from_packet sample_inet6 ?p None") auto
  qed
  moreover obtain l where "transport_layer ?p = Inr (UdpLayer l)"
    by (simp add: sample_udp_def Let_def)
  moreover have "\<forall>p \<in> set sample_session. isl (tcpIpGetTargetTestServerKeys sample_inet6 p) = False"
    by code_simp
  then have "\<forall>p \<in> set sample_session. \<exists>k ks. tcpIpGetKey p = Inr k \<and>
      k \<noteq> ''0a000001:2304:0a000002:13568'' \<and> tcpIpGetTargetTestServerKeys sample_inet6 p = Inr ks"
    using sample_session_keys by (auto simp: sample_key_def isl_def) (metis sum.exhaust)
  ultimately show ?thesis by (rule udp_packet_claims_tcp_store)
qed

end
