(* ===== verification/Capture.thy ===== *)
theory Capture
  imports Tcp_Conversation Udp_Conversation Conversation_Store
begin

text \<open>
  src/src/include/capture.h and src/src/lib/capture.cc: the dissection of a captured frame into
  layers, the callback that hands the packet to the conversation store, and the loop over a
  capture file. libpcap is a parameter: an opened capture is the link type, the frames
  \<open>pcap_loop\<close> delivers and the code it returns.
\<close>

section \<open>The capture object\<close>

record pcap_pkthdr =
  caplen :: "32 word"
  len :: "32 word"

record 'c capture =
  conversation_store :: "'c store"
  datalink_type :: "8 word"

definition DLT_NULL :: "8 word" where "DLT_NULL = 0"
definition DLT_EN10MB :: "8 word" where "DLT_EN10MB = 1"
definition ETHERTYPE_IP :: "16 word" where "ETHERTYPE_IP = 0x0800"
definition ETHERTYPE_IPV6 :: "16 word" where "ETHERTYPE_IPV6 = 0x86DD"
definition IPPROTO_TCP :: int where "IPPROTO_TCP = 6"
definition IPPROTO_UDP :: int where "IPPROTO_UDP = 17"

section \<open>Dissection\<close>

text \<open>
  \<open>Capture::packetHandler\<close> up to the lookup of the conversation. An early \<open>return\<close> is \<open>None\<close>.
  Sizes are 32-bit unsigned in the packet header and become the \<open>int\<close> a layer keeps.
\<close>

definition link_layer ::
  "8 word \<Rightarrow> pcap_pkthdr \<Rightarrow> byte list \<Rightarrow> (layer3 \<times> transport_packet) option result" where
  "link_layer link h bytes =
     (if link = DLT_NULL then
        bind (read8 bytes 0) (\<lambda>b0.
        bind (if uint b0 = AF_INET then Inr True
              else bind (read8 bytes 3) (\<lambda>b3. Inr (uint b3 = AF_INET))) (\<lambda>inet.
          Inr (if inet then
                 Some (IpLayer \<lparr>packet_ptr = drop 4 bytes, packet_size = sint (caplen h - 4)\<rparr>, new_packet)
               else None)))
      else if link = DLT_EN10MB then
        (let eth = \<lparr>packet_ptr = bytes, packet_size = sint (caplen h)\<rparr>;
             packet = addLayer (Ethernet eth) new_packet;
             next_layer = \<lparr>packet_ptr = eth_getData eth, packet_size = eth_getDataSize eth\<rparr>
         in bind (eth_getEtherType eth) (\<lambda>t.
              Inr (if t = ETHERTYPE_IP then Some (IpLayer next_layer, packet)
                   else if t = ETHERTYPE_IPV6 then Some (IpV6Layer next_layer, packet)
                   else None)))
      else Inr None)"

definition add_transport :: "layer3 \<Rightarrow> transport_packet \<Rightarrow> transport_packet option result" where
  "add_transport network packet =
     bind (getNextProtocol network) (\<lambda>proto.
       if proto = IPPROTO_TCP then
         bind (getData3 network) (\<lambda>d. bind (getDataSize3 network) (\<lambda>n.
           Inr (Some (addLayer (Trans (TcpLayer \<lparr>packet_ptr = d, packet_size = n\<rparr>)) packet))))
       else if proto = IPPROTO_UDP then
         bind (getData3 network) (\<lambda>d. bind (getDataSize3 network) (\<lambda>n.
           Inr (Some (addLayer (Trans (UdpLayer \<lparr>packet_ptr = d, packet_size = n\<rparr>)) packet))))
       else Inr None)"

definition dissect :: "8 word \<Rightarrow> pcap_pkthdr \<Rightarrow> byte list \<Rightarrow> transport_packet option result" where
  "dissect link h bytes =
     (if caplen h \<noteq> len h then
        Inl (Runtime_error ''packet not fully captured.  increase snap length on capture'')
      else
        bind (link_layer link h bytes) (\<lambda>r.
          case r of
            None \<Rightarrow> Inr None
          | Some (network, packet) \<Rightarrow> add_transport network (addLayer (Net network) packet)))"

section \<open>The packet handler and the file loop\<close>

definition packetHandler ::
  "'c factory \<Rightarrow> (transport_packet \<Rightarrow> 'c \<Rightarrow> 'c result) \<Rightarrow> pcap_pkthdr \<times> byte list \<Rightarrow>
    'c capture \<Rightarrow> 'c capture result" where
  "packetHandler f process frame cap =
     bind (dissect (datalink_type cap) (fst frame) (snd frame)) (\<lambda>r.
       case r of
         None \<Rightarrow> Inr cap
       | Some packet \<Rightarrow>
           bind (store_packet f process packet (conversation_store cap)) (\<lambda>s.
             Inr (cap\<lparr>conversation_store := s\<rparr>)))"

text \<open>
  What the code sees of libpcap: \<open>pcap_open_offline\<close> fails with a text or yields a handle;
  \<open>pcap_loop\<close> calls the handler for every frame in file order and returns 0 at the end of the
  file, or \<open>PCAP_ERROR\<close> after the frames before a defect. An exception of the handler leaves the
  loop.
\<close>

record pcap_handle =
  pcap_datalink :: int
  pcap_frames :: "(pcap_pkthdr \<times> byte list) list"
  pcap_loop_rc :: int
  pcap_geterr :: string

definition PCAP_ERROR :: int where "PCAP_ERROR = -1"

definition int_text :: "int \<Rightarrow> string" where
  "int_text i = (if i < 0 then CHR ''-'' # to_string (nat (- i)) else to_string (nat i))"

definition load_capture ::
  "'c factory \<Rightarrow> (transport_packet \<Rightarrow> 'c \<Rightarrow> 'c result) \<Rightarrow> (string \<Rightarrow> string + pcap_handle) \<Rightarrow>
    string \<Rightarrow> 'c capture \<Rightarrow> 'c capture result" where
  "load_capture f process pcap_open_offline capture_file cap =
     (case pcap_open_offline capture_file of
        Inl errbuf \<Rightarrow> Inl (Runtime_error (''failed to open file: '' @ errbuf))
      | Inr pcap \<Rightarrow>
          bind (fold_result (packetHandler f process) (pcap_frames pcap)
                 (cap\<lparr>datalink_type := word_of_int (pcap_datalink pcap)\<rparr>)) (\<lambda>cap'.
            if pcap_loop_rc pcap \<noteq> 0 then
              Inl (Runtime_error (''packet read failed '' @
                (if pcap_loop_rc pcap = PCAP_ERROR then pcap_geterr pcap
                 else int_text (pcap_loop_rc pcap))))
            else Inr cap'))"

section \<open>Dissecting a file is storing its packets\<close>

lemma packetHandler_store:
  "dissect (datalink_type cap) (fst frame) (snd frame) = Inr (Some p) \<Longrightarrow>
    packetHandler f process frame cap =
      bind (store_packet f process p (conversation_store cap)) (\<lambda>s. Inr (cap\<lparr>conversation_store := s\<rparr>))"
  by (simp add: packetHandler_def)

lemma packetHandler_skip:
  "dissect (datalink_type cap) (fst frame) (snd frame) = Inr None \<Longrightarrow>
    packetHandler f process frame cap = Inr cap"
  by (simp add: packetHandler_def)

text \<open>
  Where every frame dissects, handling the frames of a file is handling the packets they carry;
  frames that carry none are skipped.
\<close>

lemma packetHandler_fold:
  assumes "list_all2 (\<lambda>frame r. dissect (datalink_type cap) (fst frame) (snd frame) = Inr r) frames rs"
  shows "fold_result (packetHandler f process) frames cap =
    bind (store_packets f process (List.map_filter id rs) (conversation_store cap))
      (\<lambda>s. Inr (cap\<lparr>conversation_store := s\<rparr>))"
  using assms
proof (induction frames arbitrary: rs cap)
  case Nil
  then show ?case by (simp add: store_packets_def List.map_filter_def)
next
  case (Cons frame frames)
  then obtain r rs' where rs: "rs = r # rs'"
    "dissect (datalink_type cap) (fst frame) (snd frame) = Inr r"
    "list_all2 (\<lambda>frame r. dissect (datalink_type cap) (fst frame) (snd frame) = Inr r) frames rs'"
    by (auto simp: list_all2_Cons1)
  show ?case
  proof (cases r)
    case None
    with rs Cons.IH [OF rs(3)] show ?thesis
      by (simp add: packetHandler_skip List.map_filter_def)
  next
    case (Some p)
    show ?thesis
    proof (cases "store_packet f process p (conversation_store cap)")
      case (Inl e)
      with rs Some show ?thesis
        by (simp add: packetHandler_store store_packets_def List.map_filter_def)
    next
      case (Inr s)
      then have "fold_result (packetHandler f process) (frame # frames) cap =
          fold_result (packetHandler f process) frames (cap\<lparr>conversation_store := s\<rparr>)"
        using rs Some by (simp add: packetHandler_store)
      with rs Some Inr Cons.IH [of "cap\<lparr>conversation_store := s\<rparr>" rs'] show ?thesis
        by (simp add: store_packets_def List.map_filter_def)
    qed
  qed
qed

section \<open>Encoded frames\<close>

text \<open>
  An independent description of the wire formats: the fields of an Ethernet frame that carries
  TCP over IPv4, with options in both headers and padding after the packet.
\<close>

record wire =
  w_mac :: "byte list"
  w_tos :: byte
  w_ident :: "byte list"
  w_ipck :: "byte list"
  w_src :: "byte list"
  w_dst :: "byte list"
  w_ipopts :: "byte list"
  w_sport :: "16 word"
  w_dport :: "16 word"
  w_seqack :: "byte list"
  w_flags :: byte
  w_tail :: "byte list"
  w_tcpopts :: "byte list"
  w_payload :: "byte list"
  w_padding :: "byte list"

definition hi_byte :: "16 word \<Rightarrow> byte" where "hi_byte w = ucast (drop_bit 8 w)"
definition lo_byte :: "16 word \<Rightarrow> byte" where "lo_byte w = ucast w"

lemma be16_split [simp]: "be16 (hi_byte w) (lo_byte w) = w"
  unfolding be16_def hi_byte_def lo_byte_def
  by (rule bit_word_eqI) (auto simp: bit_simps)

text \<open>The port field as the host loads it: the two bytes in memory order.\<close>

definition port_field :: "16 word \<Rightarrow> 16 word" where
  "port_field w = ucast (hi_byte w) OR push_bit 8 (ucast (lo_byte w))"

lemma port_field_htons: "port_field w = htons w"
proof -
  have "ntohs (port_field w) = w" by (simp add: port_field_def)
  then show ?thesis by (metis htons_htons)
qed

definition ip4_header_len :: "wire \<Rightarrow> nat" where "ip4_header_len w = 20 + length (w_ipopts w)"
definition tcp_header_size :: "wire \<Rightarrow> nat" where "tcp_header_size w = 20 + length (w_tcpopts w)"

definition ip4_total :: "wire \<Rightarrow> nat" where
  "ip4_total w = ip4_header_len w + tcp_header_size w + length (w_payload w)"

definition wire_ok :: "wire \<Rightarrow> bool" where
  "wire_ok w \<longleftrightarrow>
     length (w_mac w) = 12 \<and> length (w_ident w) = 5 \<and> length (w_ipck w) = 2 \<and>
     length (w_src w) = 4 \<and> length (w_dst w) = 4 \<and> length (w_seqack w) = 8 \<and>
     length (w_tail w) = 6 \<and>
     (\<exists>k \<le> 10. length (w_ipopts w) = 4 * k) \<and> (\<exists>k \<le> 10. length (w_tcpopts w) = 4 * k) \<and>
     ip4_total w < 65536"

definition tcp_bytes :: "wire \<Rightarrow> byte list" where
  "tcp_bytes w =
     [hi_byte (w_sport w), lo_byte (w_sport w), hi_byte (w_dport w), lo_byte (w_dport w)] @
     w_seqack w @ [of_nat (16 * (tcp_header_size w div 4)), w_flags w] @ w_tail w @ w_tcpopts w @
     w_payload w"

definition ip4_bytes :: "wire \<Rightarrow> byte list" where
  "ip4_bytes w =
     [of_nat (64 + ip4_header_len w div 4), w_tos w, hi_byte (of_nat (ip4_total w)),
      lo_byte (of_nat (ip4_total w))] @ w_ident w @ [6] @ w_ipck w @ w_src w @ w_dst w @ w_ipopts w"

definition frame_bytes :: "wire \<Rightarrow> byte list" where
  "frame_bytes w = w_mac w @ [0x08, 0x00] @ ip4_bytes w @ tcp_bytes w @ w_padding w"

definition full_header :: "byte list \<Rightarrow> pcap_pkthdr" where
  "full_header bytes = \<lparr>caplen = of_nat (length bytes), len = of_nat (length bytes)\<rparr>"

definition wire_segment :: "wire \<Rightarrow> segment" where
  "wire_segment w =
     \<lparr>seg_src = w_src w, seg_sport = htons (w_sport w), seg_flags = w_flags w,
      seg_payload = map char_of_byte (w_payload w)\<rparr>"

definition wire_packet :: "wire \<Rightarrow> transport_packet" where
  "wire_packet w =
     (let eth = \<lparr>packet_ptr = frame_bytes w, packet_size = sint (of_nat (length (frame_bytes w)) :: 32 word)\<rparr>;
          ip = IpLayer \<lparr>packet_ptr = ip4_bytes w @ tcp_bytes w @ w_padding w, packet_size = packet_size eth - 14\<rparr>;
          tcp = TcpLayer \<lparr>packet_ptr = tcp_bytes w @ w_padding w,
                          packet_size = int (tcp_header_size w + length (w_payload w))\<rparr>
      in addLayer (Trans tcp) (addLayer (Net ip) (addLayer (Ethernet eth) new_packet)))"

lemma nibble: "k < 16 \<Longrightarrow> unat ((of_nat (64 + k) :: byte) AND 15) = k"
  and high_nibble: "k < 16 \<Longrightarrow> unat (drop_bit 4 (of_nat (16 * k) :: byte)) = k" for k :: nat
proof -
  have "\<forall>k < 16. unat ((of_nat (64 + k) :: byte) AND 15) = k"
    "\<forall>k < 16. unat (drop_bit 4 (of_nat (16 * k) :: byte)) = k"
    by code_simp+
  then show "k < 16 \<Longrightarrow> unat ((of_nat (64 + k) :: byte) AND 15) = k"
    "k < 16 \<Longrightarrow> unat (drop_bit 4 (of_nat (16 * k) :: byte)) = k" by blast+
qed

lemma wire_lengths:
  assumes "wire_ok w"
  shows "length (ip4_bytes w) = ip4_header_len w"
    "length (tcp_bytes w) = tcp_header_size w + length (w_payload w)"
    "unat (of_nat (64 + ip4_header_len w div 4) AND (15 :: byte)) * 4 = ip4_header_len w"
    "unat (drop_bit 4 (of_nat (16 * (tcp_header_size w div 4)) :: byte)) * 4 = tcp_header_size w"
proof -
  show "length (ip4_bytes w) = ip4_header_len w"
    using assms by (simp add: ip4_bytes_def ip4_header_len_def wire_ok_def)
  show "length (tcp_bytes w) = tcp_header_size w + length (w_payload w)"
    using assms by (simp add: tcp_bytes_def tcp_header_size_def wire_ok_def)
  obtain i where i: "i \<le> 10" "length (w_ipopts w) = 4 * i" using assms by (auto simp: wire_ok_def)
  obtain j where j: "j \<le> 10" "length (w_tcpopts w) = 4 * j" using assms by (auto simp: wire_ok_def)
  have d: "ip4_header_len w div 4 = 5 + i" "tcp_header_size w div 4 = 5 + j"
    using i j by (simp_all add: ip4_header_len_def tcp_header_size_def)
  show "unat (of_nat (64 + ip4_header_len w div 4) AND (15 :: byte)) * 4 = ip4_header_len w"
    using nibble [of "5 + i"] i unfolding d by (simp add: ip4_header_len_def)
  show "unat (drop_bit 4 (of_nat (16 * (tcp_header_size w div 4)) :: byte)) * 4 = tcp_header_size w"
    using high_nibble [of "5 + j"] j unfolding d by (simp add: tcp_header_size_def)
qed

lemma nth_tcp_bytes:
  assumes "wire_ok w"
  shows "(tcp_bytes w @ xs) ! 0 = hi_byte (w_sport w)" "(tcp_bytes w @ xs) ! 1 = lo_byte (w_sport w)"
    "(tcp_bytes w @ xs) ! 2 = hi_byte (w_dport w)" "(tcp_bytes w @ xs) ! 3 = lo_byte (w_dport w)"
    "(tcp_bytes w @ xs) ! 12 = of_nat (16 * (tcp_header_size w div 4))"
    "(tcp_bytes w @ xs) ! 13 = w_flags w"
  using assms by (simp_all add: tcp_bytes_def nth_append wire_ok_def)

lemma nth_ip4_bytes:
  assumes "wire_ok w"
  shows "(ip4_bytes w @ xs) ! 0 = of_nat (64 + ip4_header_len w div 4)"
    "(ip4_bytes w @ xs) ! 2 = hi_byte (of_nat (ip4_total w))"
    "(ip4_bytes w @ xs) ! 3 = lo_byte (of_nat (ip4_total w))"
    "(ip4_bytes w @ xs) ! 9 = 6"
    "take 4 (drop 12 (ip4_bytes w @ xs)) = w_src w"
    "take 4 (drop 16 (ip4_bytes w @ xs)) = w_dst w"
  using assms by (simp_all add: ip4_bytes_def nth_append wire_ok_def)

lemma header_room:
  assumes "wire_ok w"
  shows "20 \<le> length (tcp_bytes w)" "20 \<le> length (ip4_bytes w)"
  using assms by (simp_all add: tcp_bytes_def ip4_bytes_def wire_ok_def)

lemma ether_frame:
  assumes "wire_ok w"
  shows "frame_bytes w ! 12 = 0x08" "frame_bytes w ! 13 = 0x00" "13 < length (frame_bytes w)"
    "drop 14 (frame_bytes w) = ip4_bytes w @ tcp_bytes w @ w_padding w"
  using assms by (simp_all add: frame_bytes_def nth_append wire_ok_def)

lemma dissect_wire:
  assumes "wire_ok w"
  shows "dissect DLT_EN10MB (full_header (frame_bytes w)) (frame_bytes w) = Inr (Some (wire_packet w))"
proof -
  note ip = nth_ip4_bytes [OF assms, of "tcp_bytes w @ w_padding w"]
  note ls = wire_lengths [OF assms] header_room [OF assms]
  have type: "ntohs 8 = ETHERTYPE_IP" by (simp add: htons_def ETHERTYPE_IP_def)
  let ?ip = "\<lparr>packet_ptr = ip4_bytes w @ tcp_bytes w @ w_padding w,
              packet_size = sint (of_nat (length (frame_bytes w)) :: 32 word) - 14\<rparr>"
  have hl: "ip_hl4 (packet_ptr ?ip) = Inr (ip4_header_len w)"
    using ip ls by (simp add: ip_hl4_def)
  have data: "getData3 (IpLayer ?ip) = Inr (tcp_bytes w @ w_padding w)"
    using hl ls by simp
  have "unat (of_nat (ip4_total w) :: 16 word) = ip4_total w"
    using assms by (simp add: wire_ok_def unat_of_nat)
  then have "uint (of_nat (ip4_total w) :: 16 word) = int (ip4_total w)"
    by (metis uint_nat)
  then have size: "getDataSize3 (IpLayer ?ip) = Inr (int (tcp_header_size w + length (w_payload w)))"
    using hl ip ls by (simp add: ip4_total_def)
  have proto: "getNextProtocol (IpLayer ?ip) = Inr IPPROTO_TCP"
    using ip ls by (simp add: IPPROTO_TCP_def)
  have "link_layer DLT_EN10MB (full_header (frame_bytes w)) (frame_bytes w) =
      Inr (Some (IpLayer ?ip, addLayer (Ethernet \<lparr>packet_ptr = frame_bytes w,
        packet_size = packet_size ?ip + 14\<rparr>) new_packet))"
    using ether_frame [OF assms]
    by (simp add: link_layer_def DLT_EN10MB_def DLT_NULL_def eth_getEtherType_def type Let_def
        eth_getData_def eth_getDataSize_def full_header_def)
  then show ?thesis
    using data size proto
    by (simp add: dissect_def add_transport_def wire_packet_def Let_def full_header_def)
qed

lemma wire_packet_layers:
  assumes "wire_ok w"
  shows "tcp_segment (wire_packet w) = Some (wire_segment w)"
    and "packet_flow (wire_packet w) = Inr (w_src w, htons (w_sport w), w_dst w, htons (w_dport w))"
    and "\<exists>ks. tcpIpGetTargetTestServerKeys n (wire_packet w) = Inr ks"
    and "\<exists>c. tcp_from_packet n (wire_packet w) None = Inr c \<and> addr_size c = 4 \<and>
      cap_dest_addr c = Some (w_dst w)"
proof -
  define ip where "ip = \<lparr>packet_ptr = ip4_bytes w @ tcp_bytes w @ w_padding w,
              packet_size = sint (of_nat (length (frame_bytes w)) :: 32 word) - 14\<rparr>"
  define tcp where "tcp = \<lparr>packet_ptr = tcp_bytes w @ w_padding w,
              packet_size = int (tcp_header_size w + length (w_payload w))\<rparr>"
  note d_ip = nth_ip4_bytes [OF assms, of "tcp_bytes w @ w_padding w"]
  note d_tcp = nth_tcp_bytes [OF assms, of "w_padding w"]
  note ls = wire_lengths [OF assms] header_room [OF assms]
  have layers: "network_layer (wire_packet w) = Inr (IpLayer ip)"
      "getLayer (wire_packet w) TRANSPORT = Inr (Some (Trans (TcpLayer tcp)))"
      "transport_layer (wire_packet w) = Inr (TcpLayer tcp)"
    by (simp_all add: wire_packet_def Let_def network_layer_def transport_layer_def getLayer_def
        addLayer_def new_packet_def ip_def tcp_def)
  have src: "l3_src (IpLayer ip) = Some (w_src w)"
    using d_ip ls by (simp add: l3_src_def ip_def)
  have hl: "tcp_header_len tcp = tcp_header_size w"
    using d_tcp ls by (simp add: tcp_header_len_def tcp_def)
  obtain hdr where hdr: "tcp_bytes w = hdr @ w_payload w"
    by (simp add: tcp_bytes_def)
  with ls have "length hdr = tcp_header_size w" by simp
  with hdr have "drop (tcp_header_size w) (tcp_bytes w) = w_payload w" by simp
  then have payload: "take (length (w_payload w)) (drop (tcp_header_size w) (packet_ptr tcp)) = w_payload w"
    using ls by (simp add: tcp_def)
  show "tcp_segment (wire_packet w) = Some (wire_segment w)"
    using layers src hl payload d_tcp ls
    by (simp add: tcp_segment_def segment_of_layers_def wire_segment_def tcp_def port_field_def
        flip: port_field_htons)
  have ports: "getSrcPort (TcpLayer tcp) = Inr (htons (w_sport w))"
      "getDestPort (TcpLayer tcp) = Inr (htons (w_dport w))"
    using d_tcp ls by (simp_all add: tcp_def port_field_def flip: port_field_htons)
  have addrs: "getSrcAddr (IpLayer ip) = Inr (drop 12 (packet_ptr ip))"
      "getDestAddr (IpLayer ip) = Inr (drop 16 (packet_ptr ip))"
      "read_bytes (drop 12 (packet_ptr ip)) 0 4 = Inr (w_src w)"
      "read_bytes (drop 16 (packet_ptr ip)) 0 4 = Inr (w_dst w)"
      "getAddrSize (IpLayer ip) = 4"
    using d_ip ls by (simp_all add: ip_def getAddrSize_def)
  show "packet_flow (wire_packet w) = Inr (w_src w, htons (w_sport w), w_dst w, htons (w_dport w))"
    using layers ports addrs by (simp add: packet_flow_def del: getSrcAddr.simps getDestAddr.simps)
  have "\<exists>a. getSrcAddrStr n (IpLayer ip) = Inr a"
    using d_ip ls by (simp add: ip_def)
  then show "\<exists>ks. tcpIpGetTargetTestServerKeys n (wire_packet w) = Inr ks"
    using layers ports
    by (auto simp: tcpIpGetTargetTestServerKeys_def simp del: getSrcAddrStr.simps)
  show "\<exists>c. tcp_from_packet n (wire_packet w) None = Inr c \<and> addr_size c = 4 \<and>
      cap_dest_addr c = Some (w_dst w)"
    using layers ports addrs
    by (simp add: tcp_from_packet_def conversation_from_packet_def Let_def packet_conversation.defs
        tcp_conversation.defs del: getSrcAddr.simps getDestAddr.simps)
qed

section \<open>Whole captures\<close>

definition same_flow :: "wire \<Rightarrow> wire \<Rightarrow> bool" where
  "same_flow v w \<longleftrightarrow>
     {(w_src v, w_sport v), (w_dst v, w_dport v)} = {(w_src w, w_sport w), (w_dst w, w_dport w)}"

text \<open>A capture file of Ethernet frames that libpcap reads to its end.\<close>

definition capture_of :: "wire list \<Rightarrow> pcap_handle" where
  "capture_of ws =
     \<lparr>pcap_datalink = 1, pcap_frames = map (\<lambda>w. (full_header (frame_bytes w), frame_bytes w)) ws,
      pcap_loop_rc = 0, pcap_geterr = []\<rparr>"

lemma wire_key:
  assumes "wire_ok v" "wire_ok w"
  shows "tcpIpGetKey (wire_packet v) = tcpIpGetKey (wire_packet w) \<longleftrightarrow> same_flow v w"
proof -
  have len: "length (w_src u) = length (w_dst u)" if "wire_ok u" for u
    using that by (simp add: wire_ok_def)
  have "tcpIpGetKey (wire_packet v) = tcpIpGetKey (wire_packet w) \<longleftrightarrow>
      {(w_src v, htons (w_sport v)), (w_dst v, htons (w_dport v))} =
      {(w_src w, htons (w_sport w)), (w_dst w, htons (w_dport w))}"
    using flow_key_eq_iff len assms by (simp add: tcpIpGetKey_def wire_packet_layers)
  also have "\<dots> \<longleftrightarrow> same_flow v w"
    by (simp add: same_flow_def doubleton_eq_iff)
  finally show ?thesis .
qed

lemma capture_packets:
  assumes "\<forall>w \<in> set ws. wire_ok w"
  shows "fold_result (packetHandler f process) (pcap_frames (capture_of ws))
      (cap\<lparr>datalink_type := DLT_EN10MB\<rparr>) =
    bind (store_packets f process (map wire_packet ws) (conversation_store cap))
      (\<lambda>s. Inr (cap\<lparr>datalink_type := DLT_EN10MB, conversation_store := s\<rparr>))"
proof -
  let ?cap = "cap\<lparr>datalink_type := DLT_EN10MB\<rparr>"
  have "list_all2 (\<lambda>frame r. dissect (datalink_type ?cap) (fst frame) (snd frame) = Inr r)
      (pcap_frames (capture_of ws)) (map (Some \<circ> wire_packet) ws)"
    using assms by (auto simp: capture_of_def list_all2_conv_all_nth dissect_wire)
  moreover have "List.map_filter id (map (Some \<circ> wire_packet) ws) = map wire_packet ws"
    by (induction ws) (simp_all add: List.map_filter_def)
  ultimately show ?thesis
    using packetHandler_fold [of ?cap "pcap_frames (capture_of ws)" _ f process] by simp
qed

section \<open>Properties\<close>

text \<open>
  C22. Dissection inverts the wire format: a full Ethernet frame that carries TCP over IPv4, with
  any options in either header and any padding, is dissected into the packet whose decoded
  segment has the source address, source port, flags and payload of the frame.
\<close>

theorem ethernet_frame_dissected:
  assumes "wire_ok w"
  shows "\<exists>p. dissect DLT_EN10MB (full_header (frame_bytes w)) (frame_bytes w) = Inr (Some p) \<and>
    tcp_segment p = Some \<lparr>seg_src = w_src w, seg_sport = htons (w_sport w), seg_flags = w_flags w,
      seg_payload = map char_of_byte (w_payload w)\<rparr>"
  using dissect_wire [OF assms] wire_packet_layers(1) [OF assms] by (simp add: wire_segment_def)

lemma load_records_first_session:
  assumes "\<forall>w \<in> set (syn # ws). wire_ok w"
    and "filter (same_flow syn) (syn # ws) = [syn, synack, ack] @ ds @ [fin] @ after"
    and "handshake (w_src syn) (w_dst syn) (wire_segment syn) (wire_segment synack) (wire_segment ack)"
    and "\<forall>w \<in> set ds. w_flags w AND TH_RST = 0 \<and> w_flags w AND TH_FIN = 0"
    and "w_flags fin AND TH_RST = 0" "w_flags fin AND TH_FIN \<noteq> 0"
    and "\<forall>w \<in> set after. \<not> (w_src w = w_src syn \<and> w_flags w = TH_SYN)"
    and "pcap_open file = Inr (capture_of (syn # ws))"
  shows "\<exists>cap' c. load_capture (TcpConversationFactory n) tcp_processCapturePacket pcap_open file
      \<lparr>conversation_store = new_store, datalink_type = 0\<rparr> = Inr cap' \<and>
    getConversations (conversation_store cap') = [c] \<and>
    action_queue c = new_action CONNECT #
      concat (map (data_actions (w_src syn) (htons (w_sport syn))) (map wire_segment (ds @ [fin]))) @
      [new_action CLOSE]"
proof -
  let ?f = "TcpConversationFactory n" and ?p = wire_packet
  obtain ps where ps: "filter (same_flow syn) (syn # ws) = syn # ps" "ps = [synack, ack] @ ds @ [fin] @ after"
    using assms(2) by simp
  have sub: "\<forall>w \<in> set (syn # ps). wire_ok w"
    using assms(1) filter_is_subset [of "same_flow syn" "syn # ws"] unfolding ps(1) [symmetric] by blast
  obtain k0 where k0: "tcpIpGetKey (?p syn) = Inr k0"
    using assms(1) by (simp add: tcpIpGetKey_def wire_packet_layers)
  have keys: "\<forall>w \<in> set (syn # ws). tcpIpGetKey (?p w) = Inr k0 \<longleftrightarrow> same_flow syn w"
    using wire_key [of syn] assms(1) unfolding k0 [symmetric] by (metis list.set_intros(1))
  then have "filter (\<lambda>w. tcpIpGetKey (?p w) = Inr k0) (syn # ws) = syn # ps"
    unfolding ps(1) [symmetric] by (intro filter_cong) auto
  then have flow: "filter (\<lambda>p. tcpIpGetKey p = Inr k0) (map ?p (syn # ws)) = map ?p (syn # ps)"
    by (simp only: filter_map comp_def)
  obtain ks0 where ks0: "tcpIpGetTargetTestServerKeys n (?p syn) = Inr ks0"
    using assms(1) wire_packet_layers(3) [of syn n] by auto
  obtain c0 where c0: "tcp_from_packet n (?p syn) None = Inr c0" "addr_size c0 = 4"
    "cap_dest_addr c0 = Some (w_dst syn)"
    using assms(1) wire_packet_layers(4) [of syn n] by auto
  have dec: "decodes (addr_size c0) (?p syn # map ?p ps)
      ([wire_segment syn, wire_segment synack, wire_segment ack] @ map wire_segment ds @ [wire_segment fin] @ map wire_segment after)"
  proof -
    have "decodes 4 (map ?p (syn # ps)) (map wire_segment (syn # ps))"
      unfolding decodes_def list_all2_map1 list_all2_map2 list.rel_map list_all2_same
      using sub by (auto simp: wire_packet_layers(1) wire_segment_def wire_ok_def)
    then show ?thesis using c0(2) ps(2) by simp
  qed
  have seg: "seg_src (wire_segment w) = w_src w" "seg_sport (wire_segment w) = htons (w_sport w)"
    "seg_has f (wire_segment w) \<longleftrightarrow> w_flags w AND f \<noteq> 0"
    "reopens a (wire_segment w) \<longleftrightarrow> w_src w = a \<and> w_flags w = TH_SYN" for w f a
    by (simp_all add: wire_segment_def seg_has_def reopens_def)
  obtain c' where c': "tcp_record (map ?p (syn # ps)) c0 = Inr c'"
    "action_queue c' = new_action CONNECT #
      concat (map (data_actions (w_src syn) (htons (w_sport syn))) (map wire_segment (ds @ [fin]))) @
      [new_action CLOSE]"
    using session_recorded [OF c0(1) dec c0(3)] assms(3-7) by (auto simp: seg)
  have "store_packets ?f tcp_processCapturePacket (map ?p (syn # ws)) new_store =
      Inr \<lparr>test_servers = [], conversations = [(k0, c')]\<rparr>"
  proof -
    have "\<forall>p \<in> set (map ?p ws). \<exists>k ks. tcpIpGetKey p = Inr k \<and> tcpIpGetTargetTestServerKeys n p = Inr ks"
      using assms(1) by (auto simp: tcpIpGetKey_def wire_packet_layers)
    then show ?thesis
      using tcp_store.unconfigured_run [of n "?p syn" k0 ks0 c0 "map ?p ws" c'] k0 ks0 c0(1) c'(1) flow
      by (simp add: TcpConversationFactory_def tcp_record_def)
  qed
  moreover have "word_of_int (pcap_datalink (capture_of (syn # ws))) = DLT_EN10MB"
    "pcap_loop_rc (capture_of (syn # ws)) = 0"
    by (simp_all add: capture_of_def DLT_EN10MB_def)
  ultimately show ?thesis
    using c'(2) capture_packets [OF assms(1), of ?f tcp_processCapturePacket
        "\<lparr>conversation_store = new_store, datalink_type = 0\<rparr>"]
    by (simp add: load_capture_def assms(8) getConversations_def)
qed

text \<open>
  C9. Loading a capture with no client specification records the session of its first frame:
  where the frames of that flow are a handshake, segments without \<open>FIN\<close> and \<open>RST\<close>, the first
  segment with \<open>FIN\<close> and whatever follows it without a new \<open>SYN\<close> of the client's address, the
  store holds one conversation, whose queue is \<open>CONNECT\<close>, the non-empty payloads of that flow from
  behind the handshake up to and including the first \<open>FIN\<close>, in order as \<open>SEND\<close> or
  \<open>RECV\<close>, and \<open>CLOSE\<close>, whatever other TCP flows the capture interleaves. Payload on the
  handshake and behind the first \<open>FIN\<close> is not recorded.
\<close>

theorem capture_records_first_session:
  assumes "\<forall>w \<in> set (syn # ws). wire_ok w"
    and "filter (same_flow syn) (syn # ws) = [syn, synack, ack] @ ds @ [fin] @ after"
    and "handshake (w_src syn) (w_dst syn) (wire_segment syn) (wire_segment synack) (wire_segment ack)"
    and "\<forall>w \<in> set ds. w_flags w AND TH_RST = 0 \<and> w_flags w AND TH_FIN = 0"
    and "w_flags fin AND TH_RST = 0" "w_flags fin AND TH_FIN \<noteq> 0"
    and "\<forall>w \<in> set after. \<not> (w_src w = w_src syn \<and> w_flags w = TH_SYN)"
    and "pcap_open file = Inr (capture_of (syn # ws))"
  shows "\<exists>cap' c. load_capture (TcpConversationFactory n) tcp_processCapturePacket pcap_open file
      \<lparr>conversation_store = new_store, datalink_type = 0\<rparr> = Inr cap' \<and>
    getConversations (conversation_store cap') = [c] \<and>
    action_queue c = new_action CONNECT #
      concat (map (data_actions (w_src syn) (htons (w_sport syn))) (map wire_segment (ds @ [fin]))) @
      [new_action CLOSE]"
  using assms by (rule load_records_first_session)

text \<open>
  A frame that was not fully captured aborts the load with an error, wherever it stands in
  the file and whatever libpcap reports at its end.
\<close>

theorem truncated_frame_aborts_load:
  assumes "pcap_open file = Inr pcap" "pcap_frames pcap = before @ (h, bytes) # after"
    and "caplen h \<noteq> len h"
    and "fold_result (packetHandler f process) before
      (cap\<lparr>datalink_type := word_of_int (pcap_datalink pcap)\<rparr>) = Inr cap1"
  shows "load_capture f process pcap_open file cap =
    Inl (Runtime_error ''packet not fully captured.  increase snap length on capture'')"
  using assms by (simp add: load_capture_def fold_result_append packetHandler_def dissect_def)

text \<open>
  Frames without an IPv4 or IPv6 packet are skipped: on Ethernet every other EtherType, and
  on a loopback capture every frame whose first and fourth byte differ from \<open>AF_INET\<close> (so IPv6
  over loopback is ignored); on any other link type every frame is skipped.
\<close>

theorem other_frames_skipped:
  assumes "caplen h = len h"
    and "datalink_type cap = DLT_EN10MB \<Longrightarrow> 14 \<le> length bytes \<and>
      be16 (bytes ! 12) (bytes ! 13) \<notin> {ETHERTYPE_IP, ETHERTYPE_IPV6}"
    and "datalink_type cap = DLT_NULL \<Longrightarrow> 4 \<le> length bytes \<and>
      uint (bytes ! 0) \<noteq> AF_INET \<and> uint (bytes ! 3) \<noteq> AF_INET"
  shows "packetHandler f process (h, bytes) cap = Inr cap"
proof -
  have "link_layer (datalink_type cap) h bytes = Inr None"
  proof (cases "datalink_type cap = DLT_NULL")
    case True
    then have "read8 bytes 0 = Inr (bytes ! 0)" "read8 bytes 3 = Inr (bytes ! 3)"
      using assms(3) by (auto intro!: read8_ok)
    with True assms(3) show ?thesis by (simp add: link_layer_def)
  next
    case False
    with assms(2) show ?thesis
      by (auto simp: link_layer_def eth_getEtherType_def Let_def)
  qed
  then show ?thesis using assms(1) by (simp add: packetHandler_skip dissect_def)
qed

section \<open>Witnesses\<close>

definition sample_wire :: "byte \<Rightarrow> 16 word \<Rightarrow> byte \<Rightarrow> 16 word \<Rightarrow> byte \<Rightarrow> byte list \<Rightarrow> wire" where
  "sample_wire s sp d dp flags payload =
     \<lparr>w_mac = replicate 12 0, w_tos = 0, w_ident = [0, 0, 0, 0, 64], w_ipck = [0, 0],
      w_src = [10, 0, 0, s], w_dst = [10, 0, 0, d], w_ipopts = [1, 1, 1, 0],
      w_sport = sp, w_dport = dp, w_seqack = replicate 8 0, w_flags = flags,
      w_tail = replicate 6 0, w_tcpopts = [1, 1, 1, 1, 1, 1, 1, 0], w_payload = payload,
      w_padding = [0, 0, 0]\<rparr>"

lemma sample_wire_ok: "length payload < 100 \<Longrightarrow> wire_ok (sample_wire s sp d dp flags payload)"
  by (simp add: wire_ok_def sample_wire_def ip4_total_def ip4_header_len_def tcp_header_size_def
      exI [of _ 1] exI [of _ 2])

theorem ethernet_frame_dissected_witness:
  "\<exists>p. dissect DLT_EN10MB (full_header (frame_bytes (sample_wire 1 700 2 80 0x18 [71])))
      (frame_bytes (sample_wire 1 700 2 80 0x18 [71])) = Inr (Some p) \<and>
    tcp_segment p = Some \<lparr>seg_src = [10, 0, 0, 1], seg_sport = htons 700, seg_flags = 0x18,
      seg_payload = ''G''\<rparr>"
proof -
  have "char_of_byte 71 = CHR ''G''" by code_simp
  then show ?thesis
    using ethernet_frame_dissected [of "sample_wire 1 700 2 80 0x18 [71]"] sample_wire_ok [of "[71]"]
    by (simp add: sample_wire_def)
qed

definition sample_capture :: "wire list" where
  "sample_capture =
     [sample_wire 1 700 2 80 0x02 [], sample_wire 3 700 2 80 0x02 [], sample_wire 2 80 1 700 0x12 [],
      sample_wire 1 700 2 80 0x10 [], sample_wire 1 700 2 80 0x18 [71], sample_wire 2 80 3 700 0x12 [],
      sample_wire 2 80 1 700 0x11 [72], sample_wire 1 700 2 80 0x11 [120], sample_wire 2 80 1 700 0x10 []]"

lemma sample_same_flow:
  "same_flow (sample_wire a p b q f xs) (sample_wire c r d s g ys) \<longleftrightarrow>
    a = c \<and> p = r \<and> b = d \<and> q = s \<or> a = d \<and> p = s \<and> b = c \<and> q = r"
  by (auto simp: same_flow_def sample_wire_def doubleton_eq_iff)

theorem capture_records_first_session_witness:
  "\<exists>cap' c. load_capture (TcpConversationFactory sample_inet6) tcp_processCapturePacket
      (\<lambda>_. Inr (capture_of sample_capture)) ''a.pcap''
      \<lparr>conversation_store = new_store, datalink_type = 0\<rparr> = Inr cap' \<and>
    getConversations (conversation_store cap') = [c] \<and>
    action_queue c = [new_action CONNECT, new_action_data SEND ''G'', new_action_data RECV ''H'',
      new_action CLOSE]"
proof -
  let ?syn = "sample_wire 1 700 2 80 0x02 []" and ?ds = "[sample_wire 1 700 2 80 0x18 [71]]"
    and ?fin = "sample_wire 2 80 1 700 0x11 [72]"
    and ?after = "[sample_wire 1 700 2 80 0x11 [120], sample_wire 2 80 1 700 0x10 []]"
  have ok: "\<forall>w \<in> set (?syn # tl sample_capture). wire_ok w"
    by (simp add: sample_capture_def sample_wire_ok)
  have flow: "filter (same_flow ?syn) (?syn # tl sample_capture) =
      [?syn, sample_wire 2 80 1 700 0x12 [], sample_wire 1 700 2 80 0x10 []] @ ?ds @ [?fin] @ ?after"
    by (simp add: sample_capture_def sample_same_flow)
  have hs: "handshake (w_src ?syn) (w_dst ?syn) (wire_segment ?syn)
      (wire_segment (sample_wire 2 80 1 700 0x12 [])) (wire_segment (sample_wire 1 700 2 80 0x10 []))"
    by code_simp
  have flags: "\<forall>w \<in> set ?ds. w_flags w AND TH_RST = 0 \<and> w_flags w AND TH_FIN = 0"
    "w_flags ?fin AND TH_RST = 0" "w_flags ?fin AND TH_FIN \<noteq> 0"
    "\<forall>w \<in> set ?after. \<not> (w_src w = w_src ?syn \<and> w_flags w = TH_SYN)"
    by code_simp+
  have acts: "new_action CONNECT # concat (map (data_actions (w_src ?syn) (htons (w_sport ?syn)))
      (map wire_segment (?ds @ [?fin]))) @ [new_action CLOSE] =
      [new_action CONNECT, new_action_data SEND ''G'', new_action_data RECV ''H'', new_action CLOSE]"
    by code_simp
  have "sample_capture = ?syn # tl sample_capture" by (simp add: sample_capture_def)
  with capture_records_first_session [OF ok flow hs flags, of "\<lambda>_. Inr (capture_of sample_capture)" "''a.pcap''"
      sample_inet6]
  show ?thesis by (simp only: acts simp_thms)
qed

definition truncated_capture :: pcap_handle where
  "truncated_capture =
     \<lparr>pcap_datalink = 1, pcap_frames = [(\<lparr>caplen = 2, len = 60\<rparr>, [1, 2])],
      pcap_loop_rc = 0, pcap_geterr = []\<rparr>"

theorem truncated_frame_aborts_load_witness:
  "load_capture (TcpConversationFactory sample_inet6) tcp_processCapturePacket
      (\<lambda>_. Inr truncated_capture) ''a.pcap''
      \<lparr>conversation_store = new_store, datalink_type = 0\<rparr> =
    Inl (Runtime_error ''packet not fully captured.  increase snap length on capture'')"
  by (rule truncated_frame_aborts_load [where pcap = truncated_capture and before = "[]" and h = "\<lparr>caplen = 2, len = 60\<rparr>" and
        bytes = "[1, 2]" and after = "[]"]) (simp_all add: truncated_capture_def)

theorem other_frames_skipped_witness:
  "packetHandler (TcpConversationFactory sample_inet6) tcp_processCapturePacket
      (full_header ([10, 0, 0, 0] @ replicate 40 0), [10, 0, 0, 0] @ replicate 40 0)
      \<lparr>conversation_store = new_store, datalink_type = DLT_NULL\<rparr> =
    Inr \<lparr>conversation_store = new_store, datalink_type = DLT_NULL\<rparr>"
  by (rule other_frames_skipped) (simp_all add: full_header_def DLT_NULL_def DLT_EN10MB_def AF_INET_def)

end
