(* ===== verification/Properties.thy ===== *)
theory Properties
  imports Util Numbers "HOL-Library.AList" "HOL-Library.Multiset"
begin

text \<open>
  src/src/include/properties.h and src/src/lib/properties.cc: the table of named values that
  script headers, action attributes and substitution contexts are kept in. The code's
  \<open>std::unordered_map\<close> is an association list with distinct keys; the order in which \<open>write\<close>
  visits the entries is unspecified, so it is an argument, known to be a permutation.
\<close>

type_synonym properties = "(string \<times> string) list"

definition delimiter :: char where "delimiter = CHR '':''"

definition props_ok :: "properties \<Rightarrow> bool" where
  "props_ok p \<longleftrightarrow> distinct (map fst p)"

definition props_put :: "string \<Rightarrow> string \<Rightarrow> properties \<Rightarrow> properties" where
  "props_put key value p = AList.update key value p"

definition props_contains :: "string \<Rightarrow> properties \<Rightarrow> bool" where
  "props_contains key p = (map_of p key \<noteq> None)"

text \<open>\<open>data_.at(key)\<close> throws \<open>std::out_of_range\<close> where the key is absent.\<close>

definition props_get :: "string \<Rightarrow> properties \<Rightarrow> string result" where
  "props_get key p =
     (case map_of p key of None \<Rightarrow> Inl (Out_of_range ''unordered_map::at'') | Some v \<Rightarrow> Inr v)"

definition getAsInt :: "string \<Rightarrow> properties \<Rightarrow> int result" where
  "getAsInt key p = bind (props_get key p) stoi"

definition props_clear :: properties where "props_clear = []"

text \<open>\<open>put(line)\<close>: the text before and after the first delimiter, without outer white space.\<close>

definition props_put_line :: "string \<Rightarrow> properties \<Rightarrow> bool \<times> properties" where
  "props_put_line line p =
     (case dropWhile (\<lambda>c. c \<noteq> delimiter) line of
        [] \<Rightarrow> (False, p)
      | _ # after \<Rightarrow>
          let key = trim (takeWhile (\<lambda>c. c \<noteq> delimiter) line); value = trim after
          in (True, props_put key value p))"

definition props_line :: "string \<times> string \<Rightarrow> string" where
  "props_line e = fst e @ [delimiter] @ '' '' @ snd e"

text \<open>\<open>visit\<close> lists the entries in the order of the container.\<close>

definition props_write :: "(properties \<Rightarrow> properties) \<Rightarrow> properties \<Rightarrow> string" where
  "props_write visit p = concat (map (\<lambda>e. props_line e @ ''\<newline>'') (visit p))"

section \<open>Table laws\<close>

lemma props_put_map [simp]: "map_of (props_put k v p) = (map_of p)(k \<mapsto> v)"
  by (simp add: props_put_def AList.update_conv')

lemma props_ok_put [simp]: "props_ok p \<Longrightarrow> props_ok (props_put k v p)"
  by (simp add: props_ok_def props_put_def AList.distinct_update)

lemma props_ok_clear [simp]: "props_ok props_clear"
  by (simp add: props_ok_def props_clear_def)

lemma props_get_put [simp]:
  "props_get k (props_put k' v p) = (if k = k' then Inr v else props_get k p)"
  by (simp add: props_get_def)

lemma props_contains_put [simp]: "props_contains k (props_put k' v p) \<longleftrightarrow> k = k' \<or> props_contains k p"
  by (auto simp: props_contains_def)

lemma props_get_contains: "(\<exists>v. props_get k p = Inr v) \<longleftrightarrow> props_contains k p"
  by (auto simp: props_get_def props_contains_def split: option.splits)

lemma props_put_line_ok: "props_ok p \<Longrightarrow> props_ok (snd (props_put_line l p))"
  by (simp add: props_put_line_def Let_def split: list.splits)

lemma map_of_visit: "props_ok p \<Longrightarrow> mset q = mset p \<Longrightarrow> map_of q = map_of p"
  unfolding props_ok_def
  by (metis map_of_eqI mset_eq_imp_distinct_iff mset_map set_mset_mset map_of_eq_Some_iff ext
      not_Some_eq mset_eq_setD)

section \<open>Round trip\<close>

definition entry_ok :: "string \<times> string \<Rightarrow> bool" where
  "entry_ok e \<longleftrightarrow> trimmed (fst e) \<and> trimmed (snd e) \<and> delimiter \<notin> set (fst e)"

lemma isspace_blank [simp]: "isspace CHR '' ''"
  by code_simp

lemma props_put_line_entry:
  assumes "entry_ok e"
  shows "props_put_line (props_line e) p = (True, props_put (fst e) (snd e) p)"
proof -
  have "takeWhile (\<lambda>c. c \<noteq> delimiter) (props_line e) = fst e"
    "dropWhile (\<lambda>c. c \<noteq> delimiter) (props_line e) = delimiter # CHR '' '' # snd e"
    using assms by (auto simp: props_line_def entry_ok_def takeWhile_append dropWhile_append
        dropWhile_absent takeWhile_absent)
  with assms show ?thesis
    by (simp add: props_put_line_def Let_def trim_space_append entry_ok_def)
qed

definition put_lines :: "string list \<Rightarrow> properties \<Rightarrow> properties" where
  "put_lines ls p = fold (\<lambda>l p. snd (props_put_line l p)) ls p"

lemma put_lines_entries:
  "\<forall>e \<in> set es. entry_ok e \<Longrightarrow> map_of (put_lines (map props_line es) p) = map_of p ++ map_of (rev es)"
proof (induction es arbitrary: p)
  case Nil
  then show ?case by (simp add: put_lines_def)
next
  case (Cons e es)
  then have "map_of (put_lines (map props_line (e # es)) p) =
      map_of (put_lines (map props_line es) (props_put (fst e) (snd e) p))"
    by (simp add: put_lines_def props_put_line_entry)
  with Cons show ?case by (cases e) (simp add: map_add_upd_left)
qed

end
