(* ===== verification/Http_Response.thy ===== *)
theory Http_Response
  imports Properties Ordered_Map
begin

text \<open>
  src/src/http_replay/http_response_processor.h and .cc: the incremental parser of HTTP responses.
  Received bytes are kept until the header is complete; the header decides which of two data
  processors takes the rest: one for a \<open>content-length\<close>, one for chunked transfer encoding.
  Memory that was allocated but not written holds \<open>None\<close>.
\<close>

section \<open>Responses with a content length\<close>

record content_len =
  payload :: "byte option list"
  payload_size :: int
  payload_read :: int

definition ContentLenProcessor :: "(string \<times> string) list \<Rightarrow> content_len result" where
  "ContentLenProcessor hs =
     bind (stoul (case map_of hs ''content-length'' of None \<Rightarrow> [] | Some v \<Rightarrow> v)) (\<lambda>v.
       let n = int_of_ulong v
       in if n < 0 then Inl Bad_array_new_length
          else Inr \<lparr>payload = replicate (nat n) None, payload_size = n, payload_read = 0\<rparr>)"

definition content_complete :: "content_len \<Rightarrow> bool" where
  "content_complete p \<longleftrightarrow> payload_size p = payload_read p"

text \<open>\<open>memcpy(payload_ + payload_read_, data, data_len)\<close> checks no bound.\<close>

definition content_process :: "byte list \<Rightarrow> content_len \<Rightarrow> content_len result" where
  "content_process data p =
     (let off = nat (payload_read p)
      in if length (payload p) < off + length data then Inl (Undefined_behaviour Out_of_bounds_write)
         else Inr (p\<lparr>payload := take off (payload p) @ map Some data @ drop (off + length data) (payload p),
                     payload_read := payload_read p + int (length data)\<rparr>))"

definition initialised :: "byte option list \<Rightarrow> byte list result" where
  "initialised b =
     (if None \<in> set b then Inl (Undefined_behaviour Uninitialised_read) else Inr (map the b))"

definition content_compare :: "content_len \<Rightarrow> content_len \<Rightarrow> int result" where
  "content_compare p q =
     (if payload_size q \<noteq> payload_size p then Inr (payload_size p - payload_size q)
      else bind (initialised (payload p)) (\<lambda>a.
           bind (initialised (payload q)) (\<lambda>b. Inr (memcmp a b))))"

section \<open>Chunked responses\<close>

definition TMPSIZ :: nat where "TMPSIZ = 1024"

text \<open>
  Only the first \<open>tmp_buf_size_\<close> characters of \<open>tmp_buf_\<close> and the NUL behind them are ever looked
  at, so the buffer is the list of these characters.
\<close>

record chunked =
  chunk_size :: int
  chunk_read :: int
  chunk_end_char_count :: nat
  tmp_buf :: string
  chunk_data :: "byte list"
  chunks_complete :: bool

definition ChunkedProcessor :: chunked where
  "ChunkedProcessor =
     \<lparr>chunk_size = -1, chunk_read = 0, chunk_end_char_count = 0, tmp_buf = [], chunk_data = [],
      chunks_complete = False\<rparr>"

definition c_string :: "string \<Rightarrow> string" where
  "c_string s = takeWhile (\<lambda>c. c \<noteq> CHR 0x00) s"

abbreviation crlf :: string where "crlf \<equiv> [CHR 0x0D, CHR 0x0A]"

text \<open>
  \<open>"invalid chunk terminator char " + c\<close> moves the pointer to the literal by the value of the
  character; beyond the terminator of the literal there is nothing to read.
\<close>

definition terminator_error :: "byte \<Rightarrow> error" where
  "terminator_error b =
     (let msg = ''invalid chunk terminator char ''
      in if unat b \<le> length msg then Runtime_error (drop (unat b) msg)
         else Undefined_behaviour Out_of_bounds_read)"

text \<open>
  One iteration: \<open>Inl\<close> for an exception, otherwise whether to return with a value, and the
  characters of the data consumed so far. The pieces of the loop body are named after what they
  read.
\<close>

datatype step = Return bool | Continue

definition size_step :: "byte list \<Rightarrow> nat \<Rightarrow> chunked \<Rightarrow> (step \<times> nat \<times> chunked) result" where
  "size_step data nprocessed s =
     (let copy_len = min (length data - nprocessed) (TMPSIZ - length (tmp_buf s));
          buf = tmp_buf s @ map char_of_byte (take copy_len (drop nprocessed data));
          s1 = s\<lparr>tmp_buf := buf\<rparr>
      in if sublist crlf (c_string buf) then
           (case strtoul 16 (c_string buf) of (v, endp) \<Rightarrow>
              if endp = 0 then Inl (Runtime_error (''invalid chunk size in '' @ c_string buf))
              else Inr (Continue, nprocessed + endp + 2, s1\<lparr>chunk_size := int_of_ulong v\<rparr>))
         else if length buf = TMPSIZ then Inl (Runtime_error ''failed to find chunk size'')
         else Inr (Return False, nprocessed, s1))"

definition end_step :: "byte list \<Rightarrow> nat \<Rightarrow> chunked \<Rightarrow> (step \<times> nat \<times> chunked) result" where
  "end_step data nprocessed s =
     (let b = data ! nprocessed
      in if chunk_end_char_count s = 0 then
           (if b = 0x0D then Inr (Continue, nprocessed + 1, s\<lparr>chunk_end_char_count := 1\<rparr>)
            else Inl (terminator_error b))
         else if chunk_end_char_count s = 1 then
           (if b = 0x0A then
              (if chunk_size s = 0 then Inr (Return True, nprocessed + 1, s\<lparr>chunks_complete := True\<rparr>)
               else Inr (Continue, nprocessed + 1,
                 s\<lparr>chunk_size := -1, chunk_read := 0, tmp_buf := [], chunk_end_char_count := 0\<rparr>))
            else Inl (terminator_error b))
         else Inr (Continue, nprocessed, s))"

definition data_step :: "byte list \<Rightarrow> nat \<Rightarrow> chunked \<Rightarrow> (step \<times> nat \<times> chunked) result" where
  "data_step data nprocessed s =
     (let copy_len = min (int (length data - nprocessed)) (chunk_size s - chunk_read s)
      in if copy_len < 0 then Inl (Undefined_behaviour Invalid_range)
         else Inr (Continue, nprocessed + nat copy_len,
           s\<lparr>chunk_data := chunk_data s @ take (nat copy_len) (drop nprocessed data),
             chunk_read := chunk_read s + copy_len\<rparr>))"

definition chunked_step :: "byte list \<Rightarrow> nat \<Rightarrow> chunked \<Rightarrow> (step \<times> nat \<times> chunked) result" where
  "chunked_step data nprocessed s =
     (if chunk_size s < 0 then size_step data nprocessed s
      else if chunk_read s = chunk_size s then end_step data nprocessed s
      else data_step data nprocessed s)"

text \<open>
  The loop. A counter of the terminator characters above one would keep the loop where it is; the
  invariant below excludes it, and \<open>None\<close> stands for running forever.
\<close>

partial_function (option) chunked_loop ::
  "byte list \<Rightarrow> nat \<Rightarrow> chunked \<Rightarrow> (bool \<times> chunked) result option" where
  [code]: "chunked_loop data nprocessed s =
     (if length data \<le> nprocessed then Some (Inr (False, s))
      else
        case chunked_step data nprocessed s of
          Inl e \<Rightarrow> Some (Inl e)
        | Inr r \<Rightarrow>
            (case fst r of
               Return b \<Rightarrow> Some (Inr (b, snd (snd r)))
             | Continue \<Rightarrow> chunked_loop data (fst (snd r)) (snd (snd r))))"

definition chunked_process :: "byte list \<Rightarrow> chunked \<Rightarrow> (bool \<times> chunked) result option" where
  "chunked_process data s = chunked_loop data 0 s"

text \<open>\<open>strncmp\<close> stops behind the first NUL that both strings have.\<close>

fun strncmp :: "byte list \<Rightarrow> byte list \<Rightarrow> int" where
  "strncmp (x # xs) (y # ys) =
     (if x = y then (if x = 0 then 0 else strncmp xs ys) else if x < y then -1 else 1)"
| "strncmp _ _ = 0"

definition chunked_compare :: "chunked \<Rightarrow> chunked \<Rightarrow> int" where
  "chunked_compare p q =
     (let size_diff = int (length (chunk_data p)) - int (length (chunk_data q))
      in if size_diff \<noteq> 0 then size_diff else strncmp (chunk_data p) (chunk_data q))"

section \<open>The header\<close>

definition status_of :: "string \<Rightarrow> int \<Rightarrow> int result" where
  "status_of line status =
     (case getline (CHR '' '') (open_stream line) of (ok, _, st) \<Rightarrow>
        if ok then
          (case getline (CHR '' '') st of (ok', status_token, _) \<Rightarrow>
             if ok' then bind (stoul status_token) (\<lambda>v. Inr (int_of_ulong v)) else Inr status)
        else Inr status)"

definition header_entry :: "string \<Rightarrow> string \<times> string" where
  "header_entry line =
     (case getline (CHR '':'') (open_stream line) of (_, key, st) \<Rightarrow>
        case getline (CHR 0x0D) st of (_, value, _) \<Rightarrow> (toLower (trim key), trim value))"

function header_lines :: "istream \<Rightarrow> (string \<times> string) list \<Rightarrow> (string \<times> string) list" where
  "header_lines st hs =
     (case getline (CHR 0x0A) st of (ok, line, st') \<Rightarrow>
        if ok then (case header_entry line of (k, v) \<Rightarrow> header_lines st' (map_put k v hs)) else hs)"
  by pat_completeness auto
termination
  by (relation "measure (\<lambda>(st, _). length (rest st))") (auto simp: getline_shorter [OF sym])

declare header_lines.simps [simp del]

definition parseHeader ::
  "string \<Rightarrow> int \<times> (string \<times> string) list \<Rightarrow> (int \<times> (string \<times> string) list) result" where
  "parseHeader header_str sh =
     (case getline (CHR 0x0A) (open_stream header_str) of (ok, line, st) \<Rightarrow>
        if ok then
          bind (status_of line (fst sh)) (\<lambda>status. Inr (status, header_lines st (snd sh)))
        else Inr sh)"

section \<open>The processor\<close>

datatype data_processor = Content content_len | Chunks chunked

record processor =
  header_str :: string
  headers :: "(string \<times> string) list"
  status_code :: int
  data_processor :: "data_processor option"

text \<open>
  \<open>reset\<close> keeps the headers; the constructor calls it on an empty table. The data processor it drops is
  deleted through a base class without a virtual destructor, which the C++ standard leaves undefined;
  it is taken for a deletion that succeeds, here as for the layers of a packet.
\<close>

definition reset :: "processor \<Rightarrow> processor" where
  "reset p = p\<lparr>status_code := -1, header_str := [], data_processor := None\<rparr>"

definition new_processor :: processor where
  "new_processor = reset \<lparr>header_str = [], headers = [], status_code = 0, data_processor = None\<rparr>"

fun isComplete :: "data_processor \<Rightarrow> bool" where
  "isComplete (Content p) = content_complete p"
| "isComplete (Chunks s) = chunks_complete s"

fun process :: "byte list \<Rightarrow> data_processor \<Rightarrow> data_processor result option" where
  "process data (Content p) = Some (bind (content_process data p) (\<lambda>p'. Inr (Content p')))"
| "process data (Chunks s) =
     obind (chunked_process data s) (\<lambda>(_, s'). Some (Inr (Chunks s')))"

definition deref_processor :: "data_processor option \<Rightarrow> data_processor result" where
  "deref_processor d = (case d of None \<Rightarrow> Inl (Undefined_behaviour Null_dereference) | Some p \<Rightarrow> Inr p)"

definition complete :: "processor \<Rightarrow> bool result" where
  "complete p =
     (if status_code p = -1 then Inr False
      else bind (deref_processor (data_processor p)) (\<lambda>d. Inr (isComplete d)))"

definition header_end :: string where "header_end = crlf @ crlf"

text \<open>\<open>strcasecmp(s, "chunked") == 0\<close>.\<close>

definition is_chunked :: "string \<Rightarrow> bool" where
  "is_chunked s = (toLower (c_string s) = ''chunked'')"

definition select_processor :: "(string \<times> string) list \<Rightarrow> data_processor result" where
  "select_processor hs =
     (if map_contains hs ''content-length'' then
        bind (ContentLenProcessor hs) (\<lambda>p. Inr (Content p))
      else
        case map_of hs ''transfer-encoding'' of
          Some v \<Rightarrow> if is_chunked v then Inr (Chunks ChunkedProcessor)
                    else Inl (Runtime_error ''unsupported HTTP encoding'')
        | None \<Rightarrow> Inl (Runtime_error ''unsupported HTTP encoding''))"

text \<open>What \<open>processData\<close> does with a header that became complete at \<open>pos\<close>.\<close>

definition header_found :: "nat \<Rightarrow> string \<Rightarrow> processor \<Rightarrow> processor result option" where
  "header_found pos str p =
     obind (Some (parseHeader (take pos str) (status_code p, headers p))) (\<lambda>(status, hs).
     obind (Some (select_processor hs)) (\<lambda>d.
       let p1 = p\<lparr>status_code := status, headers := hs\<rparr>
       in if pos + 4 < length str then
            obind (process (map byte_of_char (drop (pos + 4) str)) d) (\<lambda>d'.
              Some (Inr (p1\<lparr>header_str := take (pos + 4) str, data_processor := Some d'\<rparr>)))
          else Some (Inr (p1\<lparr>header_str := str, data_processor := Some d\<rparr>))))"

definition processData :: "byte list \<Rightarrow> processor \<Rightarrow> (bool \<times> processor) result option" where
  "processData data p =
     obind
       (if status_code p = -1 then
          let orig_len = length (header_str p);
              str = header_str p @ map char_of_byte data
          in if orig_len + length data > 3 then
               (case find_from str header_end (if orig_len < 3 then 0 else orig_len - 3) of
                  Some pos \<Rightarrow> header_found pos str p
                | None \<Rightarrow> Some (Inr (p\<lparr>header_str := str\<rparr>)))
             else Some (Inr (p\<lparr>header_str := str\<rparr>))
        else
          obind (Some (deref_processor (data_processor p))) (\<lambda>d.
          obind (process data d) (\<lambda>d'. Some (Inr (p\<lparr>data_processor := Some d'\<rparr>)))))
       (\<lambda>p'. obind (Some (deref_processor (data_processor p'))) (\<lambda>d. Some (Inr (isComplete d, p'))))"

fun compare_data :: "data_processor \<Rightarrow> data_processor \<Rightarrow> int result" where
  "compare_data (Content p) (Content q) = content_compare p q"
| "compare_data (Chunks p) (Chunks q) = Inr (chunked_compare p q)"
| "compare_data _ _ = Inl (Runtime_error ''response used different transfer encoding'')"

definition compare :: "processor \<Rightarrow> processor \<Rightarrow> int result" where
  "compare p q =
     bind (complete p) (\<lambda>a.
     bind (if a then complete q else Inr False) (\<lambda>b.
       if \<not> (a \<and> b) then
         Inl (Runtime_error ''internal failure: invalid state for response processor'')
       else
         let ret = status_code p - status_code q
         in if ret \<noteq> 0 then Inr ret
            else bind (deref_processor (data_processor p)) (\<lambda>d.
                 bind (deref_processor (data_processor q)) (\<lambda>e. compare_data d e))))"

section \<open>The chunked loop returns\<close>

text \<open>
  What every call leaves: the counter of terminator characters is at most one, and a chunk is never
  read beyond its size.
\<close>

definition chunked_ok :: "chunked \<Rightarrow> bool" where
  "chunked_ok s \<longleftrightarrow> chunk_end_char_count s \<le> 1 \<and> 0 \<le> chunk_read s \<and>
     (if chunk_size s < 0 then chunk_read s = 0 else chunk_read s \<le> chunk_size s) \<and>
     length (tmp_buf s) \<le> TMPSIZ"

lemma chunked_ok_new [simp]: "chunked_ok ChunkedProcessor"
  by (simp add: chunked_ok_def ChunkedProcessor_def)

lemma size_step_ok:
  assumes "size_step data i s = Inr (st, i', s')" "chunked_ok s" "chunk_size s < 0"
  shows "chunked_ok s' \<and> (st = Continue \<longrightarrow> i < i')"
proof -
  define buf where
    "buf = tmp_buf s @ map char_of_byte (take (min (length data - i) (TMPSIZ - length (tmp_buf s))) (drop i data))"
  have buf: "length buf \<le> TMPSIZ"
    using assms(2) by (auto simp: chunked_ok_def buf_def min_def)
  obtain v e where v: "strtoul 16 (c_string buf) = (v, e)" by fastforce
  have s: "size_step data i s =
      (if sublist crlf (c_string buf) then
         (if e = 0 then Inl (Runtime_error (''invalid chunk size in '' @ c_string buf))
          else Inr (Continue, i + e + 2, s\<lparr>tmp_buf := buf, chunk_size := int_of_ulong v\<rparr>))
       else if length buf = TMPSIZ then Inl (Runtime_error ''failed to find chunk size'')
       else Inr (Return False, i, s\<lparr>tmp_buf := buf\<rparr>))"
    unfolding size_step_def buf_def [symmetric] Let_def v by simp
  show ?thesis
  proof (cases "sublist crlf (c_string buf)")
    case True
    with assms(1) s have "st = Continue" "i < i'" "s' = s\<lparr>tmp_buf := buf, chunk_size := int_of_ulong v\<rparr>"
      by (simp_all split: if_splits)
    with assms(2,3) buf show ?thesis by (simp add: chunked_ok_def)
  next
    case False
    with assms(1) s have "st = Return False" "s' = s\<lparr>tmp_buf := buf\<rparr>" by (simp_all split: if_splits)
    with assms(2,3) buf show ?thesis by (simp add: chunked_ok_def)
  qed
qed

lemma chunked_step_ok:
  assumes "chunked_step data i s = Inr (st, i', s')" "chunked_ok s" "i < length data"
  shows "chunked_ok s' \<and> (st = Continue \<longrightarrow> i < i')"
proof -
  consider "chunk_size s < 0" | "\<not> chunk_size s < 0" "chunk_read s = chunk_size s"
    | "\<not> chunk_size s < 0" "chunk_read s < chunk_size s"
    using assms(2) by (fastforce simp: chunked_ok_def split: if_splits)
  then show ?thesis
  proof cases
    case 1
    with assms size_step_ok show ?thesis by (simp add: chunked_step_def)
  next
    case 2
    with assms have "end_step data i s = Inr (st, i', s')" by (simp add: chunked_step_def)
    with 2 assms(2) show ?thesis
      by (auto simp: end_step_def chunked_ok_def Let_def split: if_splits)
  next
    case 3
    with assms have "data_step data i s = Inr (st, i', s')" by (simp add: chunked_step_def)
    with 3 assms(2,3) show ?thesis
      by (auto simp: data_step_def chunked_ok_def Let_def split: if_splits)
  qed
qed

lemma chunked_loop_returns:
  "chunked_ok s \<Longrightarrow> \<exists>r. chunked_loop data i s = Some r \<and> (\<forall>b s'. r = Inr (b, s') \<longrightarrow> chunked_ok s')"
proof (induction "length data - i" arbitrary: i s rule: less_induct)
  case less
  show ?case
  proof (cases "length data \<le> i")
    case True
    with less.prems show ?thesis by (simp add: chunked_loop.simps [of data i s])
  next
    case False
    show ?thesis
    proof (cases "chunked_step data i s")
      case (Inl e)
      with False show ?thesis by (simp add: chunked_loop.simps [of data i s])
    next
      case (Inr r)
      obtain st i' s' where r: "r = (st, i', s')" by (cases r)
      note ok = chunked_step_ok [OF Inr [unfolded r] less.prems]
      show ?thesis
      proof (cases st)
        case (Return b)
        with False Inr r ok show ?thesis by (simp add: chunked_loop.simps [of data i s])
      next
        case Continue
        with ok False have "length data - i' < length data - i" "chunked_ok s'" by auto
        from less.hyps [OF this] False Inr r Continue show ?thesis
          by (simp add: chunked_loop.simps [of data i s])
      qed
    qed
  qed
qed

lemma chunked_process_returns:
  "chunked_ok s \<Longrightarrow> \<exists>r. chunked_process data s = Some r \<and> (\<forall>b s'. r = Inr (b, s') \<longrightarrow> chunked_ok s')"
  unfolding chunked_process_def by (rule chunked_loop_returns)

fun data_ok :: "data_processor \<Rightarrow> bool" where
  "data_ok (Content p) = True"
| "data_ok (Chunks s) = chunked_ok s"

definition processor_ok :: "processor \<Rightarrow> bool" where
  "processor_ok p \<longleftrightarrow> (case data_processor p of Some d \<Rightarrow> data_ok d | None \<Rightarrow> True)"

lemma processor_ok_reset [simp]: "processor_ok (reset p)" "processor_ok new_processor"
  by (simp_all add: processor_ok_def reset_def new_processor_def)

lemma process_returns:
  "data_ok d \<Longrightarrow> \<exists>r. process data d = Some r \<and> (\<forall>d'. r = Inr d' \<longrightarrow> data_ok d')"
proof (cases d)
  case (Content p)
  then show ?thesis by (auto simp: result_simps)
next
  case (Chunks s)
  assume "data_ok d"
  then obtain r where r: "chunked_process data s = Some r" "\<forall>b s'. r = Inr (b, s') \<longrightarrow> chunked_ok s'"
    using chunked_process_returns Chunks by fastforce
  with Chunks show ?thesis by (cases r) auto
qed

lemma select_processor_ok: "select_processor hs = Inr d \<Longrightarrow> data_ok d"
  by (auto simp: select_processor_def result_simps split: if_splits option.splits)

lemma header_found_returns:
  "\<exists>r. header_found pos str p = Some r \<and> (\<forall>p'. r = Inr p' \<longrightarrow> processor_ok p')"
proof (cases "parseHeader (take pos str) (status_code p, headers p)")
  case (Inl e)
  then show ?thesis by (simp add: header_found_def)
next
  case (Inr sh)
  show ?thesis
  proof (cases "select_processor (snd sh)")
    case (Inl e)
    with Inr show ?thesis by (cases sh) (simp add: header_found_def)
  next
    case (Inr d)
    note d = select_processor_ok [OF Inr]
    obtain r where r: "process (map byte_of_char (drop (pos + 4) str)) d = Some r"
      "\<forall>d'. r = Inr d' \<longrightarrow> data_ok d'"
      using process_returns [OF d] by blast
    with \<open>parseHeader _ _ = Inr sh\<close> Inr d show ?thesis
      by (cases sh; cases r) (auto simp: header_found_def processor_ok_def Let_def)
  qed
qed

lemma processData_returns:
  assumes "processor_ok p"
  shows "\<exists>r. processData data p = Some r \<and> (\<forall>b p'. r = Inr (b, p') \<longrightarrow> processor_ok p')"
proof -
  define fed where "fed =
       (if status_code p = -1 then
          let orig_len = length (header_str p);
              str = header_str p @ map char_of_byte data
          in if orig_len + length data > 3 then
               (case find_from str header_end (if orig_len < 3 then 0 else orig_len - 3) of
                  Some pos \<Rightarrow> header_found pos str p
                | None \<Rightarrow> Some (Inr (p\<lparr>header_str := str\<rparr>)))
             else Some (Inr (p\<lparr>header_str := str\<rparr>))
        else
          obind (Some (deref_processor (data_processor p))) (\<lambda>d.
          obind (process data d) (\<lambda>d'. Some (Inr (p\<lparr>data_processor := Some d'\<rparr>)))))"
  have "processor_ok (p\<lparr>header_str := x\<rparr>)" for x using assms by (simp add: processor_ok_def)
  moreover have "\<exists>r. obind (Some (deref_processor (data_processor p))) (\<lambda>d.
      obind (process data d) (\<lambda>d'. Some (Inr (p\<lparr>data_processor := Some d'\<rparr>)))) = Some r \<and>
      (\<forall>p'. r = Inr p' \<longrightarrow> processor_ok p')"
  proof (cases "data_processor p")
    case None
    then show ?thesis by (simp add: deref_processor_def)
  next
    case (Some d)
    with assms have "data_ok d" by (simp add: processor_ok_def)
    then obtain r where "process data d = Some r" "\<forall>d'. r = Inr d' \<longrightarrow> data_ok d'"
      using process_returns by blast
    with Some show ?thesis by (cases r) (auto simp: deref_processor_def processor_ok_def)
  qed
  ultimately have "\<exists>r. fed = Some r \<and> (\<forall>p'. r = Inr p' \<longrightarrow> processor_ok p')"
    using header_found_returns unfolding fed_def Let_def by (auto split: option.split)
  then obtain r where r: "fed = Some r" "\<forall>p'. r = Inr p' \<longrightarrow> processor_ok p'" by blast
  have e: "processData data p =
      obind fed (\<lambda>p'. obind (Some (deref_processor (data_processor p'))) (\<lambda>d. Some (Inr (isComplete d, p'))))"
    unfolding processData_def fed_def by (rule refl)
  show ?thesis
  proof (cases r)
    case (Inl x)
    with r e show ?thesis by simp
  next
    case (Inr p')
    with r e show ?thesis by (cases "deref_processor (data_processor p')") auto
  qed
qed

text \<open>The pieces of a response, as they arrive.\<close>

fun feed :: "byte list list \<Rightarrow> processor \<Rightarrow> processor result option" where
  "feed [] p = Some (Inr p)"
| "feed (x # xs) p = obind (processData x p) (\<lambda>(_, p'). feed xs p')"

lemma feed_append: "feed (xs @ ys) p = obind (feed xs p) (feed ys)"
proof (induction xs arbitrary: p)
  case (Cons x xs)
  show ?case
  proof (cases "processData x p")
    case (Some r)
    then show ?thesis using Cons.IH by (cases r) auto
  qed simp
qed simp

section \<open>A complete header\<close>

lemma processData_more:
  assumes "status_code p \<noteq> -1" "data_processor p = Some d" "process data d = Some (Inr d')"
  shows "processData data p = Some (Inr (isComplete d', p\<lparr>data_processor := Some d'\<rparr>))"
  using assms by (simp add: processData_def deref_processor_def)

end
