(* ===== verification/Http_Chunked.thy ===== *)
theory Http_Chunked
  imports Http_Response
begin

text \<open>
  Chunked bodies (src/src/http_replay/http_response_processor.cc): the chunked processor decodes the
  wire format of RFC 9112, for every way of splitting the body into received pieces that does not
  split a chunk-size line.
\<close>

section \<open>The wire format\<close>

text \<open>
  A chunk is the text of its size and its bytes. An atom is a stretch of the wire that one call has
  to receive as a whole: a chunk-size line, or a single byte of data or terminator.
\<close>

type_synonym chunk = "string \<times> byte list"

definition chunk_wf :: "chunk \<Rightarrow> bool" where
  "chunk_wf c \<longleftrightarrow> fst c \<noteq> [] \<and> scan_digits 16 0 (fst c) = (length (snd c), length (fst c)) \<and>
     length (snd c) < 2 ^ 31 \<and> length (fst c) + 2 \<le> TMPSIZ"

definition size_line :: "chunk \<Rightarrow> byte list" where
  "size_line c = map byte_of_char (fst c @ crlf)"

definition chunk_atoms :: "chunk \<Rightarrow> byte list list" where
  "chunk_atoms c = size_line c # map (\<lambda>b. [b]) (snd c) @ [[0x0D], [0x0A]]"

text \<open>A body: chunks with data, then one without.\<close>

definition body_wf :: "chunk list \<Rightarrow> bool" where
  "body_wf cs \<longleftrightarrow> cs \<noteq> [] \<and> (\<forall>c \<in> set cs. chunk_wf c) \<and> snd (last cs) = [] \<and>
     (\<forall>c \<in> set (butlast cs). snd c \<noteq> [])"

definition body_atoms :: "chunk list \<Rightarrow> byte list list" where
  "body_atoms cs = concat (map chunk_atoms cs)"

definition body_data :: "chunk list \<Rightarrow> byte list" where
  "body_data cs = concat (map snd cs)"

section \<open>Chunk-size lines\<close>

lemma scan_digits_all:
  "scan_digits base acc t = (v, length t) \<Longrightarrow> \<forall>c \<in> set t. digit_value base c \<noteq> None"
proof (induction t arbitrary: acc v)
  case (Cons c t)
  then show ?case by (cases "digit_value base c") (auto split: prod.splits)
qed simp

lemma hex_digit_plain:
  assumes "digit_value 16 c \<noteq> None"
  shows "c \<noteq> CHR 0x00" "\<not> isspace c" "c \<noteq> CHR ''-''" "c \<noteq> CHR ''+''" "c \<noteq> CHR 0x0D"
proof -
  have "digit_value 16 (CHR 0x00) = None" "digit_value 16 (CHR ''-'') = None" "digit_value 16 (CHR ''+'') = None"
    "digit_value 16 (CHR 0x0D) = None"
    by code_simp+
  with assms show "c \<noteq> CHR 0x00" "c \<noteq> CHR ''-''" "c \<noteq> CHR ''+''" "c \<noteq> CHR 0x0D" by auto
  have "48 \<le> (of_char c :: nat)" using assms by (auto simp: digit_value_def Let_def split: if_splits)
  then show "\<not> isspace c" by (simp add: isspace_def)
qed

lemma strtoul_size_line:
  assumes "t \<noteq> []" "scan_digits 16 0 t = (n, length t)" "n < 2 ^ 31"
  shows "strtoul 16 (t @ crlf @ x) = (n, length t)"
proof -
  note digits = scan_digits_all [OF assms(2)]
  obtain c u where t: "t = c # u" using assms(1) by (cases t) auto
  have c: "\<not> isspace c" "c \<noteq> CHR ''-''" "c \<noteq> CHR ''+''"
    using digits t hex_digit_plain by auto
  have xs: "digit_value 16 (CHR ''x'') = None" "digit_value 16 (CHR ''X'') = None"
    "digit_value 16 (CHR 0x0D) = None" by code_simp+
  have "\<not> hex_prefix (t @ crlf @ x)"
    using digits t xs by (cases u) (auto simp: hex_prefix_def split: list.splits)
  moreover have "scan_digits 16 0 (t @ crlf @ x) = scan_digits 16 0 t"
    using digits xs by (intro scan_digits_stop) auto
  ultimately have "scan_number 16 (t @ crlf @ x) = Some (False, n, length t)"
    using c t assms(2) by (simp add: scan_number_def Let_def)
  moreover have "n \<le> ULONG_MAX" using assms(3) by (simp add: ULONG_MAX_def)
  ultimately show ?thesis by (simp add: strtoul_def ulong_value_def)
qed

lemma size_step_line:
  assumes "chunk_wf c" "tmp_buf s = []" "drop i data = size_line c @ r"
  shows "\<exists>buf. size_step data i s =
    Inr (Continue, i + length (size_line c), s\<lparr>tmp_buf := buf, chunk_size := int (length (snd c))\<rparr>)"
proof -
  let ?n = "min (length data - i) TMPSIZ"
  define buf where "buf = map char_of_byte (take ?n (drop i data))"
  have len: "length (drop i data) = length (fst c) + 2 + length r"
    unfolding assms(3) by (simp add: size_line_def)
  then have n: "length (fst c) + 2 \<le> ?n" using assms(1) by (simp add: chunk_wf_def)
  then have "length (size_line c) \<le> ?n" by (simp add: size_line_def)
  then obtain x where x: "take ?n (drop i data) = size_line c @ x"
    unfolding assms(3) by (simp only: take_append take_all)
  then have buf: "buf = fst c @ crlf @ map char_of_byte x"
    by (simp add: buf_def size_line_def comp_def)
  have "CHR 0x00 \<notin> set (fst c)"
    using assms(1) scan_digits_all hex_digit_plain(1) unfolding chunk_wf_def by blast
  then have str: "c_string buf = fst c @ crlf @ c_string (map char_of_byte x)"
    unfolding buf c_string_def by (subst takeWhile_append2) auto
  have "sublist crlf (c_string buf)" unfolding str by (rule sublist_appendI)
  moreover have "strtoul 16 (c_string buf) = (length (snd c), length (fst c))"
    unfolding str using assms(1) by (intro strtoul_size_line) (simp_all add: chunk_wf_def)
  moreover have "length (fst c) \<noteq> 0" using assms(1) by (simp add: chunk_wf_def)
  moreover have "int_of_ulong (length (snd c)) = int (length (snd c))"
    using assms(1) by (intro int_of_ulong_small) (simp add: chunk_wf_def)
  moreover have "length (size_line c) = length (fst c) + 2" by (simp add: size_line_def)
  ultimately have "size_step data i s =
      Inr (Continue, i + length (size_line c), s\<lparr>tmp_buf := buf, chunk_size := int (length (snd c))\<rparr>)"
    using assms(2) unfolding size_step_def Let_def by (simp add: buf_def)
  then show ?thesis by blast
qed

section \<open>Positions in a body\<close>

datatype position = At_size | In_data "byte list" | At_lf

text \<open>What the state says at a position; \<open>cs\<close> are the chunks behind the current one.\<close>

fun at_position :: "position \<Rightarrow> chunk list \<Rightarrow> chunked \<Rightarrow> bool" where
  "at_position At_size cs s \<longleftrightarrow>
     chunk_size s = -1 \<and> chunk_read s = 0 \<and> chunk_end_char_count s = 0 \<and> tmp_buf s = [] \<and> cs \<noteq> [] \<and>
     \<not> chunks_complete s"
| "at_position (In_data r) cs s \<longleftrightarrow>
     0 \<le> chunk_size s \<and> chunk_read s = chunk_size s - int (length r) \<and> chunk_end_char_count s = 0 \<and>
     (chunk_size s = 0 \<longleftrightarrow> cs = []) \<and> \<not> chunks_complete s"
| "at_position At_lf cs s \<longleftrightarrow>
     0 \<le> chunk_size s \<and> chunk_read s = chunk_size s \<and> chunk_end_char_count s = 1 \<and>
     (chunk_size s = 0 \<longleftrightarrow> cs = []) \<and> \<not> chunks_complete s"

fun atoms_from :: "position \<Rightarrow> chunk list \<Rightarrow> byte list list" where
  "atoms_from At_size cs = body_atoms cs"
| "atoms_from (In_data r) cs = map (\<lambda>b. [b]) r @ [[0x0D], [0x0A]] @ body_atoms cs"
| "atoms_from At_lf cs = [0x0A] # body_atoms cs"

fun data_from :: "position \<Rightarrow> chunk list \<Rightarrow> byte list" where
  "data_from (In_data r) cs = r @ body_data cs"
| "data_from _ cs = body_data cs"

definition rest_wf :: "chunk list \<Rightarrow> bool" where
  "rest_wf cs \<longleftrightarrow> cs = [] \<or> body_wf cs"

lemma rest_wf_Cons: "body_wf (c # cs) \<Longrightarrow> chunk_wf c \<and> rest_wf cs \<and> (snd c = [] \<longleftrightarrow> cs = [])"
  by (cases cs) (auto simp: rest_wf_def body_wf_def)

text \<open>One step from a position, with at least one atom in the data.\<close>

definition advanced ::
  "byte list \<Rightarrow> nat \<Rightarrow> chunked \<Rightarrow> byte list list \<Rightarrow> byte list list \<Rightarrow> byte list \<Rightarrow>
     (step \<times> nat \<times> chunked) result \<Rightarrow> bool" where
  "advanced data i s as later whole r \<longleftrightarrow>
     (\<exists>i' s'. r = Inr (Return True, i', s') \<and> as = [] \<and> later = [] \<and> chunks_complete s' \<and> chunk_data s' = whole) \<or>
     (\<exists>i' s' pos cs as'. r = Inr (Continue, i', s') \<and> length as' \<le> length as \<and> i < i' \<and>
        drop i' data = concat as' \<and> atoms_from pos cs = as' @ later \<and> at_position pos cs s' \<and>
        rest_wf cs \<and> chunk_data s' @ data_from pos cs = whole)"

lemma step_at_size:
  assumes "at_position At_size cs s" "rest_wf cs" "atoms_from At_size cs = (a # as) @ later"
    and "drop i data = concat (a # as)" "whole = chunk_data s @ data_from At_size cs"
  shows "advanced data i s as later whole (chunked_step data i s)"
proof -
  obtain c cs' where cs: "cs = c # cs'" using assms(1) by (cases cs) auto
  have wf: "chunk_wf c" "rest_wf cs'" "snd c = [] \<longleftrightarrow> cs' = []"
    using assms(2) cs rest_wf_Cons by (auto simp: rest_wf_def)
  have a: "a = size_line c" "as @ later = atoms_from (In_data (snd c)) cs'"
    using assms(3) cs by (auto simp: body_atoms_def chunk_atoms_def)
  obtain buf where st: "size_step data i s =
      Inr (Continue, i + length (size_line c), s\<lparr>tmp_buf := buf, chunk_size := int (length (snd c))\<rparr>)"
    using size_step_line [OF wf(1), of s i data "concat as"] assms(1,4) a by auto
  let ?s = "s\<lparr>tmp_buf := buf, chunk_size := int (length (snd c))\<rparr>"
  have "drop (i + length a) data = concat as"
    using assms(4) by (metis append_eq_conv_conj concat.simps(2) drop_drop add.commute)
  moreover have "0 < length a" by (simp add: a size_line_def)
  moreover have "at_position (In_data (snd c)) cs' ?s" using assms(1) wf(3) by simp
  moreover have "chunk_data ?s @ data_from (In_data (snd c)) cs' = whole"
    using assms(5) cs by (simp add: body_data_def)
  moreover have "chunked_step data i s = size_step data i s" using assms(1) by (simp add: chunked_step_def)
  ultimately show ?thesis
    unfolding advanced_def using st a wf(2) by (metis le_refl less_add_same_cancel1)
qed

lemma step_at_lf:
  assumes "at_position At_lf cs s" "rest_wf cs" "atoms_from At_lf cs = (a # as) @ later"
    and "drop i data = concat (a # as)" "whole = chunk_data s @ data_from At_lf cs"
  shows "advanced data i s as later whole (chunked_step data i s)"
proof -
  have a: "a = [0x0A]" "body_atoms cs = as @ later" using assms(3) by auto
  then have d: "drop i data = 0x0A # concat as" using assms(4) by simp
  then have i: "data ! i = 0x0A" "drop (i + 1) data = concat as"
    by (metis nth_via_drop, metis drop_drop drop_Suc_Cons drop0 One_nat_def add.commute)
  have step: "chunked_step data i s = end_step data i s" using assms(1) by (simp add: chunked_step_def)
  show ?thesis
  proof (cases "cs = []")
    case True
    then have "as = []" "later = []" using a(2) by (simp_all add: body_atoms_def)
    then show ?thesis
      using True assms(1,5) i step by (simp add: advanced_def end_step_def body_data_def)
  next
    case False
    let ?s = "s\<lparr>chunk_size := -1, chunk_read := 0, tmp_buf := [], chunk_end_char_count := 0\<rparr>"
    have "end_step data i s = Inr (Continue, i + 1, ?s)"
      using False assms(1) i by (simp add: end_step_def)
    moreover have "at_position At_size cs ?s" using False assms(1) by simp
    ultimately show ?thesis
      unfolding advanced_def step using assms(2,5) i a(2)
      by (intro disjI2 exI [of _ "i + 1"] exI [of _ ?s] exI [of _ At_size] exI [of _ cs] exI [of _ as]) simp
  qed
qed

lemma step_at_cr:
  assumes "at_position (In_data []) cs s" "rest_wf cs" "atoms_from (In_data []) cs = (a # as) @ later"
    and "drop i data = concat (a # as)" "whole = chunk_data s @ data_from (In_data []) cs"
  shows "advanced data i s as later whole (chunked_step data i s)"
proof -
  have a: "a = [0x0D]" "atoms_from At_lf cs = as @ later" using assms(3) by auto
  then have d: "drop i data = 0x0D # concat as" using assms(4) by simp
  then have i: "data ! i = 0x0D" "drop (i + 1) data = concat as"
    by (metis nth_via_drop, metis drop_drop drop_Suc_Cons drop0 One_nat_def add.commute)
  let ?s = "s\<lparr>chunk_end_char_count := 1\<rparr>"
  have "chunked_step data i s = Inr (Continue, i + 1, ?s)"
    using assms(1) i by (simp add: chunked_step_def end_step_def)
  moreover have "at_position At_lf cs ?s" using assms(1) by simp
  ultimately show ?thesis
    unfolding advanced_def using assms(2,5) i a(2)
    by (intro disjI2 exI [of _ "i + 1"] exI [of _ ?s] exI [of _ At_lf] exI [of _ cs] exI [of _ as]) simp
qed

lemma concat_singletons: "concat (map (\<lambda>b. [b]) xs) = xs"
  by (induction xs) simp_all

lemma step_in_data:
  assumes "at_position (In_data r) cs s" "rest_wf cs" "atoms_from (In_data r) cs = (a # as) @ later"
    and "drop i data = concat (a # as)" "whole = chunk_data s @ data_from (In_data r) cs" "r \<noteq> []"
  shows "advanced data i s as later whole (chunked_step data i s)"
proof -
  define tl where "tl = [[0x0D], [0x0A]] @ body_atoms cs"
  define k where "k = min (Suc (length as)) (length r)"
  have at: "map (\<lambda>b. [b]) r @ tl = (a # as) @ later" using assms(3) by (simp add: tl_def)
  have "take k (map (\<lambda>b. [b]) r @ tl) = take k ((a # as) @ later)" using at by simp
  moreover have "take k ((a # as) @ later) = take k (a # as)"
    unfolding take_append by (simp add: k_def)
  moreover have "take k (map (\<lambda>b. [b]) r @ tl) = map (\<lambda>b. [b]) (take k r)"
    unfolding take_append by (simp add: k_def take_map)
  ultimately have tk: "map (\<lambda>b. [b]) (take k r) = take k (a # as)" by (simp only:)
  have "drop k (map (\<lambda>b. [b]) r @ tl) = drop k ((a # as) @ later)" using at by simp
  moreover have "drop k ((a # as) @ later) = drop k (a # as) @ later"
    unfolding drop_append by (simp add: k_def)
  ultimately have dk: "atoms_from (In_data (drop k r)) cs = drop k (a # as) @ later"
    by (simp add: k_def tl_def drop_map)
  have split: "drop i data = take k r @ concat (drop k (a # as))"
    using assms(4) tk concat_singletons [of "take k r"] by (metis append_take_drop_id concat_append)
  have k: "0 < k" "k \<le> length r" "k \<le> Suc (length as)" using assms(6) by (simp_all add: k_def)
  have copy: "min (length (drop i data)) (length r) = k"
  proof (cases "length r \<le> Suc (length as)")
    case True
    then show ?thesis unfolding split by (simp add: k_def)
  next
    case False
    then have "drop k (a # as) = []" by (simp add: k_def)
    then show ?thesis unfolding split using False by (simp add: k_def)
  qed
  have lt: "chunk_size s - chunk_read s = int (length r)" "\<not> chunk_size s < 0" "chunk_read s \<noteq> chunk_size s"
    using assms(1,6) by auto
  let ?s = "s\<lparr>chunk_data := chunk_data s @ take k r, chunk_read := chunk_read s + int k\<rparr>"
  have n: "min (int (length data - i)) (chunk_size s - chunk_read s) = int k"
    unfolding lt(1) using copy by simp
  have "take k (drop i data) = take k r" unfolding split using k by simp
  then have "chunked_step data i s = Inr (Continue, i + k, ?s)"
    using lt(2,3) unfolding chunked_step_def data_step_def n Let_def by simp
  moreover have "at_position (In_data (drop k r)) cs ?s" using assms(1) k by auto
  moreover have "drop (i + k) data = concat (drop k (a # as))"
    using split k(2) by (metis add.commute append_eq_conv_conj drop_drop length_take min.absorb2)
  moreover have "chunk_data ?s @ data_from (In_data (drop k r)) cs = whole" using assms(5) by simp
  moreover have "length (drop k (a # as)) \<le> length as" using k by simp
  ultimately show ?thesis
    unfolding advanced_def using assms(2) dk k(1)
    by (intro disjI2 exI [of _ "i + k"] exI [of _ ?s] exI [of _ "In_data (drop k r)"] exI [of _ cs]
        exI [of _ "drop k (a # as)"]) simp
qed

lemma step_advances:
  assumes "at_position pos cs s" "rest_wf cs" "atoms_from pos cs = (a # as) @ later"
    and "drop i data = concat (a # as)" "whole = chunk_data s @ data_from pos cs"
  shows "advanced data i s as later whole (chunked_step data i s)"
proof (cases pos)
  case At_size
  show ?thesis by (rule step_at_size [OF assms [unfolded At_size]])
next
  case (In_data r)
  show ?thesis
  proof (cases "r = []")
    case True
    show ?thesis by (rule step_at_cr [OF assms [unfolded In_data True]])
  next
    case False
    show ?thesis by (rule step_in_data [OF assms [unfolded In_data] False])
  qed
next
  case At_lf
  show ?thesis by (rule step_at_lf [OF assms [unfolded At_lf]])
qed

section \<open>Pieces\<close>

lemma atoms_not_empty: "a \<in> set (atoms_from pos cs) \<Longrightarrow> a \<noteq> []"
  by (cases pos) (auto simp: body_atoms_def chunk_atoms_def size_line_def)

text \<open>A piece of whole atoms: the rest is still to come, or the body is complete.\<close>

definition received :: "byte list list \<Rightarrow> byte list \<Rightarrow> chunked \<Rightarrow> bool" where
  "received later whole s \<longleftrightarrow>
     (if later = [] then chunks_complete s \<and> chunk_data s = whole
      else \<exists>pos cs. at_position pos cs s \<and> rest_wf cs \<and> atoms_from pos cs = later \<and>
             whole = chunk_data s @ data_from pos cs)"

lemma atoms_from_not_Nil: "at_position pos cs s \<Longrightarrow> atoms_from pos cs \<noteq> []"
  by (cases pos; cases cs) (auto simp: body_atoms_def chunk_atoms_def)

lemma loop_piece:
  assumes "at_position pos cs s" "rest_wf cs" "atoms_from pos cs = as @ later"
    and "drop i data = concat as" "whole = chunk_data s @ data_from pos cs"
  shows "\<exists>b s'. chunked_loop data i s = Some (Inr (b, s')) \<and> received later whole s'"
  using assms
proof (induction "length as" arbitrary: pos cs s as i rule: less_induct)
  case less
  show ?case
  proof (cases as)
    case Nil
    then have "length data \<le> i" using less.prems(4) by simp
    moreover have "later \<noteq> []" using atoms_from_not_Nil [OF less.prems(1)] less.prems(3) Nil by simp
    then have "received later whole s"
      using less.prems(1,2,3,5) Nil by (auto simp: received_def)
    ultimately show ?thesis by (intro exI [of _ False] exI [of _ s]) (simp add: chunked_loop.simps [of data i s])
  next
    case (Cons a bs)
    have "a \<noteq> []" using atoms_not_empty [of a pos cs] less.prems(3) Cons by simp
    then have "\<not> length data \<le> i" using less.prems(4) Cons by auto
    note loop = chunked_loop.simps [of data i s]
    have "advanced data i s bs later whole (chunked_step data i s)"
      using less.prems Cons by (intro step_advances [where pos = pos and cs = cs]) simp_all
    then show ?thesis
      unfolding advanced_def
    proof (elim disjE exE conjE)
      fix i' s'
      assume "chunked_step data i s = Inr (Return True, i', s')" "later = []" "chunks_complete s'" "chunk_data s' = whole"
      with loop \<open>\<not> length data \<le> i\<close> show ?thesis
        by (intro exI [of _ True] exI [of _ s']) (simp add: received_def)
    next
      fix i' s' pos' cs' as'
      assume n: "chunked_step data i s = Inr (Continue, i', s')" "length as' \<le> length bs" "i < i'"
        "drop i' data = concat as'" "atoms_from pos' cs' = as' @ later" "at_position pos' cs' s'"
        "rest_wf cs'" "chunk_data s' @ data_from pos' cs' = whole"
      have "length as' < length as" using n(2) Cons by simp
      from less.hyps [OF this n(6,7,5,4) n(8) [symmetric]]
      show ?thesis using loop n(1) \<open>\<not> length data \<le> i\<close> by simp
    qed
  qed
qed

text \<open>The processor is complete exactly at the end of the body.\<close>

lemma at_position_incomplete: "at_position pos cs s \<Longrightarrow> \<not> chunks_complete s"
  by (cases pos) simp_all

lemma received_complete: "received later whole s \<Longrightarrow> chunks_complete s \<longleftrightarrow> later = []"
  using at_position_incomplete by (auto simp: received_def split: if_splits)

lemma chunked_process_Nil [simp]: "chunked_process [] s = Some (Inr (False, s))"
  by (simp add: chunked_process_def chunked_loop.simps)

lemma process_piece:
  assumes "received (g @ later) whole s"
  shows "\<exists>s'. process (concat g) (Chunks s) = Some (Inr (Chunks s')) \<and> received later whole s'"
proof (cases "g @ later = []")
  case True
  with assms show ?thesis by simp
next
  case False
  with assms obtain pos cs where pos: "at_position pos cs s" "rest_wf cs" "atoms_from pos cs = g @ later"
    "whole = chunk_data s @ data_from pos cs"
    by (auto simp: received_def)
  obtain b s' where "chunked_loop (concat g) 0 s = Some (Inr (b, s'))" "received later whole s'"
    using loop_piece [OF pos(1,2,3), of 0 "concat g"] pos(4) by auto
  then show ?thesis by (simp add: chunked_process_def)
qed

lemma feed_pieces:
  "received (concat gs) whole s \<Longrightarrow> status_code p \<noteq> -1 \<Longrightarrow> data_processor p = Some (Chunks s) \<Longrightarrow>
    \<exists>s'. feed (map concat gs) p = Some (Inr (p\<lparr>data_processor := Some (Chunks s')\<rparr>)) \<and> received [] whole s'"
proof (induction gs arbitrary: p s)
  case Nil
  then have "p\<lparr>data_processor := Some (Chunks s)\<rparr> = p" by simp
  with Nil show ?case by (metis concat.simps(1) feed.simps(1) list.simps(8))
next
  case (Cons g gs)
  obtain s1 where s1: "process (concat g) (Chunks s) = Some (Inr (Chunks s1))" "received (concat gs) whole s1"
    using process_piece [of g "concat gs" whole s] Cons.prems(1) by auto
  note step = processData_more [OF Cons.prems(2,3) s1(1)]
  have "status_code (p\<lparr>data_processor := Some (Chunks s1)\<rparr>) \<noteq> -1" using Cons.prems(2) by simp
  from Cons.IH [OF s1(2) this] step show ?case by simp
qed

lemma received_new: "body_wf cs \<Longrightarrow> received (body_atoms cs) (body_data cs) ChunkedProcessor"
proof -
  assume wf: "body_wf cs"
  then have "at_position At_size cs ChunkedProcessor" by (simp add: ChunkedProcessor_def body_wf_def)
  moreover from atoms_from_not_Nil [OF this] have "body_atoms cs \<noteq> []" by simp
  moreover have "chunk_data ChunkedProcessor = []" by (simp add: ChunkedProcessor_def)
  ultimately show ?thesis
    using wf by (auto simp: received_def rest_wf_def intro!: exI [of _ At_size] exI [of _ cs])
qed

end
