(* ===== verification/Http_Properties.thy ===== *)
theory Http_Properties
  imports Http_Chunked
begin

text \<open>
  What the response processor (src/src/http_replay/http_response_processor.cc) makes of a whole
  response: the header text, the choice of the data processor, the body in pieces, and the inputs on
  which it fails.
\<close>

section \<open>Finding the end of the header\<close>

lemma find_at_first:
  "p \<noteq> [] \<Longrightarrow> \<not> sublist p (butlast (xs @ p)) \<Longrightarrow> find_at p (xs @ p @ r) i = Some (i + length xs)"
proof (induction xs arbitrary: i)
  case Nil
  then show ?case by (simp add: find_at_here)
next
  case (Cons x xs)
  have "\<not> prefix p (x # xs @ p @ r)"
  proof
    assume "prefix p (x # xs @ p @ r)"
    moreover have "prefix (butlast (x # xs @ p)) (x # xs @ p @ r)"
      by (metis append.assoc append_Cons butlast_append prefixI Cons.prems(1) prefix_order.trans prefixeq_butlast)
    ultimately have "prefix p (butlast (x # xs @ p))"
      by (rule prefix_length_prefix) simp
    then show False using Cons.prems(2) by (simp add: prefix_imp_sublist)
  qed
  moreover have "\<not> sublist p (butlast (xs @ p))"
    using Cons.prems by (metis append_Cons append_is_Nil_conv butlast.simps(2) sublist_Cons_right)
  ultimately show ?case using Cons.IH Cons.prems(1) by simp
qed

lemma find_at_none: "p \<noteq> [] \<Longrightarrow> \<not> sublist p xs \<Longrightarrow> find_at p xs i = None"
proof (induction xs arbitrary: i)
  case (Cons x xs)
  then have "\<not> prefix p (x # xs)" by (meson prefix_imp_sublist)
  with Cons show ?case by (simp add: sublist_Cons_right)
qed simp

section \<open>A header that arrives with the first piece\<close>

text \<open>A processor that waits for a response.\<close>

definition waiting :: "processor \<Rightarrow> bool" where
  "waiting p \<longleftrightarrow> status_code p = -1 \<and> header_str p = [] \<and> data_processor p = None"

lemma waiting_reset [simp]: "waiting (reset p)" "waiting new_processor"
  by (simp_all add: waiting_def reset_def new_processor_def)

definition header_bytes :: "string \<Rightarrow> byte list" where
  "header_bytes hdr = map byte_of_char (hdr @ header_end)"

definition one_header :: "string \<Rightarrow> bool" where
  "one_header hdr \<longleftrightarrow> \<not> sublist header_end (butlast (hdr @ header_end))"

lemma header_end_simps [simp]: "length header_end = 4" "header_end \<noteq> []"
  by (simp_all add: header_end_def)

lemma process_Nil:
  "select_processor hs = Inr d \<Longrightarrow> process [] d = Some (Inr d)"
  by (auto simp: select_processor_def ContentLenProcessor_def content_process_def Let_def result_simps
      split: if_splits option.splits)

lemma processData_header:
  assumes "waiting p" "one_header hdr" "parseHeader hdr (-1, headers p) = Inr (status, hs)"
    and "select_processor hs = Inr d" "process body d = Some (Inr d')"
  shows "processData (header_bytes hdr @ body) p =
    Some (Inr (isComplete d', \<lparr>header_str = hdr @ header_end, headers = hs, status_code = status,
      data_processor = Some d'\<rparr>))"
proof -
  have p: "status_code p = -1" "header_str p = []" using assms(1) by (simp_all add: waiting_def)
  let ?b = "map char_of_byte body"
  have str: "header_str p @ map char_of_byte (header_bytes hdr @ body) = hdr @ header_end @ ?b"
    by (simp add: header_bytes_def p comp_def)
  have long: "length (header_bytes hdr @ body) > 3" by (simp add: header_bytes_def)
  have find: "find_from (hdr @ header_end @ ?b) header_end 0 = Some (length hdr)"
    using find_at_first [of header_end hdr ?b 0] assms(2) by (simp add: find_from_def one_header_def)
  have body: "map byte_of_char (drop (length hdr + 4) (hdr @ header_end @ ?b)) = body"
    "take (length hdr + 4) (hdr @ header_end @ ?b) = hdr @ header_end"
    by (simp_all add: comp_def)
  have "header_found (length hdr) (hdr @ header_end @ ?b) p =
      Some (Inr (p\<lparr>header_str := hdr @ header_end, headers := hs, status_code := status,
        data_processor := Some d'\<rparr>))"
  proof (cases "body = []")
    case True
    then have "d' = d" using assms(5) process_Nil [OF assms(4)] by simp
    then show ?thesis using True assms(3,4) p by (simp add: header_found_def Let_def)
  next
    case False
    then have "length hdr + 4 < length (hdr @ header_end @ ?b)" by simp
    then show ?thesis using assms(3,4,5) p body by (simp add: header_found_def Let_def)
  qed
  then have "processData (header_bytes hdr @ body) p =
      Some (Inr (isComplete d', p\<lparr>header_str := hdr @ header_end, headers := hs, status_code := status,
        data_processor := Some d'\<rparr>))"
    unfolding processData_def str Let_def using p long find by (simp add: deref_processor_def)
  then show ?thesis by (cases p) simp
qed

lemma processData_header_error:
  assumes "waiting p" "one_header hdr" "parseHeader hdr (-1, headers p) = Inr (status, hs)"
    and "select_processor hs = Inr d" "process body d = Some (Inl e)" "body \<noteq> []"
  shows "processData (header_bytes hdr @ body) p = Some (Inl e)"
proof -
  have p: "status_code p = -1" "header_str p = []" using assms(1) by (simp_all add: waiting_def)
  let ?b = "map char_of_byte body"
  have str: "header_str p @ map char_of_byte (header_bytes hdr @ body) = hdr @ header_end @ ?b"
    by (simp add: header_bytes_def p comp_def)
  have long: "length (header_bytes hdr @ body) > 3" by (simp add: header_bytes_def)
  have find: "find_from (hdr @ header_end @ ?b) header_end 0 = Some (length hdr)"
    using find_at_first [of header_end hdr ?b 0] assms(2) by (simp add: find_from_def one_header_def)
  have "length hdr + 4 < length (hdr @ header_end @ ?b)" using assms(6) by simp
  then have "header_found (length hdr) (hdr @ header_end @ ?b) p = Some (Inl e)"
    using assms(3,4,5) p by (simp add: header_found_def comp_def)
  then show ?thesis
    unfolding processData_def str Let_def using p long find by simp
qed

section \<open>The text of a header\<close>

definition header_text :: "string \<Rightarrow> (string \<times> string) list \<Rightarrow> string" where
  "header_text line hs = line @ concat (map (\<lambda>(k, v). crlf @ k @ '': '' @ v) hs)"

definition field_ok :: "string \<times> string \<Rightarrow> bool" where
  "field_ok f \<longleftrightarrow> trimmed (fst f) \<and> trimmed (snd f) \<and> CHR '':'' \<notin> set (fst f) \<and>
     CHR 0x0A \<notin> set (fst f) \<and> CHR 0x0A \<notin> set (snd f) \<and> CHR 0x0D \<notin> set (snd f)"

lemma getline_open_found:
  "d \<notin> set l \<Longrightarrow> getline d (open_stream (l @ d # r)) = (True, l, open_stream r)"
  using getline_line [of "open_stream (l @ d # r)" d l r] by (simp add: open_stream_def)

lemma getline_open_last:
  "d \<notin> set l \<Longrightarrow> l \<noteq> [] \<Longrightarrow> \<exists>st. getline d (open_stream l) = (True, l, st) \<and> eofbit st \<and> rest st = []"
  using getline_last [of "open_stream l" d l] by simp

lemma header_entry_field:
  assumes "field_ok (k, v)" "e = [] \<or> e = [CHR 0x0D]"
  shows "header_entry (k @ '': '' @ v @ e) = (toLower k, v)"
proof -
  have key: "getline (CHR '':'') (open_stream (k @ '': '' @ v @ e)) = (True, k, open_stream ('' '' @ v @ e))"
    using assms(1) getline_open_found [of "CHR '':''" k "'' '' @ v @ e"] by (simp add: field_ok_def)
  have nr: "CHR 0x0D \<notin> set ('' '' @ v)" using assms(1) by (simp add: field_ok_def)
  have "\<exists>ok st. getline (CHR 0x0D) (open_stream ('' '' @ v @ e)) = (ok, '' '' @ v, st)"
    using assms(2)
  proof
    assume "e = []"
    then show ?thesis using getline_open_last [OF nr] by auto
  next
    assume "e = [CHR 0x0D]"
    then show ?thesis using getline_open_found [OF nr, of "[]"] by auto
  qed
  then obtain ok st where "getline (CHR 0x0D) (open_stream ('' '' @ v @ e)) = (ok, '' '' @ v, st)" by blast
  moreover have "trim ('' '' @ v) = v" using assms(1) by (simp add: field_ok_def trim_space_append)
  ultimately show ?thesis using key assms(1) by (simp add: header_entry_def field_ok_def)
qed

definition put_fields :: "(string \<times> string) list \<Rightarrow> (string \<times> string) list \<Rightarrow> (string \<times> string) list" where
  "put_fields fs hs = fold (\<lambda>(k, v). map_put (toLower k) v) fs hs"

lemma header_lines_fields:
  "\<forall>f \<in> set fs. field_ok f \<Longrightarrow> fs \<noteq> [] \<Longrightarrow>
    header_lines (open_stream (drop 2 (concat (map (\<lambda>(k, v). crlf @ k @ '': '' @ v) fs)))) hs = put_fields fs hs"
proof (induction fs arbitrary: hs)
  case Nil
  then show ?case by simp
next
  case (Cons f fs)
  obtain k v where f: "f = (k, v)" by (cases f)
  with Cons.prems have ok: "field_ok (k, v)" by simp
  then have nl: "CHR 0x0A \<notin> set (k @ '': '' @ v)" "CHR 0x0A \<notin> set (k @ '': '' @ v @ [CHR 0x0D])"
    by (simp_all add: field_ok_def)
  show ?case
  proof (cases fs)
    case Nil
    obtain st where st: "getline (CHR 0x0A) (open_stream (k @ '': '' @ v)) = (True, k @ '': '' @ v, st)" "eofbit st"
      using getline_open_last [OF nl(1)] by auto
    have "header_lines st x = x" for x
      using st(2) by (simp add: header_lines.simps [of st])
    then show ?thesis
      using Nil f st header_entry_field [OF ok, of "[]"]
      by (simp add: header_lines.simps [of "open_stream _"] put_fields_def)
  next
    case (Cons g gs)
    let ?r = "drop 2 (concat (map (\<lambda>(k, v). crlf @ k @ '': '' @ v) fs))"
    have str: "drop 2 (concat (map (\<lambda>(k, v). crlf @ k @ '': '' @ v) (f # fs))) =
        (k @ '': '' @ v @ [CHR 0x0D]) @ CHR 0x0A # ?r"
      using Cons f by (cases g) simp
    have "header_lines (open_stream ((k @ '': '' @ v @ [CHR 0x0D]) @ CHR 0x0A # ?r)) hs =
        header_lines (open_stream ?r) (map_put (toLower k) v hs)"
      using getline_open_found [OF nl(2), of ?r] header_entry_field [OF ok, of "[CHR 0x0D]"]
      by (subst header_lines.simps) simp
    then show ?thesis
      using Cons.IH [of "map_put (toLower k) v hs"] Cons.prems \<open>fs = g # gs\<close> f
      unfolding str by (simp add: put_fields_def)
  qed
qed

text \<open>The status line: version, code and reason, separated by single spaces.\<close>

definition status_line :: "string \<Rightarrow> nat \<Rightarrow> string \<Rightarrow> string" where
  "status_line version code reason = version @ '' '' @ to_string code @ '' '' @ reason"

lemma status_of_line:
  assumes "CHR '' '' \<notin> set version" "code < 2 ^ 31"
  shows "status_of (status_line version code reason @ e) old = Inr (int code)"
proof -
  have "CHR '' '' \<notin> set (to_string code)"
    using to_string_digits [of code] by (auto simp: is_digit_iff)
  then have "getline (CHR '' '') (open_stream (to_string code @ '' '' @ reason @ e)) =
      (True, to_string code, open_stream (reason @ e))"
    using getline_open_found [of "CHR '' ''" "to_string code" "reason @ e"] by simp
  moreover have "getline (CHR '' '') (open_stream (status_line version code reason @ e)) =
      (True, version, open_stream (to_string code @ '' '' @ reason @ e))"
    using assms(1) getline_open_found [of "CHR '' ''" version "to_string code @ '' '' @ reason @ e"]
    by (simp add: status_line_def)
  moreover have "code \<le> ULONG_MAX" using assms(2) by (simp add: ULONG_MAX_def)
  ultimately show ?thesis
    using int_of_ulong_small [OF assms(2)] by (simp add: status_of_def)
qed

lemma parse_header:
  assumes "CHR '' '' \<notin> set version" "code < 2 ^ 31" "\<forall>f \<in> set fs. field_ok f"
    and "CHR 0x0A \<notin> set version" "CHR 0x0A \<notin> set reason"
  shows "parseHeader (header_text (status_line version code reason) fs) (old, hs) =
    Inr (int code, put_fields fs hs)"
proof -
  let ?l = "status_line version code reason"
  have "CHR 0x0A \<notin> set (to_string code)"
    using to_string_digits [of code] by (auto simp: is_digit_iff)
  then have nl: "CHR 0x0A \<notin> set (?l @ [CHR 0x0D])" "CHR 0x0A \<notin> set ?l" "?l \<noteq> []"
    using assms(4,5) by (auto simp: status_line_def)
  show ?thesis
  proof (cases "fs = []")
    case True
    obtain st where "getline (CHR 0x0A) (open_stream ?l) = (True, ?l, st)" "eofbit st"
      using getline_open_last [OF nl(2,3)] by auto
    then show ?thesis
      using True status_of_line [OF assms(1,2), of reason "[]"]
      by (simp add: parseHeader_def header_text_def put_fields_def header_lines.simps [of st])
  next
    case False
    let ?r = "drop 2 (concat (map (\<lambda>(k, v). crlf @ k @ '': '' @ v) fs))"
    have "header_text ?l fs = (?l @ [CHR 0x0D]) @ CHR 0x0A # ?r"
      using False by (cases fs) (auto simp: header_text_def)
    moreover have "getline (CHR 0x0A) (open_stream ((?l @ [CHR 0x0D]) @ CHR 0x0A # ?r)) =
        (True, ?l @ [CHR 0x0D], open_stream ?r)"
      by (rule getline_open_found [OF nl(1)])
    ultimately show ?thesis
      using status_of_line [OF assms(1,2), of reason "[CHR 0x0D]"] header_lines_fields [OF assms(3) False, of hs]
      by (simp add: parseHeader_def)
  qed
qed

section \<open>Bodies with a content length\<close>

text \<open>The first bytes of the body are in the buffer, the rest is not yet written.\<close>

definition content_holds :: "byte list \<Rightarrow> byte list \<Rightarrow> content_len \<Rightarrow> bool" where
  "content_holds done todo p \<longleftrightarrow>
     payload p = map Some done @ replicate (length todo) None \<and>
     payload_size p = int (length done + length todo) \<and> payload_read p = int (length done)"

lemma content_piece:
  assumes "content_holds done (x @ todo) p"
  shows "\<exists>p'. content_process x p = Inr p' \<and> content_holds (done @ x) todo p'"
  using assms by (auto simp: content_holds_def content_process_def Let_def replicate_add)

lemma content_new:
  assumes "map_of hs ''content-length'' = Some (to_string (length body))" "length body < 2 ^ 31"
  shows "\<exists>p. select_processor hs = Inr (Content p) \<and> content_holds [] body p"
proof -
  have "length body \<le> ULONG_MAX" using assms(2) by (simp add: ULONG_MAX_def)
  then show ?thesis
    using assms int_of_ulong_small [OF assms(2)]
    by (simp add: select_processor_def map_contains_def ContentLenProcessor_def content_holds_def Let_def)
qed

lemma feed_content:
  "content_holds done (concat xs) c \<Longrightarrow> status_code p \<noteq> -1 \<Longrightarrow> data_processor p = Some (Content c) \<Longrightarrow>
    \<exists>c'. feed xs p = Some (Inr (p\<lparr>data_processor := Some (Content c')\<rparr>)) \<and>
      content_holds (done @ concat xs) [] c'"
proof (induction xs arbitrary: "done" c p)
  case Nil
  then have "p\<lparr>data_processor := Some (Content c)\<rparr> = p" by simp
  with Nil show ?case by (metis append_Nil2 concat.simps(1) feed.simps(1))
next
  case (Cons x xs)
  obtain c1 where c1: "content_process x c = Inr c1" "content_holds (done @ x) (concat xs) c1"
    using content_piece [of "done" x "concat xs" c] Cons.prems(1) by auto
  then have "process x (Content c) = Some (Inr (Content c1))" by simp
  note step = processData_more [OF Cons.prems(2,3) this]
  have "status_code (p\<lparr>data_processor := Some (Content c1)\<rparr>) \<noteq> -1" using Cons.prems(2) by simp
  from Cons.IH [OF c1(2) this] step show ?case by simp
qed

lemma content_complete_holds: "content_holds b [] c \<Longrightarrow> content_complete c \<and> initialised (payload c) = Inr b"
  by (auto simp: content_holds_def content_complete_def initialised_def comp_def)

text \<open>A processor that holds a complete response.\<close>

definition holds_content :: "int \<Rightarrow> byte list \<Rightarrow> processor \<Rightarrow> bool" where
  "holds_content status body p \<longleftrightarrow>
     status_code p = status \<and> status \<noteq> -1 \<and>
     (case data_processor p of Some (Content c) \<Rightarrow> content_holds body [] c | _ \<Rightarrow> False)"

definition holds_chunks :: "int \<Rightarrow> byte list \<Rightarrow> processor \<Rightarrow> bool" where
  "holds_chunks status body p \<longleftrightarrow>
     status_code p = status \<and> status \<noteq> -1 \<and>
     (case data_processor p of Some (Chunks s) \<Rightarrow> chunks_complete s \<and> chunk_data s = body | _ \<Rightarrow> False)"

lemma holds_contentE:
  assumes "holds_content status body p"
  obtains c where "data_processor p = Some (Content c)" "content_holds body [] c" "status_code p = status"
    "complete p = Inr True"
  using assms content_complete_holds
  by (auto simp: holds_content_def complete_def deref_processor_def split: option.splits data_processor.splits)

lemma holds_chunksE:
  assumes "holds_chunks status body p"
  obtains s where "data_processor p = Some (Chunks s)" "chunk_data s = body" "status_code p = status"
    "complete p = Inr True"
  using assms
  by (auto simp: holds_chunks_def complete_def deref_processor_def split: option.splits data_processor.splits)

lemma content_response:
  assumes "waiting p" "one_header hdr" "parseHeader hdr (-1, headers p) = Inr (status, hs)" "status \<noteq> -1"
    and "map_of hs ''content-length'' = Some (to_string (length (concat (x # xs))))"
    and "length (concat (x # xs)) < 2 ^ 31"
  shows "\<exists>q. feed ((header_bytes hdr @ x) # xs) p = Some (Inr q) \<and> holds_content status (concat (x # xs)) q"
proof -
  obtain c where c: "select_processor hs = Inr (Content c)" "content_holds [] (concat (x # xs)) c"
    using content_new [OF assms(5,6)] by blast
  obtain c1 where c1: "content_process x c = Inr c1" "content_holds x (concat xs) c1"
    using content_piece [of "[]" x "concat xs" c] c(2) by auto
  then have "process x (Content c) = Some (Inr (Content c1))" by simp
  note start = processData_header [OF assms(1-3) c(1) this]
  let ?p = "\<lparr>header_str = hdr @ header_end, headers = hs, status_code = status, data_processor = Some (Content c1)\<rparr>"
  obtain c2 where "feed xs ?p = Some (Inr (?p\<lparr>data_processor := Some (Content c2)\<rparr>))"
    "content_holds (x @ concat xs) [] c2"
    using feed_content [OF c1(2), of ?p] assms(4) by auto
  with start assms(4) show ?thesis by (simp add: holds_content_def)
qed

lemma chunked_response:
  assumes "waiting p" "one_header hdr" "parseHeader hdr (-1, headers p) = Inr (status, hs)" "status \<noteq> -1"
    and "map_of hs ''content-length'' = None" "map_of hs ''transfer-encoding'' = Some v" "is_chunked v"
    and "body_wf cs" "concat (g # gs) = body_atoms cs"
  shows "\<exists>q. feed ((header_bytes hdr @ concat g) # map concat gs) p = Some (Inr q) \<and>
    holds_chunks status (body_data cs) q"
proof -
  have sel: "select_processor hs = Inr (Chunks ChunkedProcessor)"
    using assms(5-7) by (simp add: select_processor_def map_contains_def)
  have "received (g @ concat gs) (body_data cs) ChunkedProcessor"
    using received_new [OF assms(8)] assms(9) by simp
  then obtain s where s: "process (concat g) (Chunks ChunkedProcessor) = Some (Inr (Chunks s))"
    "received (concat gs) (body_data cs) s"
    using process_piece by blast
  note start = processData_header [OF assms(1-3) sel s(1)]
  let ?p = "\<lparr>header_str = hdr @ header_end, headers = hs, status_code = status, data_processor = Some (Chunks s)\<rparr>"
  obtain s2 where "feed (map concat gs) ?p = Some (Inr (?p\<lparr>data_processor := Some (Chunks s2)\<rparr>))"
    "received [] (body_data cs) s2"
    using feed_pieces [OF s(2), of ?p] assms(4) by auto
  with start assms(4) show ?thesis by (simp add: holds_chunks_def received_def)
qed

section \<open>Comparing responses\<close>

lemma content_compare_holds:
  assumes "content_holds a [] p" "content_holds b [] q"
  shows "\<exists>r. content_compare p q = Inr r \<and> (r = 0 \<longleftrightarrow> a = b)"
proof (cases "length a = length b")
  case True
  then show ?thesis
    using assms content_complete_holds [OF assms(1)] content_complete_holds [OF assms(2)]
    by (auto simp: content_compare_def content_holds_def)
next
  case False
  then show ?thesis using assms by (auto simp: content_compare_def content_holds_def)
qed

lemma holds_content_compare:
  assumes "holds_content s a p" "holds_content t b q"
  shows "\<exists>r. compare p q = Inr r \<and> (r = 0 \<longleftrightarrow> s = t \<and> a = b)"
proof -
  obtain c where c: "data_processor p = Some (Content c)" "content_holds a [] c" "status_code p = s"
    "complete p = Inr True" using assms(1) by (rule holds_contentE)
  obtain d where d: "data_processor q = Some (Content d)" "content_holds b [] d" "status_code q = t"
    "complete q = Inr True" using assms(2) by (rule holds_contentE)
  show ?thesis
    using c d content_compare_holds [OF c(2) d(2)] by (auto simp: compare_def deref_processor_def Let_def)
qed

lemma strncmp_prefix:
  "length xs = length ys \<Longrightarrow>
    strncmp xs ys = 0 \<longleftrightarrow> takeWhile (\<lambda>b. b \<noteq> 0) xs = takeWhile (\<lambda>b. b \<noteq> 0) ys"
proof (induction xs ys rule: strncmp.induct)
  case (1 x xs y ys)
  then show ?case by (cases "x = 0"; cases "y = 0") auto
qed auto

lemma chunked_compare_prefix:
  "chunked_compare p q = 0 \<longleftrightarrow> length (chunk_data p) = length (chunk_data q) \<and>
    takeWhile (\<lambda>b. b \<noteq> 0) (chunk_data p) = takeWhile (\<lambda>b. b \<noteq> 0) (chunk_data q)"
  using strncmp_prefix [of "chunk_data p" "chunk_data q"] by (simp add: chunked_compare_def)

lemma holds_chunks_compare:
  assumes "holds_chunks s a p" "holds_chunks t b q"
  shows "\<exists>r. compare p q = Inr r \<and>
    (r = 0 \<longleftrightarrow> s = t \<and> length a = length b \<and> takeWhile (\<lambda>b. b \<noteq> 0) a = takeWhile (\<lambda>b. b \<noteq> 0) b)"
proof -
  obtain c where c: "data_processor p = Some (Chunks c)" "chunk_data c = a" "status_code p = s"
    "complete p = Inr True" using assms(1) by (rule holds_chunksE)
  obtain d where d: "data_processor q = Some (Chunks d)" "chunk_data d = b" "status_code q = t"
    "complete q = Inr True" using assms(2) by (rule holds_chunksE)
  show ?thesis
    using c d chunked_compare_prefix [of c d] by (auto simp: compare_def deref_processor_def Let_def)
qed

text \<open>
  Both kinds of complete response. Bodies with a content length are told apart byte by byte, chunked
  ones by their length and up to the first zero byte; responses of different kinds with the same
  status cannot be compared.
\<close>

datatype response_body = Counted "byte list" | Chunked "byte list"

fun holds_body :: "int \<Rightarrow> response_body \<Rightarrow> processor \<Rightarrow> bool" where
  "holds_body status (Counted b) p = holds_content status b p"
| "holds_body status (Chunked b) p = holds_chunks status b p"

fun looks_same :: "response_body \<Rightarrow> response_body \<Rightarrow> bool" where
  "looks_same (Counted a) (Counted b) = (a = b)"
| "looks_same (Chunked a) (Chunked b) =
     (length a = length b \<and> takeWhile (\<lambda>x. x \<noteq> 0) a = takeWhile (\<lambda>x. x \<noteq> 0) b)"
| "looks_same _ _ = False"

lemma holds_body_kinds_differ:
  assumes "holds_content s a p" "holds_chunks t b q"
  shows "compare p q = Inr r \<Longrightarrow> r \<noteq> 0 \<and> s \<noteq> t" "compare q p = Inr r \<Longrightarrow> r \<noteq> 0 \<and> s \<noteq> t"
proof -
  obtain c where c: "data_processor p = Some (Content c)" "status_code p = s" "complete p = Inr True"
    using assms(1) by (rule holds_contentE)
  obtain d where d: "data_processor q = Some (Chunks d)" "status_code q = t" "complete q = Inr True"
    using assms(2) by (rule holds_chunksE)
  show "compare p q = Inr r \<Longrightarrow> r \<noteq> 0 \<and> s \<noteq> t" "compare q p = Inr r \<Longrightarrow> r \<noteq> 0 \<and> s \<noteq> t"
    using c d by (auto simp: compare_def deref_processor_def Let_def split: if_splits)
qed

lemma holds_body_compare:
  assumes "holds_body s a p" "holds_body t b q" "compare p q = Inr r"
  shows "r = 0 \<longleftrightarrow> s = t \<and> looks_same a b"
proof (cases "(a, b)" rule: looks_same.cases)
  case (1 x y)
  with assms holds_content_compare [of s x p t y q] show ?thesis by auto
next
  case (2 x y)
  with assms holds_chunks_compare [of s x p t y q] show ?thesis by auto
qed (use assms holds_body_kinds_differ in auto)

section \<open>Inputs on which the processor fails\<close>

lemma waiting_partial:
  assumes "waiting p" "\<not> sublist header_end (map char_of_byte x)"
  shows "processData x p = Some (Inl (Undefined_behaviour Null_dereference))"
proof -
  have p: "status_code p = -1" "header_str p = []" "data_processor p = None"
    using assms(1) by (simp_all add: waiting_def)
  have "find_from (map char_of_byte x) header_end 0 = None"
    using find_at_none [OF header_end_simps(2) assms(2)] by (simp add: find_from_def)
  then show ?thesis using p by (simp add: processData_def Let_def deref_processor_def)
qed

text \<open>A chunk-size line whose first digits \<open>u\<close> came with the previous call.\<close>

definition half_size_line :: "string \<Rightarrow> chunked \<Rightarrow> bool" where
  "half_size_line u s \<longleftrightarrow> chunk_size s < 0 \<and> chunk_read s = 0 \<and> chunk_end_char_count s = 0 \<and> tmp_buf s = u"

section \<open>Properties\<close>

text \<open>
  A response's header on the wire, and what it stands for on top of the table of headers the
  processor already has.
\<close>

definition response_head :: "string \<Rightarrow> nat \<Rightarrow> string \<Rightarrow> (string \<times> string) list \<Rightarrow> string" where
  "response_head version code reason fs = header_text (status_line version code reason) fs"

definition head_ok :: "string \<Rightarrow> nat \<Rightarrow> string \<Rightarrow> (string \<times> string) list \<Rightarrow> bool" where
  "head_ok version code reason fs \<longleftrightarrow>
     CHR '' '' \<notin> set version \<and> CHR 0x0A \<notin> set version \<and> CHR 0x0A \<notin> set reason \<and> code < 2 ^ 31 \<and>
     (\<forall>f \<in> set fs. field_ok f) \<and> one_header (response_head version code reason fs)"

lemma parse_response_head:
  "head_ok version code reason fs \<Longrightarrow>
    parseHeader (response_head version code reason fs) (old, hs) = Inr (int code, put_fields fs hs)"
  unfolding response_head_def by (rule parse_header) (auto simp: head_ok_def)

text \<open>
  C13. A response with a content length is taken in completely: for every well-formed header that
  arrives with the first piece and every way the body of exactly that length is split into pieces,
  the processor is complete, has the status code and holds the body.
\<close>

theorem content_response_decoded:
  assumes "waiting p" "head_ok version code reason fs"
    and "map_of (put_fields fs (headers p)) ''content-length'' = Some (to_string (length (concat (x # xs))))"
    and "length (concat (x # xs)) < 2 ^ 31"
  shows "\<exists>q. feed ((header_bytes (response_head version code reason fs) @ x) # xs) p = Some (Inr q) \<and>
    holds_content (int code) (concat (x # xs)) q"
  using assms by (intro content_response [OF _ _ parse_response_head]) (auto simp: head_ok_def)

text \<open>
  C12. A chunked response is decoded: for every body of well-formed chunks and every way of
  splitting it into pieces that does not split a chunk-size line, the processor is complete and
  holds the concatenation of the chunks.
\<close>

theorem chunked_response_decoded:
  assumes "waiting p" "head_ok version code reason fs"
    and "map_of (put_fields fs (headers p)) ''content-length'' = None"
    and "map_of (put_fields fs (headers p)) ''transfer-encoding'' = Some ''chunked''"
    and "body_wf cs" "concat (g # gs) = body_atoms cs"
  shows "\<exists>q. feed ((header_bytes (response_head version code reason fs) @ concat g) # map concat gs) p =
      Some (Inr q) \<and> holds_chunks (int code) (body_data cs) q"
proof -
  have "is_chunked ''chunked''" by code_simp
  with assms show ?thesis
    by (intro chunked_response [OF _ _ parse_response_head]) (auto simp: head_ok_def)
qed

text \<open>
  Two responses with content lengths compare equal exactly where their status codes and their
  bodies are the same, however they arrived.
\<close>

theorem content_comparison:
  assumes "holds_content s a p" "holds_content t b q"
  shows "\<exists>r. compare p q = Inr r \<and> (r = 0 \<longleftrightarrow> s = t \<and> a = b)"
  by (rule holds_content_compare [OF assms])

text \<open>
  C34. Two chunked responses compare equal already where their bodies have the same length and agree
  up to the first zero byte: what follows a zero byte is not compared.
\<close>

theorem chunked_comparison_stops_at_zero:
  assumes "holds_chunks s a p" "holds_chunks t b q"
  shows "\<exists>r. compare p q = Inr r \<and>
    (r = 0 \<longleftrightarrow> s = t \<and> length a = length b \<and> takeWhile (\<lambda>b. b \<noteq> 0) a = takeWhile (\<lambda>b. b \<noteq> 0) b)"
  by (rule holds_chunks_compare [OF assms])

text \<open>
  A first piece that does not contain the end of the header is an undefined operation: the
  data processor that is asked whether it is complete does not exist yet.
\<close>

theorem partial_header_undefined:
  assumes "waiting p" "\<not> sublist header_end (map char_of_byte x)"
  shows "processData x p = Some (Inl (Undefined_behaviour Null_dereference))"
  by (rule waiting_partial [OF assms])

text \<open>
  C35. The headers of an earlier response survive \<open>reset\<close>: where one had a content length, a later
  chunked response is taken as one of that length.
\<close>

theorem stale_content_length:
  assumes "head_ok version code reason fs"
    and "map_of (headers p) ''content-length'' = Some (to_string n)" "n < 2 ^ 31"
    and "\<forall>f \<in> set fs. toLower (fst f) \<noteq> ''content-length''"
  shows "\<exists>b q c. processData (header_bytes (response_head version code reason fs)) (reset p) =
    Some (Inr (b, q)) \<and> data_processor q = Some (Content c) \<and> payload_size c = int n"
proof -
  have "map_of (put_fields fs hs) ''content-length'' = map_of hs ''content-length''" for hs
    using assms(4)
  proof (induction fs arbitrary: hs)
    case (Cons f fs)
    then show ?case by (cases f) (auto simp: put_fields_def)
  qed (simp add: put_fields_def)
  then have cl: "map_of (put_fields fs (headers (reset p))) ''content-length'' =
      Some (to_string (length (replicate n (0 :: byte))))"
    using assms(2) by (simp add: reset_def)
  obtain c where c: "select_processor (put_fields fs (headers (reset p))) = Inr (Content c)"
    "content_holds [] (replicate n 0) c"
    using content_new [OF cl] assms(3) by auto
  have "one_header (response_head version code reason fs)" using assms(1) by (simp add: head_ok_def)
  from processData_header [OF waiting_reset(1) this parse_response_head [OF assms(1)] c(1) process_Nil [OF c(1)]] c(2)
  show ?thesis by (simp add: content_holds_def)
qed

text \<open>
  C36. A body longer than its content length is written behind the end of the buffer.
\<close>

theorem long_body_overflows:
  assumes "waiting p" "head_ok version code reason fs"
    and "map_of (put_fields fs (headers p)) ''content-length'' = Some (to_string n)"
    and "n < length body" "n < 2 ^ 31"
  shows "processData (header_bytes (response_head version code reason fs) @ body) p =
    Some (Inl (Undefined_behaviour Out_of_bounds_write))"
proof -
  obtain c where c: "select_processor (put_fields fs (headers p)) = Inr (Content c)"
    "content_holds [] (replicate n (0 :: byte)) c"
    using content_new [of "put_fields fs (headers p)" "replicate n (0 :: byte)"] assms(3,5) by auto
  have "process body (Content c) = Some (Inl (Undefined_behaviour Out_of_bounds_write))"
    using c(2) assms(4) by (simp add: content_process_def content_holds_def)
  moreover have "one_header (response_head version code reason fs)" "body \<noteq> []"
    using assms(2,4) by (auto simp: head_ok_def)
  ultimately show ?thesis
    using processData_header_error [OF assms(1) _ parse_response_head [OF assms(2)] c(1)] by blast
qed

text \<open>A size line that an earlier piece began is completed: its whole length counts as read from this piece.\<close>

lemma size_step_completed:
  assumes "half_size_line u s" "chunk_wf (u @ v, d)"
  shows "\<exists>buf. size_step (map byte_of_char (v @ crlf) @ d) 0 s =
    Inr (Continue, length (u @ v) + 2, s\<lparr>tmp_buf := buf, chunk_size := int (length d)\<rparr>)"
proof -
  let ?x = "map byte_of_char (v @ crlf) @ d"
  define n where "n = min (length ?x) (TMPSIZ - length u)"
  define buf where "buf = u @ map char_of_byte (take n ?x)"
  have s: "tmp_buf s = u" using assms(1) by (simp add: half_size_line_def)
  have wf: "u @ v \<noteq> []" "scan_digits 16 0 (u @ v) = (length d, length (u @ v))" "length d < 2 ^ 31"
    "length (u @ v) + 2 \<le> TMPSIZ"
    using assms(2) by (simp_all add: chunk_wf_def)
  have "length (map byte_of_char (v @ crlf)) \<le> n" using wf(4) by (simp add: n_def)
  then obtain y where "take n ?x = map byte_of_char (v @ crlf) @ y"
    by (simp only: take_append take_all)
  then have buf: "buf = (u @ v) @ crlf @ map char_of_byte y" by (simp add: buf_def comp_def)
  have "CHR 0x00 \<notin> set (u @ v)"
    using wf(2) scan_digits_all hex_digit_plain(1) by blast
  then have str: "c_string buf = (u @ v) @ crlf @ c_string (map char_of_byte y)"
    unfolding buf c_string_def by (subst takeWhile_append2) auto
  have "sublist crlf (c_string buf)" unfolding str by (rule sublist_appendI)
  moreover have "strtoul 16 (c_string buf) = (length d, length (u @ v))"
    unfolding str by (rule strtoul_size_line [OF wf(1-3)])
  moreover have "length (u @ v) \<noteq> 0" using wf(1) by simp
  moreover have "int_of_ulong (length d) = int (length d)" by (rule int_of_ulong_small [OF wf(3)])
  ultimately have "size_step ?x 0 s =
      Inr (Continue, length (u @ v) + 2, s\<lparr>tmp_buf := buf, chunk_size := int (length d)\<rparr>)"
    using s unfolding size_step_def Let_def by (simp add: buf_def n_def)
  then show ?thesis ..
qed

text \<open>The rest of a piece that holds less than the chunk is taken as its data.\<close>

lemma chunked_loop_short:
  assumes "chunk_size s = int (length d)" "chunk_read s = 0" "d \<noteq> []" "length (drop i x) \<le> length d"
  shows "\<exists>s'. chunked_loop x i s = Some (Inr (False, s')) \<and> chunk_data s' = chunk_data s @ drop i x"
proof (cases "length x \<le> i")
  case True
  then show ?thesis unfolding chunked_loop.simps [of x i s] by simp
next
  case False
  let ?k = "length x - i" and ?t = "s\<lparr>chunk_data := chunk_data s @ drop i x, chunk_read := int (length x - i)\<rparr>"
  have min: "min (int ?k) (chunk_size s - chunk_read s) = int ?k" using assms by simp
  have "data_step x i s = Inr (Continue, i + ?k, ?t)"
    unfolding data_step_def min Let_def using assms(2) by simp
  moreover have "chunk_read s \<noteq> chunk_size s" "\<not> chunk_size s < 0" using assms(1-3) by simp_all
  ultimately have "chunked_step x i s = Inr (Continue, i + ?k, ?t)" by (simp add: chunked_step_def)
  then have "chunked_loop x i s = chunked_loop x (i + ?k) ?t"
    unfolding chunked_loop.simps [of x i s] using False by simp
  also have "\<dots> = Some (Inr (False, ?t))"
    unfolding chunked_loop.simps [of x "i + ?k" ?t] using False by simp
  finally show ?thesis by (intro exI [of _ ?t]) simp
qed

text \<open>
  A chunk-size line that arrives in two pieces costs data: as many bytes of the chunk are
  skipped as digits of its size came with the earlier piece.
\<close>

theorem split_size_line_loses_data:
  assumes "half_size_line u s" "chunk_wf (u @ v, d)" "d \<noteq> []" "length u \<le> length d"
  shows "\<exists>s'. chunked_process (map byte_of_char (v @ crlf) @ d) s = Some (Inr (False, s')) \<and>
    chunk_data s' = chunk_data s @ drop (length u) d"
proof -
  let ?x = "map byte_of_char (v @ crlf) @ d" and ?i = "length (u @ v) + 2"
  obtain buf where step1: "size_step ?x 0 s =
      Inr (Continue, ?i, s\<lparr>tmp_buf := buf, chunk_size := int (length d)\<rparr>)"
    using size_step_completed [OF assms(1,2)] by blast
  let ?s = "s\<lparr>tmp_buf := buf, chunk_size := int (length d)\<rparr>"
  have s: "chunk_size s < 0" "chunk_read s = 0" using assms(1) by (simp_all add: half_size_line_def)
  have "chunked_process ?x s = chunked_loop ?x ?i ?s"
    unfolding chunked_process_def
    by (subst chunked_loop.simps) (use step1 s(1) in \<open>simp add: chunked_step_def\<close>)
  moreover obtain s' where "chunked_loop ?x ?i ?s = Some (Inr (False, s'))" "chunk_data s' = chunk_data ?s @ drop ?i ?x"
    using chunked_loop_short [of ?s d ?i ?x] assms(3,4) s(2) by auto
  ultimately show ?thesis by auto
qed

text \<open>
  C28. The processor always returns: whatever pieces arrive, taking them in ends with a state, an
  exception or an undefined operation; the loop over a chunked body does not run forever.
\<close>

theorem feed_terminates: "\<exists>r. feed xs new_processor = Some r"
proof -
  have "\<exists>r. feed xs p = Some r" if "processor_ok p" for p
    using that
  proof (induction xs arbitrary: p)
    case (Cons x xs)
    obtain r where r: "processData x p = Some r" "\<forall>b p'. r = Inr (b, p') \<longrightarrow> processor_ok p'"
      using processData_returns [OF Cons.prems] by blast
    show ?case
    proof (cases r)
      case (Inr v)
      with r Cons.IH [of "snd v"] show ?thesis by (cases v) simp
    qed (use r in simp)
  qed simp
  then show ?thesis by simp
qed

section \<open>Witnesses\<close>

definition sample_fields :: "(string \<times> string) list" where
  "sample_fields = [(''Server'', ''x''), (''Content-Length'', ''5'')]"

definition sample_chunked_fields :: "(string \<times> string) list" where
  "sample_chunked_fields = [(''Transfer-Encoding'', ''chunked'')]"

lemma sample_heads:
  "head_ok ''HTTP/1.1'' 200 ''OK'' sample_fields" "head_ok ''HTTP/1.1'' 200 ''OK'' sample_chunked_fields"
  by code_simp+

lemma sample_put_fields:
  "map_of (put_fields sample_fields []) ''content-length'' = Some (to_string 5)"
  "map_of (put_fields sample_chunked_fields []) ''content-length'' = None"
  "map_of (put_fields sample_chunked_fields []) ''transfer-encoding'' = Some ''chunked''"
  by code_simp+

lemma headers_new [simp]: "headers new_processor = []"
  by (simp add: new_processor_def reset_def)

theorem content_response_decoded_witness:
  "\<exists>q. feed [header_bytes (response_head ''HTTP/1.1'' 200 ''OK'' sample_fields) @ [1, 2], [3], [4, 5]]
      new_processor = Some (Inr q) \<and> holds_content (int 200) (concat [[1, 2], [3], [4, 5]]) q"
proof -
  have "length (concat [[1, 2], [3], [4, 5 :: byte]]) = 5" by simp
  then show ?thesis
    by (intro content_response_decoded [OF waiting_reset(2) sample_heads(1)])
      (simp_all only: headers_new sample_put_fields, simp)
qed

definition sample_chunks :: "chunk list" where
  "sample_chunks = [(''5'', [104, 101, 108, 108, 111]), (''0'', [])]"

lemma sample_chunks_wf: "body_wf sample_chunks"
  by code_simp

lemma sample_split: "concat [take 3 (body_atoms sample_chunks), drop 3 (body_atoms sample_chunks)] = body_atoms sample_chunks"
  by simp

theorem chunked_response_decoded_witness:
  "\<exists>q. feed [header_bytes (response_head ''HTTP/1.1'' 200 ''OK'' sample_chunked_fields) @
        concat (take 3 (body_atoms sample_chunks)), concat (drop 3 (body_atoms sample_chunks))] new_processor =
      Some (Inr q) \<and> holds_chunks (int 200) (body_data sample_chunks) q"
  using chunked_response_decoded [OF waiting_reset(2) sample_heads(2) _ _ sample_chunks_wf sample_split]
    sample_put_fields
  by simp

definition sample_content :: "byte list \<Rightarrow> processor" where
  "sample_content b =
     \<lparr>header_str = [], headers = [], status_code = 200,
      data_processor = Some (Content \<lparr>payload = map Some b, payload_size = int (length b), payload_read = int (length b)\<rparr>)\<rparr>"

theorem content_comparison_witness:
  "\<exists>r. compare (sample_content [1, 2]) (sample_content [1, 3]) = Inr r \<and>
    (r = 0 \<longleftrightarrow> (200 :: int) = 200 \<and> [1, 2] = [1, 3 :: byte])"
  by (rule content_comparison) (simp_all add: sample_content_def holds_content_def content_holds_def)

definition sample_chunked :: "byte list \<Rightarrow> processor" where
  "sample_chunked b =
     \<lparr>header_str = [], headers = [], status_code = 200,
      data_processor = Some (Chunks (ChunkedProcessor\<lparr>chunk_data := b, chunks_complete := True\<rparr>))\<rparr>"

theorem chunked_comparison_stops_at_zero_witness:
  "compare (sample_chunked [1, 0, 2]) (sample_chunked [1, 0, 3]) = Inr 0"
  using chunked_comparison_stops_at_zero [of 200 "[1, 0, 2]" "sample_chunked [1, 0, 2]" 200 "[1, 0, 3]"
      "sample_chunked [1, 0, 3]"]
  by (simp add: sample_chunked_def holds_chunks_def)

theorem partial_header_undefined_witness:
  "processData [72, 84, 84, 80] new_processor = Some (Inl (Undefined_behaviour Null_dereference))"
  by (rule partial_header_undefined [OF waiting_reset(2)]) code_simp

theorem stale_content_length_witness:
  "\<exists>b q c. processData (header_bytes (response_head ''HTTP/1.1'' 200 ''OK'' sample_chunked_fields))
      (reset (new_processor\<lparr>headers := [(''content-length'', to_string 5)]\<rparr>)) = Some (Inr (b, q)) \<and>
    data_processor q = Some (Content c) \<and> payload_size c = int 5"
proof (rule stale_content_length [OF sample_heads(2)])
  show "\<forall>f \<in> set sample_chunked_fields. toLower (fst f) \<noteq> ''content-length''" by code_simp
qed simp_all

theorem long_body_overflows_witness:
  "processData (header_bytes (response_head ''HTTP/1.1'' 200 ''OK'' sample_fields) @ [1, 2, 3, 4, 5, 6]) new_processor =
    Some (Inl (Undefined_behaviour Out_of_bounds_write))"
  by (rule long_body_overflows [OF waiting_reset(2) sample_heads(1)])
    (simp_all only: headers_new sample_put_fields, simp_all)

theorem split_size_line_loses_data_witness:
  "\<exists>s'. chunked_process (map byte_of_char (''0'' @ crlf) @ replicate 16 7) (ChunkedProcessor\<lparr>tmp_buf := ''1''\<rparr>) =
      Some (Inr (False, s')) \<and>
    chunk_data s' = chunk_data (ChunkedProcessor\<lparr>tmp_buf := ''1''\<rparr>) @ drop (length ''1'') (replicate 16 7)"
proof (rule split_size_line_loses_data)
  show "half_size_line ''1'' (ChunkedProcessor\<lparr>tmp_buf := ''1''\<rparr>)"
    by (simp add: half_size_line_def ChunkedProcessor_def)
  have "scan_digits 16 0 ''10'' = (16, 2)" by code_simp
  then show "chunk_wf (''1'' @ ''0'', replicate 16 (7 :: byte))" by (simp add: chunk_wf_def TMPSIZ_def)
qed simp_all

end
