(* ===== verification/Sockets.thy ===== *)
theory Sockets
  imports Actions
begin

text \<open>
  The operating system as the replay clients see it. A call and its reply are values; an
  environment answers a call from the calls and replies so far, so it can be any deterministic
  server and network. The clients keep the log of their calls, which is what properties speak of.
  The reply holds the returned number, the bytes that were received and the text the clients put
  into their messages (\<open>strerror\<close> and the number of the error).
\<close>

datatype sys_call =
    Sys_socket int int
  | Sys_connect int sockaddr nat
  | Sys_write int "byte list"
  | Sys_read int nat
  | Sys_close int
  | Sys_sendto int "byte list" sockaddr nat
  | Sys_recvfrom int nat

record sys_reply =
  ret :: int
  got :: "byte list"
  err :: string

type_synonym sys_log = "(sys_call \<times> sys_reply) list"
type_synonym environment = "sys_log \<Rightarrow> sys_call \<Rightarrow> sys_reply"

definition SOCK_STREAM :: int where "SOCK_STREAM = 1"
definition SOCK_DGRAM :: int where "SOCK_DGRAM = 2"

definition sys :: "environment \<Rightarrow> sys_call \<Rightarrow> sys_log \<Rightarrow> sys_reply \<times> sys_log" where
  "sys env c log = (let r = env log c in (r, log @ [(c, r)]))"

lemma sys_simps [simp]: "fst (sys env c log) = env log c" "snd (sys env c log) = log @ [(c, env log c)]"
  by (simp_all add: sys_def Let_def)

lemma sys_eq: "sys env c log = (r, log') \<longleftrightarrow> r = env log c \<and> log' = log @ [(c, r)]"
  by (auto simp: sys_def Let_def)

text \<open>Received bytes: \<open>ret\<close> of them; the reply of a \<open>read\<close> holds at least as many.\<close>

definition received_bytes :: "sys_reply \<Rightarrow> byte list" where
  "received_bytes r = take (nat (ret r)) (got r)"

section \<open>What was sent\<close>

text \<open>The bytes that \<open>write\<close> took, and the datagrams that \<open>sendto\<close> was given.\<close>

fun written :: "sys_call \<times> sys_reply \<Rightarrow> byte list" where
  "written (Sys_write fd bs, r) = take (nat (ret r)) bs"
| "written _ = []"

definition sent_bytes :: "sys_log \<Rightarrow> byte list" where
  "sent_bytes log = concat (map written log)"

fun datagram_of :: "sys_call \<times> sys_reply \<Rightarrow> (byte list \<times> sockaddr) list" where
  "datagram_of (Sys_sendto fd bs a n, r) = [(bs, a)]"
| "datagram_of _ = []"

definition sent_datagrams :: "sys_log \<Rightarrow> (byte list \<times> sockaddr) list" where
  "sent_datagrams log = concat (map datagram_of log)"

fun datagram_received :: "sys_call \<times> sys_reply \<Rightarrow> byte list list" where
  "datagram_received (Sys_recvfrom fd n, r) = [received_bytes r]"
| "datagram_received _ = []"

definition received_datagrams :: "sys_log \<Rightarrow> byte list list" where
  "received_datagrams log = concat (map datagram_received log)"

lemma sent_append [simp]:
  "sent_bytes (xs @ ys) = sent_bytes xs @ sent_bytes ys" "sent_bytes [] = []"
  "sent_datagrams (xs @ ys) = sent_datagrams xs @ sent_datagrams ys" "sent_datagrams [] = []"
  "received_datagrams (xs @ ys) = received_datagrams xs @ received_datagrams ys" "received_datagrams [] = []"
  by (simp_all add: sent_bytes_def sent_datagrams_def received_datagrams_def)

lemma sent_Cons [simp]:
  "sent_bytes (e # es) = written e @ sent_bytes es"
  "sent_datagrams (e # es) = datagram_of e @ sent_datagrams es"
  "received_datagrams (e # es) = datagram_received e @ received_datagrams es"
  by (simp_all add: sent_bytes_def sent_datagrams_def received_datagrams_def)

text \<open>The data of the actions that send, in order.\<close>

definition send_data :: "action list \<Rightarrow> byte list list" where
  "send_data as = map (\<lambda>a. map byte_of_char (act_data a)) (filter (\<lambda>a. act_type a = SEND) as)"

definition recv_data :: "action list \<Rightarrow> byte list list" where
  "recv_data as = map (\<lambda>a. map byte_of_char (act_data a)) (filter (\<lambda>a. act_type a = RECV) as)"

lemma send_data_simps [simp]:
  "send_data [] = []" "recv_data [] = []"
  "send_data (a # as) = (if act_type a = SEND then map byte_of_char (act_data a) # send_data as else send_data as)"
  "recv_data (a # as) = (if act_type a = RECV then map byte_of_char (act_data a) # recv_data as else recv_data as)"
  by (simp_all add: send_data_def recv_data_def)

end
