(* ===== verification/Http_Replay.thy ===== *)
theory Http_Replay
  imports Http_Properties Sockets Tcp_Conversation
begin

text \<open>
  \<open>HttpReplayClient::replay\<close> of src/src/http_replay/http_replay.cc: the actions of a TCP
  conversation are played against a test server, and the responses it gives are compared with the
  recorded ones. The system calls go to an environment; the size of the receive buffer is a
  parameter.
\<close>

section \<open>The client\<close>

record http_client =
  conversation :: tcp_conversation
  socket :: int
  expected :: processor
  test :: processor
  log :: sys_log
  printed :: "string list"

definition new_client :: "tcp_conversation \<Rightarrow> sys_log \<Rightarrow> http_client" where
  "new_client c l =
     \<lparr>conversation = c, socket = -1, expected = new_processor, test = new_processor, log = l, printed = []\<rparr>"

definition difference_message :: string where
  "difference_message = ''detected difference in server response''"

definition connect_action :: "environment \<Rightarrow> http_client \<Rightarrow> http_client result" where
  "connect_action env c =
     (case sys env (Sys_socket (getAddressFamily (conversation c)) SOCK_STREAM) (log c) of (r, log1) \<Rightarrow>
        if ret r < 0 then Inl (Runtime_error (''socket failed: '' @ err r))
        else
          case sys env (Sys_connect (ret r) (getTestSockAddr (conversation c)) (conv_getSockAddrSize (conversation c))) log1 of
            (r2, log2) \<Rightarrow>
              if ret r2 \<noteq> 0 then Inl (Runtime_error (''connect failed: '' @ err r2))
              else Inr (c\<lparr>socket := ret r, log := log2\<rparr>))"

text \<open>The loop over partial writes.\<close>

function write_loop ::
  "environment \<Rightarrow> int \<Rightarrow> byte list \<Rightarrow> nat \<Rightarrow> sys_log \<Rightarrow> sys_log result" where
  "write_loop env fd data nwrite l =
     (if nwrite < length data then
        (case sys env (Sys_write fd (drop nwrite data)) l of (r, l1) \<Rightarrow>
           if ret r > 0 then write_loop env fd data (nwrite + nat (ret r)) l1
           else if ret r < 0 then Inl (Runtime_error (''write failed: '' @ err r))
           else Inl (Runtime_error ''write failed: connection closed''))
      else Inr l)"
  by pat_completeness auto
termination
  by (relation "measure (\<lambda>(_, _, data, nwrite, _). length data - nwrite)") auto

declare write_loop.simps [simp del]

definition send_action :: "environment \<Rightarrow> action \<Rightarrow> http_client \<Rightarrow> http_client result" where
  "send_action env a c =
     bind (write_loop env (socket c) (map byte_of_char (act_data a)) 0 (log c)) (\<lambda>l.
       Inr (c\<lparr>log := l, expected := reset (expected c), test := reset (test c)\<rparr>))"

text \<open>The loop that reads until the response is complete; it may run forever.\<close>

partial_function (option) read_loop ::
  "environment \<Rightarrow> nat \<Rightarrow> http_client \<Rightarrow> http_client result option" where
  [code]: "read_loop env bufsiz c =
     obind (Some (complete (test c))) (\<lambda>finished.
       if finished then Some (Inr c)
       else
         let r = env (log c) (Sys_read (socket c) bufsiz);
             c1 = c\<lparr>log := log c @ [(Sys_read (socket c) bufsiz, r)]\<rparr>
         in if ret r > 0 then
              obind (processData (received_bytes r) (test c)) (\<lambda>p.
                read_loop env bufsiz (c1\<lparr>test := snd p\<rparr>))
            else if ret r < 0 then Some (Inl (Runtime_error (''read failed: '' @ err r)))
            else Some (Inl (Runtime_error ''read failed: connection closed'')))"

definition recv_action :: "environment \<Rightarrow> nat \<Rightarrow> action \<Rightarrow> http_client \<Rightarrow> http_client result option" where
  "recv_action env bufsiz a c =
     obind (Some (complete (expected c))) (\<lambda>done.
     obind (if done then Some (Inr c)
            else obind (processData (map byte_of_char (act_data a)) (expected c)) (\<lambda>p.
              Some (Inr (c\<lparr>expected := snd p\<rparr>)))) (\<lambda>c1.
     obind (read_loop env bufsiz c1) (\<lambda>c2.
     obind (Some (complete (expected c2))) (\<lambda>comparable.
       if comparable then
         obind (Some (compare (expected c2) (test c2))) (\<lambda>diff.
           Some (Inr (if diff \<noteq> 0 then c2\<lparr>printed := printed c2 @ [difference_message]\<rparr> else c2)))
       else Some (Inr c2)))))"

definition close_action :: "environment \<Rightarrow> http_client \<Rightarrow> http_client" where
  "close_action env c = c\<lparr>socket := -1, log := snd (sys env (Sys_close (socket c)) (log c))\<rparr>"

fun perform :: "environment \<Rightarrow> nat \<Rightarrow> action \<Rightarrow> http_client \<Rightarrow> http_client result option" where
  "perform env bufsiz a c =
     (case act_type a of
        CONNECT \<Rightarrow> Some (connect_action env c)
      | SEND \<Rightarrow> Some (send_action env a c)
      | RECV \<Rightarrow> recv_action env bufsiz a c
      | CLOSE \<Rightarrow> Some (Inr (close_action env c)))"

declare perform.simps [simp del]

partial_function (option) replay ::
  "environment \<Rightarrow> nat \<Rightarrow> http_client \<Rightarrow> http_client result option" where
  [code]: "replay env bufsiz c =
     (if actionEmpty (conversation c) then Some (Inr c)
      else
        obind (Some (actionFront (conversation c))) (\<lambda>a.
        obind (perform env bufsiz a c) (\<lambda>c1.
        obind (Some (actionPop (conversation c1))) (\<lambda>q.
          replay env bufsiz (c1\<lparr>conversation := q\<rparr>)))))"

section \<open>What the steps leave alone\<close>

text \<open>Documented behaviour of \<open>write\<close>: it takes no more bytes than it is given.\<close>

definition write_bounded :: "environment \<Rightarrow> bool" where
  "write_bounded env \<longleftrightarrow> (\<forall>l fd bs. ret (env l (Sys_write fd bs)) \<le> int (length bs))"

lemma write_loop_sends:
  assumes "write_bounded env"
  shows "write_loop env fd data n l = Inr l' \<Longrightarrow> n \<le> length data \<Longrightarrow>
    sent_bytes l' = sent_bytes l @ drop n data"
proof (induction "length data - n" arbitrary: n l rule: less_induct)
  case less
  note loop = write_loop.simps [of env fd data n l]
  show ?case
  proof (cases "n < length data")
    case True
    let ?c = "Sys_write fd (drop n data)"
    define k where "k = nat (ret (env l ?c))"
    have k: "k \<le> length data - n" using assms unfolding write_bounded_def k_def by (metis length_drop nat_le_iff)
    have pos: "0 < k" and rec: "write_loop env fd data (n + k) (l @ [(?c, env l ?c)]) = Inr l'"
      using less.prems(1) loop True by (simp_all add: sys_def Let_def k_def split: if_splits)
    have "sent_bytes l' = sent_bytes (l @ [(?c, env l ?c)]) @ drop (n + k) data"
      using less.hyps [OF _ rec] pos k True by simp
    also have "\<dots> = sent_bytes l @ take k (drop n data) @ drop k (drop n data)"
      by (simp add: k_def add.commute)
    finally show ?thesis by (simp only: append_take_drop_id)
  next
    case False
    with less.prems loop show ?thesis by simp
  qed
qed

text \<open>
  The loop that reads ends with a complete response; it only reads from the client's socket and
  touches nothing else.
\<close>

definition only_reads :: "int \<Rightarrow> sys_log \<Rightarrow> sys_log \<Rightarrow> bool" where
  "only_reads fd l l' \<longleftrightarrow> (\<exists>es. l' = l @ es \<and> (\<forall>e \<in> set es. \<exists>n. fst e = Sys_read fd n))"

lemma only_reads_refl [simp]: "only_reads fd l l"
  by (simp add: only_reads_def)

lemma only_reads_first: "only_reads fd (l @ [(Sys_read fd n, r)]) l' \<Longrightarrow> only_reads fd l l'"
  by (auto simp: only_reads_def)

lemma only_reads_sent: "only_reads fd l l' \<Longrightarrow> sent_bytes l' = sent_bytes l"
proof -
  have "(\<forall>e \<in> set es. \<exists>n. fst e = Sys_read fd n) \<Longrightarrow> sent_bytes es = []" for es
    by (induction es) auto
  then show "only_reads fd l l' \<Longrightarrow> sent_bytes l' = sent_bytes l" by (auto simp: only_reads_def)
qed

definition only_test :: "http_client \<Rightarrow> http_client \<Rightarrow> bool" where
  "only_test c c' \<longleftrightarrow>
     conversation c' = conversation c \<and> socket c' = socket c \<and> expected c' = expected c \<and>
     printed c' = printed c \<and> only_reads (socket c) (log c) (log c')"

lemma read_loop_result:
  "read_loop env bufsiz c = Some r \<Longrightarrow> (\<forall>c'. r = Inr c' \<longrightarrow> only_test c c' \<and> complete (test c') = Inr True)"
proof (induction rule: read_loop.raw_induct [rotated 1, consumes 1, case_names step])
  case (step f env bufsiz c r)
  show ?case
  proof (intro allI impI)
    fix c'
    assume "r = Inr c'"
    with step(2) obtain fin where fin: "complete (test c) = Inr fin"
      by (auto elim!: obindE)
    show "only_test c c' \<and> complete (test c') = Inr True"
    proof (cases fin)
      case True
      with step(2) fin \<open>r = Inr c'\<close> show ?thesis by (simp add: only_test_def)
    next
      case False
      let ?call = "Sys_read (socket c) bufsiz"
      let ?r = "env (log c) ?call"
      have pos: "ret ?r > 0"
        using step(2) fin False \<open>r = Inr c'\<close> by (auto simp: Let_def split: if_splits)
      then obtain p where p: "processData (received_bytes ?r) (test c) = Some (Inr p)"
        "f env bufsiz (c\<lparr>log := log c @ [(?call, ?r)], test := snd p\<rparr>) = Some (Inr c')"
        using step(2) fin False \<open>r = Inr c'\<close> by (auto simp: Let_def elim!: obindE)
      from step(1) [OF p(2)] show ?thesis by (auto simp: only_test_def dest: only_reads_first)
    qed
  qed
qed

lemma recv_action_result:
  assumes "recv_action env bufsiz a c = Some (Inr c')"
  obtains "conversation c' = conversation c" "socket c' = socket c" "only_reads (socket c) (log c) (log c')"
    "complete (test c') = Inr True"
    "(complete (expected c') = Inr False \<and> printed c' = printed c) \<or>
     (complete (expected c') = Inr True \<and> (\<exists>d. compare (expected c') (test c') = Inr d \<and>
        printed c' = printed c @ (if d = 0 then [] else [difference_message])))"
proof -
  obtain fin c1 c2 cmp where st: "complete (expected c) = Inr fin"
    "(if fin then Some (Inr c)
      else obind (processData (map byte_of_char (act_data a)) (expected c)) (\<lambda>p. Some (Inr (c\<lparr>expected := snd p\<rparr>)))) =
      Some (Inr c1)"
    "read_loop env bufsiz c1 = Some (Inr c2)" "complete (expected c2) = Inr cmp"
    "(if cmp then obind (Some (compare (expected c2) (test c2))) (\<lambda>diff.
        Some (Inr (if diff \<noteq> 0 then c2\<lparr>printed := printed c2 @ [difference_message]\<rparr> else c2)))
      else Some (Inr c2)) = Some (Inr c')"
    using assms unfolding recv_action_def by (elim obindE) auto
  have c1: "conversation c1 = conversation c" "printed c1 = printed c" "log c1 = log c" "socket c1 = socket c"
    using st(2) by (auto split: if_splits elim!: obindE)
  have c2: "only_test c1 c2" "complete (test c2) = Inr True" using read_loop_result [OF st(3)] by auto
  show thesis
  proof (cases cmp)
    case True
    with st(5) obtain d where d: "compare (expected c2) (test c2) = Inr d"
      "c' = (if d \<noteq> 0 then c2\<lparr>printed := printed c2 @ [difference_message]\<rparr> else c2)"
      by (auto elim!: obindE)
    with True st(4) c1 c2 show thesis by (intro that) (auto simp: only_test_def)
  next
    case False
    with st(4,5) c1 c2 show thesis by (intro that) (auto simp: only_test_def)
  qed
qed

lemma perform_result:
  assumes "perform env bufsiz a c = Some (Inr c')" "write_bounded env"
  shows "conversation c' = conversation c \<and>
    sent_bytes (log c') = sent_bytes (log c) @ concat (send_data [a])"
proof (cases "act_type a")
  case CONNECT
  with assms(1) show ?thesis
    by (auto simp: perform.simps connect_action_def sys_def Let_def split: if_splits)
next
  case SEND
  with assms(1) obtain l where l: "write_loop env (socket c) (map byte_of_char (act_data a)) 0 (log c) = Inr l"
    "c' = c\<lparr>log := l, expected := reset (expected c), test := reset (test c)\<rparr>"
    by (auto simp: perform.simps send_action_def elim!: bindE)
  with write_loop_sends [OF assms(2) l(1)] SEND show ?thesis by simp
next
  case RECV
  with assms(1) have "recv_action env bufsiz a c = Some (Inr c')" by (simp add: perform.simps)
  then show ?thesis using RECV by (elim recv_action_result) (simp add: only_reads_sent)
next
  case CLOSE
  with assms(1) show ?thesis by (auto simp: perform.simps close_action_def)
qed

lemma replay_result:
  "replay env bufsiz c = Some r \<Longrightarrow> write_bounded env \<longrightarrow> (\<forall>c'. r = Inr c' \<longrightarrow>
    actionEmpty (conversation c') \<and>
    sent_bytes (log c') = sent_bytes (log c) @ concat (send_data (action_queue (conversation c))))"
proof (induction rule: replay.raw_induct [rotated 1, consumes 1, case_names step])
  case (step f env bufsiz c r)
  show ?case
  proof (intro allI impI)
    fix c'
    assume wb: "write_bounded env" and r: "r = Inr c'"
    show "actionEmpty (conversation c') \<and>
      sent_bytes (log c') = sent_bytes (log c) @ concat (send_data (action_queue (conversation c)))"
    proof (cases "actionEmpty (conversation c)")
      case True
      then have "action_queue (conversation c) = []" by (simp add: conv_queue.is_empty)
      with True step(2) r show ?thesis by simp
    next
      case False
      obtain a q where a: "actionFront (conversation c) = Inr a" "actionPop (conversation c) = Inr q"
        "action_queue (conversation c) = a # action_queue q"
        using False by (rule conv_queue.guarded_front_pop)
      from step(2) False a r obtain c1 q1 where c1: "perform env bufsiz a c = Some (Inr c1)"
        "actionPop (conversation c1) = Inr q1" "f env bufsiz (c1\<lparr>conversation := q1\<rparr>) = Some (Inr c')"
        by (auto elim!: obindE)
      note p = perform_result [OF c1(1) wb]
      with a c1 have "q1 = q" by simp
      with step(1) [OF c1(3)] wb p a(3) show ?thesis by simp
    qed
  qed
qed

lemma replay_step:
  assumes "action_queue (conversation c) = a # as" "perform env bufsiz a c = Some (Inr c1)"
    and "conversation c1 = conversation c"
  shows "replay env bufsiz c = replay env bufsiz (c1\<lparr>conversation := (conversation c)\<lparr>action_queue := as\<rparr>\<rparr>)"
  using assms by (simp add: replay.simps [of env bufsiz c] actionEmpty_def actionFront_def actionPop_def)

lemma replay_end: "action_queue (conversation c) = [] \<Longrightarrow> replay env bufsiz c = Some (Inr c)"
  by (simp add: replay.simps [of env bufsiz c] actionEmpty_def)

section \<open>Reading a body with a content length\<close>

text \<open>Documented behaviour of \<open>read\<close>: it returns the number of bytes it stored.\<close>

definition read_filled :: "environment \<Rightarrow> bool" where
  "read_filled env \<longleftrightarrow>
     (\<forall>l fd n. ret (env l (Sys_read fd n)) \<le> int (length (got (env l (Sys_read fd n)))))"

lemma read_loop_content:
  assumes "read_filled env"
  shows "data_processor (test c) = Some (Content p) \<Longrightarrow> content_holds done todo p \<Longrightarrow> status_code (test c) \<noteq> -1 \<Longrightarrow>
    \<exists>r. read_loop env bufsiz c = Some r"
proof (induction "length todo" arbitrary: "done" todo p c rule: less_induct)
  case less
  note loop = read_loop.simps [of env bufsiz c]
  have complete: "complete (test c) = Inr (content_complete p)"
    using less.prems by (simp add: complete_def deref_processor_def)
  show ?case
  proof (cases "content_complete p")
    case True
    with loop complete show ?thesis by simp
  next
    case False
    let ?call = "Sys_read (socket c) bufsiz"
    let ?r = "env (log c) ?call"
    show ?thesis
    proof (cases "ret ?r > 0")
      case True
      define x where "x = received_bytes ?r"
      have x: "x \<noteq> []" using True assms unfolding read_filled_def x_def received_bytes_def
        by (metis gr_implies_not_zero length_0_conv length_take min.absorb2 nat_le_iff zero_less_nat_eq)
      note body = loop complete False True x_def [symmetric]
      show ?thesis
      proof (cases "length x \<le> length todo")
        case fits: True
        define todo' where "todo' = drop (length x) todo"
        have h: "content_holds done (replicate (length x) 0 @ todo') p"
          using less.prems(2) fits by (simp add: content_holds_def todo'_def)
        have hx: "content_holds done (x @ todo') p"
          using h by (simp add: content_holds_def)
        obtain p' where p': "content_process x p = Inr p'" "content_holds (done @ x) todo' p'"
          using content_piece [OF hx] by blast
        then have "process x (Content p) = Some (Inr (Content p'))" by simp
        note step = processData_more [OF less.prems(3,1) this]
        let ?c = "c\<lparr>log := log c @ [(?call, ?r)], test := (test c)\<lparr>data_processor := Some (Content p')\<rparr>\<rparr>"
        have "length todo - length x < length todo"
          using fits length_greater_0_conv [THEN iffD2, OF x] by linarith
        then have "length todo' < length todo" by (simp add: todo'_def)
        from less.hyps [OF this _ p'(2), of ?c] less.prems(3)
        have "\<exists>r. read_loop env bufsiz ?c = Some r" by simp
        with body step show ?thesis by (simp add: Let_def)
      next
        case False
        with less.prems(2) have "content_process x p = Inl (Undefined_behaviour Out_of_bounds_write)"
          by (simp add: content_process_def content_holds_def)
        then have "processData x (test c) = Some (Inl (Undefined_behaviour Out_of_bounds_write))"
          using less.prems(1,3) by (simp add: processData_def deref_processor_def)
        with body show ?thesis by (simp add: Let_def)
      qed
    qed (use loop complete False in \<open>simp add: Let_def\<close>)
  qed
qed

section \<open>Properties\<close>

text \<open>
  Replaying a conversation sends exactly what was recorded: when the replay returns, whatever
  the server and the network did, all actions are consumed and the bytes that the writes took are
  the data of the recorded sends, in order and complete.
\<close>

theorem replay_sends_recorded:
  assumes "write_bounded env" "replay env bufsiz (new_client c l) = Some (Inr c')"
  shows "actionEmpty (conversation c') \<and>
    sent_bytes (log c') = sent_bytes l @ concat (send_data (action_queue c))"
  using replay_result [OF assms(2)] assms(1) by (simp add: new_client_def)

text \<open>
  C26. What a replay reports about a response it has in full: after the recorded response was compared
  with the live one, each of either kind, the message is printed exactly where the status codes differ or
  the bodies look different, and nothing else is printed. Bodies with a content length look the same
  where they are equal, chunked ones already where they have the same length and agree up to the first
  zero byte; a step that compares responses of different kinds without an exception reports them.
\<close>

theorem difference_reported:
  assumes "act_type a = RECV" "perform env bufsiz a c = Some (Inr c')"
    and "holds_body s body (expected c')" "holds_body t body' (test c')"
  shows "printed c' = printed c @ (if s = t \<and> looks_same body body' then [] else [difference_message])"
proof -
  have "recv_action env bufsiz a c = Some (Inr c')" using assms(1,2) by (simp add: perform.simps)
  moreover have "complete (expected c') = Inr True"
    using assms(3) by (cases body) (auto elim: holds_contentE holds_chunksE)
  ultimately obtain d where "compare (expected c') (test c') = Inr d"
    "printed c' = printed c @ (if d = 0 then [] else [difference_message])"
    by (elim recv_action_result) auto
  with holds_body_compare [OF assms(3,4)] show ?thesis by simp
qed

text \<open>
  C37. A server whose first segment does not hold its whole response header makes the client
  dereference a null pointer.
\<close>

theorem short_first_read_undefined:
  assumes "act_type a = RECV" "complete (expected c) = Inr True" "waiting (test c)"
    and "ret (env (log c) (Sys_read (socket c) bufsiz)) > 0"
    and "\<not> sublist header_end (map char_of_byte (received_bytes (env (log c) (Sys_read (socket c) bufsiz))))"
  shows "perform env bufsiz a c = Some (Inl (Undefined_behaviour Null_dereference))"
proof -
  have "complete (test c) = Inr False" using assms(3) by (simp add: complete_def waiting_def)
  moreover have "processData (received_bytes (env (log c) (Sys_read (socket c) bufsiz))) (test c) =
      Some (Inl (Undefined_behaviour Null_dereference))"
    by (rule waiting_partial [OF assms(3,5)])
  ultimately have "read_loop env bufsiz c = Some (Inl (Undefined_behaviour Null_dereference))"
    using assms(4) by (simp add: read_loop.simps Let_def)
  then show ?thesis using assms(1,2) by (simp add: perform.simps recv_action_def)
qed

text \<open>
  Once the header of a response with a content length is in, the loop that reads the rest
  ends, whatever the server sends.
\<close>

theorem content_reading_terminates:
  assumes "read_filled env" "status_code (test c) \<noteq> -1"
    and "data_processor (test c) = Some (Content p)" "content_holds seen todo p"
  shows "\<exists>r. read_loop env bufsiz c = Some r"
  by (rule read_loop_content [OF assms(1,3,4,2)])

section \<open>Witnesses\<close>

text \<open>A server that takes one byte per write and answers every read with the same response.\<close>

definition sample_response :: "byte list" where
  "sample_response = header_bytes (response_head ''HTTP/1.1'' 200 ''OK'' sample_fields) @ [1, 2, 3, 4, 5]"

definition sample_server :: environment where
  "sample_server l c =
     (case c of
        Sys_socket _ _ \<Rightarrow> \<lparr>ret = 3, got = [], err = []\<rparr>
      | Sys_write _ bs \<Rightarrow> \<lparr>ret = min 1 (int (length bs)), got = [], err = []\<rparr>
      | Sys_read _ _ \<Rightarrow> \<lparr>ret = int (length sample_response), got = sample_response, err = []\<rparr>
      | _ \<Rightarrow> \<lparr>ret = 0, got = [], err = []\<rparr>)"

definition sample_http_conversation :: tcp_conversation where
  "sample_http_conversation =
     sample_conversation\<lparr>action_queue :=
       [new_action CONNECT, new_action_data SEND ''GET /'', new_action_data RECV (map char_of_byte sample_response),
        new_action CLOSE]\<rparr>"

lemma sample_replay:
  "(case replay sample_server 64 (new_client sample_http_conversation []) of
      Some (Inr c') \<Rightarrow> printed c' = [] \<and> length (log c') = 9 | _ \<Rightarrow> False)"
  by code_simp

lemma sample_server_ok: "write_bounded sample_server" "read_filled sample_server"
  by (simp_all add: write_bounded_def read_filled_def sample_server_def)

theorem replay_sends_recorded_witness:
  "\<exists>c'. replay sample_server 64 (new_client sample_http_conversation []) = Some (Inr c') \<and>
    sent_bytes (log c') = map byte_of_char ''GET /''"
proof -
  obtain c' where c': "replay sample_server 64 (new_client sample_http_conversation []) = Some (Inr c')"
    using sample_replay by (auto split: option.splits sum.splits)
  from replay_sends_recorded [OF sample_server_ok(1) this] c' show ?thesis
    by (simp add: sample_http_conversation_def new_action_def new_action_data_def)
qed

definition sample_receiving :: http_client where
  "sample_receiving = (new_client sample_http_conversation [])\<lparr>expected := sample_content [1, 2], test := sample_content [1, 3]\<rparr>"

definition sample_receiving_chunks :: http_client where
  "sample_receiving_chunks =
     (new_client sample_http_conversation [])\<lparr>expected := sample_chunked [1, 0, 2], test := sample_chunked [1, 0, 3]\<rparr>"

theorem difference_reported_witness:
  "(\<exists>c'. perform sample_server 64 (new_action RECV) sample_receiving = Some (Inr c') \<and> printed c' = [difference_message]) \<and>
   (\<exists>c'. perform sample_server 64 (new_action RECV) sample_receiving_chunks = Some (Inr c') \<and> printed c' = [])"
proof
  have fin: "complete (sample_content b) = Inr True" "complete (sample_chunked b) = Inr True" for b
    by (simp_all add: complete_def sample_content_def sample_chunked_def deref_processor_def content_complete_def)
  have "compare (sample_content [1, 2]) (sample_content [1, 3]) = Inr (-1)"
    unfolding compare_def fin by (simp add: sample_content_def deref_processor_def content_compare_def initialised_def)
  then have run: "perform sample_server 64 (new_action RECV) sample_receiving =
      Some (Inr (sample_receiving\<lparr>printed := [difference_message]\<rparr>))"
    by (simp add: perform.simps recv_action_def read_loop.simps sample_receiving_def fin new_action_def new_client_def)
  have "holds_body 200 (Counted b) (sample_content b)" for b
    by (simp add: sample_content_def holds_content_def content_holds_def)
  with difference_reported [OF _ run, of 200 "Counted [1, 2]" 200 "Counted [1, 3]"] run
  show "\<exists>c'. perform sample_server 64 (new_action RECV) sample_receiving = Some (Inr c') \<and> printed c' = [difference_message]"
    by (simp add: new_action_def sample_receiving_def new_client_def)
  have "compare (sample_chunked [1, 0, 2]) (sample_chunked [1, 0, 3]) = Inr 0"
    unfolding compare_def fin by (simp add: sample_chunked_def deref_processor_def chunked_compare_def)
  then have run: "perform sample_server 64 (new_action RECV) sample_receiving_chunks = Some (Inr sample_receiving_chunks)"
    by (simp add: perform.simps recv_action_def read_loop.simps sample_receiving_chunks_def fin new_action_def new_client_def)
  have "holds_body 200 (Chunked b) (sample_chunked b)" for b
    by (simp add: sample_chunked_def holds_chunks_def)
  with difference_reported [OF _ run, of 200 "Chunked [1, 0, 2]" 200 "Chunked [1, 0, 3]"] run
  show "\<exists>c'. perform sample_server 64 (new_action RECV) sample_receiving_chunks = Some (Inr c') \<and> printed c' = []"
    by (simp add: new_action_def sample_receiving_chunks_def new_client_def)
qed

definition sample_waiting :: http_client where
  "sample_waiting = (new_client sample_http_conversation [])\<lparr>expected := sample_content [1, 2]\<rparr>"

theorem short_first_read_undefined_witness:
  "perform (\<lambda>_ _. \<lparr>ret = 2, got = [72, 84], err = []\<rparr>) 64 (new_action RECV) sample_waiting =
    Some (Inl (Undefined_behaviour Null_dereference))"
proof (rule short_first_read_undefined)
  show "complete (expected sample_waiting) = Inr True"
    by (simp add: sample_waiting_def complete_def sample_content_def deref_processor_def content_complete_def)
  have "\<not> sublist header_end (map char_of_byte [72, 84])" by code_simp
  then show "\<not> sublist header_end (map char_of_byte (received_bytes \<lparr>ret = 2, got = [72, 84], err = []\<rparr>))"
    by (simp add: received_bytes_def)
qed (simp_all add: new_action_def sample_waiting_def new_client_def)

theorem content_reading_terminates_witness:
  "\<exists>r. read_loop sample_server 64 (sample_waiting\<lparr>test := (sample_content [])
      \<lparr>data_processor := Some (Content \<lparr>payload = [None], payload_size = 1, payload_read = 0\<rparr>)\<rparr>\<rparr>) = Some r"
proof (rule content_reading_terminates [OF sample_server_ok(2)])
  show "content_holds [] [0] \<lparr>payload = [None], payload_size = 1, payload_read = 0\<rparr>"
    by (simp add: content_holds_def)
qed (simp_all add: sample_content_def)

end
