(* ===== verification/Packet_Validator.thy ===== *)
theory Packet_Validator
  imports Actions Properties
begin

text \<open>
  src/src/lib/packet_validator.cc: the comparison of a recorded packet with the one received in the
  replay. The deprecated overload compares all bytes; the other one skips the substitution tokens
  of the action, whose expected text comes from a table. The lengths and indices are \<open>int\<close>s that
  stay far inside their range, so they are kept as integers.
\<close>

section \<open>The comparisons\<close>

text \<open>\<open>memcmp(p + i, q + j, n)\<close>: every byte of both ranges may be read.\<close>

definition memcmp_at :: "byte list \<Rightarrow> int \<Rightarrow> byte list \<Rightarrow> int \<Rightarrow> int \<Rightarrow> int result" where
  "memcmp_at p i q j n =
     (if i < 0 \<or> j < 0 \<or> n < 0 then Inl (Undefined_behaviour Out_of_bounds_read)
      else bind (read_bytes p (nat i) (nat n)) (\<lambda>a.
           bind (read_bytes q (nat j) (nat n)) (\<lambda>b. Inr (memcmp a b))))"

definition validate :: "byte list \<Rightarrow> int \<Rightarrow> byte list \<Rightarrow> int \<Rightarrow> bool result" where
  "validate expected expected_len actual actual_len =
     bind (if expected_len \<noteq> actual_len then Inr True
           else bind (memcmp_at expected 0 actual 0 expected_len) (\<lambda>c. Inr (c \<noteq> 0))) (\<lambda>differ.
       Inr (\<not> differ))"

text \<open>
  The loop over the tokens: \<open>None\<close> for \<open>return false\<close>, or the final values of \<open>actual_idx\<close> and
  \<open>start_idx\<close>.
\<close>

definition token_value ::
  "byte list \<Rightarrow> byte list \<Rightarrow> properties \<Rightarrow> sub_token \<Rightarrow> int \<Rightarrow> int \<Rightarrow> int option result" where
  "token_value expected actual context t actual_idx start_idx =
     (if props_contains (tok t) context then
        bind (props_get (tok t) context) (\<lambda>v.
        bind (memcmp_at (map byte_of_char v @ [0]) 0 actual start_idx (int (length v))) (\<lambda>c.
          Inr (if c \<noteq> 0 then None else Some (actual_idx + int (length v)))))
      else
        bind (memcmp_at expected start_idx actual actual_idx (end_idx t - begin_idx t)) (\<lambda>c.
          Inr (if c \<noteq> 0 then None else Some (actual_idx + (end_idx t - begin_idx t)))))"

fun token_loop ::
  "byte list \<Rightarrow> byte list \<Rightarrow> properties \<Rightarrow> sub_token list \<Rightarrow> int \<Rightarrow> int \<Rightarrow> (int \<times> int) option result" where
  "token_loop expected actual context [] actual_idx start_idx = Inr (Some (actual_idx, start_idx))"
| "token_loop expected actual context (t # ts) actual_idx start_idx =
     (let len = begin_idx t - start_idx
      in bind (if len > 0 then
                 bind (memcmp_at expected start_idx actual start_idx len) (\<lambda>c. Inr (c \<noteq> 0))
               else Inr False) (\<lambda>differ.
           if differ then Inr None
           else bind (token_value expected actual context t actual_idx start_idx) (\<lambda>r.
             case r of None \<Rightarrow> Inr None
             | Some idx \<Rightarrow> token_loop expected actual context ts idx (end_idx t))))"

text \<open>The last comparison reads the expected packet from its end on.\<close>

definition validate_tokens ::
  "byte list \<Rightarrow> int \<Rightarrow> byte list \<Rightarrow> int \<Rightarrow> sub_token list \<Rightarrow> properties \<Rightarrow> bool result" where
  "validate_tokens expected expected_len actual actual_len tokens context =
     bind (token_loop expected actual context tokens 0 0) (\<lambda>r.
       case r of None \<Rightarrow> Inr False
       | Some (actual_idx, start_idx) \<Rightarrow>
           let remaining_actual = actual_len - actual_idx;
               remaining_expected = expected_len - start_idx
           in if remaining_actual \<noteq> remaining_expected then Inr False
              else bind (memcmp_at actual actual_idx expected expected_len remaining_actual) (\<lambda>c.
                Inr (c = 0)))"

section \<open>Facts\<close>

lemma memcmp_at_ok:
  assumes "0 \<le> i" "0 \<le> j" "0 \<le> n" "nat (i + n) \<le> length p" "nat (j + n) \<le> length q"
  shows "memcmp_at p i q j n = Inr (memcmp (take (nat n) (drop (nat i) p)) (take (nat n) (drop (nat j) q)))"
  using assms by (simp add: memcmp_at_def nat_add_distrib)

lemma memcmp_at_past_end:
  "0 < n \<Longrightarrow> int (length q) \<le> j \<Longrightarrow> memcmp_at p i q j n = Inl (Undefined_behaviour Out_of_bounds_read)"
  by (auto simp: memcmp_at_def read_bytes_def)

lemma memcmp_at_error:
  "memcmp_at p i q j n = Inl e \<Longrightarrow> e = Undefined_behaviour Out_of_bounds_read"
  by (auto simp: memcmp_at_def read_bytes_def split: if_splits)

text \<open>What the exact comparison decides, for a message in the front part of the receive buffer.\<close>

lemma validate_exact:
  assumes "0 \<le> n" "nat n \<le> length buf"
  shows "validate e (int (length e)) buf n = Inr (e = take (nat n) buf)"
proof (cases "int (length e) = n")
  case True
  then have "memcmp_at e 0 buf 0 n = Inr (memcmp e (take (nat n) buf))"
    using assms by (subst memcmp_at_ok) auto
  moreover have "memcmp e (take (nat n) buf) = 0 \<longleftrightarrow> e = take (nat n) buf"
    using True assms(2) by (intro memcmp_eq_0) auto
  ultimately show ?thesis using True by (simp add: validate_def)
next
  case False
  moreover have "length (take (nat n) buf) = nat n" using assms(2) by simp
  then have "e \<noteq> take (nat n) buf" using False assms(1) by auto
  ultimately show ?thesis by (simp add: validate_def)
qed

section \<open>Properties\<close>

text \<open>
  The comparison used by the replay accepts a received message exactly where it equals the
  recorded one, whatever else the receive buffer holds, and reads no byte outside the two.
\<close>

theorem validation_exact:
  "validate e (int (length e)) (received @ unused) (int (length received)) = Inr (e = received)"
  by (subst validate_exact) auto

text \<open>
  C40. The comparison with tokens never compares the text behind the last token: it accepts only
  where the token ends both packets, and where equally many bytes remain it reads the expected
  packet past its end.
\<close>

theorem token_validation_tail:
  assumes "token_loop expected actual context ts 0 0 = Inr (Some (actual_idx, start_idx))"
    and "int (length expected) = expected_len" "actual_idx < actual_len"
  shows "validate_tokens expected expected_len actual actual_len ts context =
    (if actual_len - actual_idx = expected_len - start_idx
     then Inl (Undefined_behaviour Out_of_bounds_read) else Inr False)"
  using assms by (auto simp: validate_tokens_def memcmp_at_past_end)

section \<open>Witnesses\<close>

theorem token_validation_tail_witness:
  "validate_tokens [1, 2, 3] 3 [1, 2, 3] 3 [] [] = Inl (Undefined_behaviour Out_of_bounds_read)"
  using token_validation_tail [of "[1, 2, 3]" "[1, 2, 3]" "[]" "[]" 0 0 3 3] by simp

end
