(* ===== verification/Python_Api.thy ===== *)
theory Python_Api
  imports Prelude "HOL-Library.Sublist"
begin

text \<open>
  src/src/lib/python_api.cc and src/src/include/python_api.h: loading a Python function and calling
  it with two packets. What the interpreter does with a module, a function and its arguments is a
  parameter; the reference counts of the argument tuple and of the result are the state that the
  calls of \<open>Py_DECREF\<close> change. An object whose count reached zero is gone.
\<close>

section \<open>Paths\<close>

text \<open>The parts of \<open>std::filesystem::path\<close> that the constructor uses, for POSIX paths.\<close>

abbreviation slash :: char where "slash \<equiv> CHR ''/''"

definition path_filename :: "string \<Rightarrow> string" where
  "path_filename p = rev (takeWhile (\<lambda>c. c \<noteq> slash) (rev p))"

definition parent_path :: "string \<Rightarrow> string" where
  "parent_path p =
     (case dropWhile (\<lambda>c. c \<noteq> slash) (rev p) of
        [] \<Rightarrow> []
      | r \<Rightarrow> let d = rev (dropWhile (\<lambda>c. c = slash) r) in if d = [] then [slash] else d)"

definition path_extension :: "string \<Rightarrow> string" where
  "path_extension p =
     (let f = path_filename p; r = rev f
      in if f = ''.'' \<or> f = ''..'' then []
         else case dropWhile (\<lambda>c. c \<noteq> CHR ''.'') r of
                [] \<Rightarrow> []
              | [_] \<Rightarrow> []
              | _ \<Rightarrow> CHR ''.'' # rev (takeWhile (\<lambda>c. c \<noteq> CHR ''.'') r))"

definition path_stem :: "string \<Rightarrow> string" where
  "path_stem p = take (length (path_filename p) - length (path_extension p)) (path_filename p)"

section \<open>The interpreter\<close>

datatype py_value = Py_bool bool | Py_other

text \<open>What the embedded interpreter was told to do: its start, the commands it ran, and its end.\<close>

datatype py_event = Py_Initialize | Py_Run string | Py_Finalize

text \<open>
  \<open>py_import\<close>: whether a module can be imported after the commands run so far; \<open>py_has\<close>: whether it
  has the function; \<open>py_build\<close>: whether the arguments could be built; \<open>py_call\<close>: the returned object,
  if any, and the references to the argument tuple that the call left behind.
\<close>

record interpreter =
  py_import :: "py_event list \<Rightarrow> string \<Rightarrow> bool"
  py_has :: "string \<Rightarrow> string \<Rightarrow> bool"
  py_build :: "byte list \<Rightarrow> byte list \<Rightarrow> bool"
  py_call :: "string \<Rightarrow> string \<Rightarrow> byte list \<Rightarrow> byte list \<Rightarrow> (py_value \<times> nat) option"

record python_call =
  py_module :: string
  func_name :: string
  py_func :: bool

definition quote :: char where "quote = CHR 0x22"

definition sys_path_cmd :: "string \<Rightarrow> string" where
  "sys_path_cmd script =
     ''sys.path.append('' @ [quote] @ (if parent_path script = [] then ''.'' else parent_path script) @ [quote] @ '')''"

text \<open>
  The constructor: the commands it runs, then the import. Whether the attribute exists is not
  checked; \<open>py_func_\<close> is null where it does not.
\<close>

definition PythonCall :: "interpreter \<Rightarrow> py_event list \<Rightarrow> string \<Rightarrow> string \<Rightarrow> (py_event list \<times> python_call) result" where
  "PythonCall py run script func =
     (let cmds = run @ [Py_Run ''import sys'', Py_Run (sys_path_cmd script)]
      in if path_extension script \<noteq> ''.py'' then Inl (Runtime_error ''python file must end with .py'')
         else if \<not> py_import py cmds (path_stem script) then
           Inl (Runtime_error ''importing python module failed'')
         else Inr (cmds, \<lparr>py_module = path_stem script, func_name = func, py_func = py_has py (path_stem script) func\<rparr>))"

section \<open>The singleton\<close>

text \<open>\<open>instance__\<close>, and what the interpreter was told so far; the instance is never deleted.\<close>

record python_api =
  has_instance :: bool
  history :: "py_event list"

definition no_instance :: python_api where
  "no_instance = \<lparr>has_instance = False, history = []\<rparr>"

definition PythonApi :: "python_api \<Rightarrow> python_api" where
  "PythonApi api = api\<lparr>history := history api @ [Py_Initialize]\<rparr>"

text \<open>The destructor; no code deletes the instance.\<close>

definition destroy_PythonApi :: "python_api \<Rightarrow> python_api" where
  "destroy_PythonApi api = api\<lparr>history := history api @ [Py_Finalize]\<rparr>"

definition getInstance :: "python_api \<Rightarrow> python_api" where
  "getInstance api = (if has_instance api then api else (PythonApi api)\<lparr>has_instance := True\<rparr>)"

definition createValidateCall ::
  "interpreter \<Rightarrow> string \<Rightarrow> string \<Rightarrow> python_api \<Rightarrow> (python_api \<times> python_call) result" where
  "createValidateCall py script func api =
     bind (PythonCall py (history api) script func) (\<lambda>(run, c). Inr (api\<lparr>history := run\<rparr>, c))"

text \<open>The constructor of a Python validator (src/src/lib/packet_validator.cc).\<close>

definition PythonPacketValidator ::
  "interpreter \<Rightarrow> string \<Rightarrow> string \<Rightarrow> python_api \<Rightarrow> (python_api \<times> python_call) result" where
  "PythonPacketValidator py script func api = createValidateCall py script func (getInstance api)"

text \<open>The interpreter is started once, before the first command, and only when it is used.\<close>

definition started_once :: "python_api \<Rightarrow> bool" where
  "started_once api \<longleftrightarrow>
     (if has_instance api then \<exists>cmds. history api = Py_Initialize # map Py_Run cmds else history api = [])"

lemma no_instance_started [simp]: "started_once no_instance"
  by (simp add: started_once_def no_instance_def)

lemma getInstance_started: "started_once api \<Longrightarrow> started_once (getInstance api) \<and> has_instance (getInstance api)"
  by (auto simp: started_once_def getInstance_def PythonApi_def split: if_splits intro: exI [of _ "[]"])

lemma getInstance_idempotent: "getInstance (getInstance api) = getInstance api"
  by (simp add: getInstance_def)

lemma PythonPacketValidator_started:
  assumes "PythonPacketValidator py script func api = Inr (api', c)" "started_once api"
  shows "started_once api'"
proof -
  obtain cmds where cmds: "history (getInstance api) = Py_Initialize # map Py_Run cmds" "has_instance (getInstance api)"
    using getInstance_started [OF assms(2)] by (auto simp: started_once_def)
  have "history api' = Py_Initialize # map Py_Run (cmds @ [''import sys'', sys_path_cmd script])" "has_instance api'"
    using assms(1) cmds
    by (auto simp: PythonPacketValidator_def createValidateCall_def PythonCall_def result_simps Let_def split: if_splits)
  then show ?thesis by (auto simp: started_once_def simp del: map_append)
qed

section \<open>The call\<close>

text \<open>\<open>Py_DECREF\<close> on an object with so many references; \<open>0\<close> stands for an object that is gone.\<close>

definition decref :: "nat \<Rightarrow> nat result" where
  "decref n = (case n of 0 \<Rightarrow> Inl (Undefined_behaviour Use_after_free) | Suc m \<Rightarrow> Inr m)"

definition py_validate :: "interpreter \<Rightarrow> python_call \<Rightarrow> byte list \<Rightarrow> byte list \<Rightarrow> bool result" where
  "py_validate py c e a =
     (if \<not> py_build py e a then Inl (Runtime_error ''building python arguments failed'')
      else if \<not> py_func c then Inl (Undefined_behaviour Null_dereference)
      else
        case py_call py (py_module c) (func_name c) e a of
          None \<Rightarrow> Inl (Runtime_error ''caling python function failed'')
        | Some (v, kept) \<Rightarrow>
            let args = Suc kept; res = Suc 0
            in bind (decref args) (\<lambda>args.
               case v of
                 Py_other \<Rightarrow> Inl (Runtime_error (''python function '' @ func_name c @ '' must return bool''))
               | Py_bool b \<Rightarrow>
                   bind (decref args) (\<lambda>args.
                   bind (decref res) (\<lambda>res. Inr b))))"

section \<open>The destructors\<close>

text \<open>
  The constructor takes a reference to the function, if there is one, and the destructor gives it
  back; \<open>refs\<close> counts the references to the function object. Deleting a Python validator
  (src/src/lib/packet_validator.cc) deletes its call.
\<close>

definition PythonCall_takes :: "python_call \<Rightarrow> nat \<Rightarrow> nat" where
  "PythonCall_takes c refs = (if py_func c then Suc refs else refs)"

definition destroy_PythonCall :: "python_call \<Rightarrow> nat \<Rightarrow> nat result" where
  "destroy_PythonCall c refs = (if py_func c then decref refs else Inr refs)"

definition destroy_PythonPacketValidator :: "python_call \<Rightarrow> nat \<Rightarrow> nat result" where
  "destroy_PythonPacketValidator call refs = destroy_PythonCall call refs"

lemma destroy_balanced [simp]: "destroy_PythonPacketValidator c (PythonCall_takes c refs) = Inr refs"
  by (simp add: destroy_PythonPacketValidator_def destroy_PythonCall_def PythonCall_takes_def decref_def)

lemma destroy_twice: "py_func c \<Longrightarrow>
    bind (destroy_PythonPacketValidator c (PythonCall_takes c 0)) (destroy_PythonPacketValidator c) =
      Inl (Undefined_behaviour Use_after_free)"
  by (simp add: destroy_PythonPacketValidator_def destroy_PythonCall_def PythonCall_takes_def decref_def)

text \<open>A script in a directory, which is empty or ends with a slash.\<close>

lemma path_parts:
  assumes "dir = [] \<or> last dir = slash" "slash \<notin> set name" "name \<noteq> []"
  shows "path_extension (dir @ name @ ''.py'') = ''.py''" "path_stem (dir @ name @ ''.py'') = name"
proof -
  have n: "slash \<notin> set (rev (name @ ''.py''))" using assms(2) by simp
  have f: "path_filename (dir @ name @ ''.py'') = name @ ''.py''"
  proof (cases "dir = []")
    case True
    have "takeWhile (\<lambda>c. c \<noteq> slash) (rev (name @ ''.py'')) = rev (name @ ''.py'')"
      using n by (auto simp: takeWhile_eq_all_conv)
    then show ?thesis using True unfolding path_filename_def by (simp only: append_Nil rev_rev_ident)
  next
    case False
    then have "dir = butlast dir @ [slash]" using assms(1) by (metis append_butlast_last_id)
    then have "rev (dir @ name @ ''.py'') = rev (name @ ''.py'') @ slash # rev (butlast dir)"
      by (metis append.assoc append_Cons append_Nil rev_append rev_singleton_conv rev_rev_ident)
    moreover have "takeWhile (\<lambda>c. c \<noteq> slash) (rev (name @ ''.py'') @ slash # rev (butlast dir)) = rev (name @ ''.py'')"
      using n by (subst takeWhile_append2) auto
    ultimately show ?thesis unfolding path_filename_def by (simp only: rev_rev_ident)
  qed
  obtain x xs where x: "rev name = x # xs" using assms(3) by (cases "rev name") auto
  show e: "path_extension (dir @ name @ ''.py'') = ''.py''"
    unfolding path_extension_def f Let_def using assms(3) by (simp add: x)
  show "path_stem (dir @ name @ ''.py'') = name"
    unfolding path_stem_def e f by simp
qed

lemma double_release:
  assumes "py_build py e a" "py_func c" "py_call py (py_module c) (func_name c) e a = Some (Py_bool b, 0)"
  shows "py_validate py c e a = Inl (Undefined_behaviour Use_after_free)"
  using assms by (simp add: py_validate_def decref_def)

section \<open>Properties\<close>

text \<open>
  Validation by a Python function always ends in an undefined operation when it succeeds: the
  argument tuple is released twice, and where the called function kept no reference to it the second
  release is on an object that is gone.
\<close>

theorem python_validation_double_release:
  assumes "py_build py e a" "py_func c" "py_call py (py_module c) (func_name c) e a = Some (Py_bool b, 0)"
  shows "py_validate py c e a = Inl (Undefined_behaviour Use_after_free)"
  by (rule double_release [OF assms])

text \<open>
  A function that the module does not have is not reported: the constructor succeeds, and the
  first validation calls through a null pointer.
\<close>

theorem missing_function_unreported:
  assumes "dir = [] \<or> last dir = slash" "slash \<notin> set name" "name \<noteq> []"
    and "\<not> py_has py name func" "\<forall>cmds. py_import py cmds name" "py_build py e a"
  shows "\<exists>cmds c. PythonCall py run (dir @ name @ ''.py'') func = Inr (cmds, c) \<and>
    py_validate py c e a = Inl (Undefined_behaviour Null_dereference)"
  using assms(4-6) path_parts [OF assms(1-3)] by (simp add: PythonCall_def py_validate_def Let_def)

section \<open>Witnesses\<close>

definition sample_interpreter :: interpreter where
  "sample_interpreter =
     \<lparr>py_import = (\<lambda>_ m. m = ''check''), py_has = (\<lambda>_ f. f = ''same''), py_build = (\<lambda>_ _. True),
      py_call = (\<lambda>_ _ e a. Some (Py_bool (e = a), 0))\<rparr>"

theorem python_validation_double_release_witness:
  "py_validate sample_interpreter \<lparr>py_module = ''check'', func_name = ''same'', py_func = True\<rparr> [1] [1] =
    Inl (Undefined_behaviour Use_after_free)"
  by (rule python_validation_double_release) (simp_all add: sample_interpreter_def)

theorem missing_function_unreported_witness:
  "\<exists>cmds c. PythonCall sample_interpreter [] (''scripts/'' @ ''check'' @ ''.py'') ''other'' = Inr (cmds, c) \<and>
    py_validate sample_interpreter c [1] [1] = Inl (Undefined_behaviour Null_dereference)"
  by (rule missing_function_unreported) (simp_all add: sample_interpreter_def)

end
