(* ===== verification/Udp_Replay.thy ===== *)
theory Udp_Replay
  imports Sockets Packet_Validator Python_Api Udp_Conversation
begin

text \<open>
  src/src/udp_replay/udp_replay.cc and udp_replay.h: the client that replays a UDP conversation, the
  parser of the validator option, and the loop of \<open>main\<close> that hands one validator to the clients of
  all conversations. A Python validator is a loaded function; the interpreter is a parameter, and
  the state of the singleton that started it is threaded through.
\<close>

section \<open>Validators\<close>

datatype validator = Exact | Python python_call

text \<open>\<open>validator_->validate(expected, expected_len, data, nread)\<close>, a virtual call.\<close>

fun run_validator :: "interpreter \<Rightarrow> validator \<Rightarrow> byte list \<Rightarrow> byte list \<Rightarrow> bool result" where
  "run_validator py Exact e d = validate e (int (length e)) d (int (length d))"
| "run_validator py (Python c) e d = py_validate py c e d"

definition parseValidator :: "interpreter \<Rightarrow> python_api \<Rightarrow> string \<Rightarrow> (python_api \<times> validator) result" where
  "parseValidator py api spec =
     (let tokens = tokenize spec (CHR '':'');
          failure = Inl (Invalid_argument (''invalid validator spec '' @ [CHR 0x27] @ spec @ [CHR 0x27]))
      in if length tokens \<noteq> 3 then failure
         else if toLower (tokens ! 0) \<noteq> ''python'' then failure
         else bind (PythonPacketValidator py (tokens ! 1) (tokens ! 2) api) (\<lambda>(api', c). Inr (api', Python c)))"

lemma parseValidator_started:
  "parseValidator py api spec = Inr (api', v) \<Longrightarrow> started_once api \<Longrightarrow> started_once api'"
  by (auto simp: parseValidator_def Let_def result_simps PythonPacketValidator_started split: if_splits)

section \<open>The client\<close>

text \<open>
  The validator is owned by the client and freed by its destructor; \<open>v_alive\<close> says whether the
  object still exists.
\<close>

record udp_client =
  u_conv :: udp_conversation
  u_socket :: int
  u_validator :: validator
  v_alive :: bool
  u_log :: sys_log
  u_printed :: "string list"

definition UdpReplayClient ::
  "environment \<Rightarrow> udp_conversation \<Rightarrow> validator \<Rightarrow> bool \<Rightarrow> sys_log \<Rightarrow> string list \<Rightarrow> udp_client result" where
  "UdpReplayClient env c v alive l out =
     (case sys env (Sys_socket (getAddressFamily c) SOCK_DGRAM) l of (r, l1) \<Rightarrow>
        if ret r < 0 then Inl (Runtime_error (''socket failed: '' @ err r))
        else Inr \<lparr>u_conv = c, u_socket = ret r, u_validator = v, v_alive = alive, u_log = l1, u_printed = out\<rparr>)"

definition difference :: string where
  "difference = ''detected difference in server response''"

definition udp_send :: "environment \<Rightarrow> action \<Rightarrow> udp_client \<Rightarrow> udp_client result" where
  "udp_send env a c =
     (case sys env (Sys_sendto (u_socket c) (map byte_of_char (act_data a)) (getTestSockAddr (u_conv c))
                     (conv_getSockAddrSize (u_conv c))) (u_log c) of (r, l) \<Rightarrow>
        if ret r < 0 then Inl (Runtime_error (''sendto failed: '' @ err r)) else Inr (c\<lparr>u_log := l\<rparr>))"

definition udp_recv :: "environment \<Rightarrow> interpreter \<Rightarrow> action \<Rightarrow> udp_client \<Rightarrow> udp_client result" where
  "udp_recv env py a c =
     (case sys env (Sys_recvfrom (u_socket c) (length (act_data a) + 1024)) (u_log c) of (r, l) \<Rightarrow>
        if ret r < 0 then Inl (Runtime_error (''recvfrom failed: '' @ err r))
        else if \<not> v_alive c then Inl (Undefined_behaviour Use_after_free)
        else bind (run_validator py (u_validator c) (map byte_of_char (act_data a)) (received_bytes r)) (\<lambda>ok.
          Inr (c\<lparr>u_log := l, u_printed := u_printed c @ (if ok then [] else [difference])\<rparr>)))"

text \<open>The switch has no case for the two other types.\<close>

fun udp_perform :: "environment \<Rightarrow> interpreter \<Rightarrow> action \<Rightarrow> udp_client \<Rightarrow> udp_client result" where
  "udp_perform env py a c =
     (case act_type a of SEND \<Rightarrow> udp_send env a c | RECV \<Rightarrow> udp_recv env py a c | _ \<Rightarrow> Inr c)"

declare udp_perform.simps [simp del]

lemma udp_perform_conv: "udp_perform env py a c = Inr c' \<Longrightarrow> u_conv c' = u_conv c \<and> v_alive c' = v_alive c"
  by (auto simp: udp_perform.simps udp_send_def udp_recv_def sys_def Let_def result_simps
      split: action_type.splits if_splits)

text \<open>The loop over the queue; it ends because every iteration takes an action from the queue.\<close>

function udp_replay :: "environment \<Rightarrow> interpreter \<Rightarrow> udp_client \<Rightarrow> udp_client result" where
  "udp_replay env py c =
     (if actionEmpty (u_conv c) then Inr c
      else
        bind (actionFront (u_conv c)) (\<lambda>a.
        bind (udp_perform env py a c) (\<lambda>c1.
        bind (actionPop (u_conv c1)) (\<lambda>q.
          udp_replay env py (c1\<lparr>u_conv := q\<rparr>)))))"
  by pat_completeness auto
termination
proof (relation "measure (\<lambda>(_, _, c). length (action_queue (u_conv c)))", goal_cases)
  case (2 env py c a c1 q)
  then show ?case using udp_perform_conv conv_queue.pop_shorter [of "u_conv c"] by simp
qed simp

declare udp_replay.simps [simp del]

text \<open>The destructor: the socket is closed and the validator freed.\<close>

definition udp_destroy :: "environment \<Rightarrow> bool \<Rightarrow> int \<Rightarrow> sys_log \<Rightarrow> sys_log result" where
  "udp_destroy env alive fd l =
     (let l1 = (if fd \<ge> 0 then snd (sys env (Sys_close fd) l) else l)
      in if alive then Inr l1 else Inl (Undefined_behaviour Double_free))"

text \<open>
  The loop of \<open>main\<close>: a client for every conversation, all with the same validator. An exception of
  \<open>replay\<close> runs the destructor on its way out.
\<close>

fun replay_conversations ::
  "environment \<Rightarrow> interpreter \<Rightarrow> validator \<Rightarrow> bool \<Rightarrow> udp_conversation list \<Rightarrow> sys_log \<Rightarrow> string list \<Rightarrow>
     (sys_log \<times> string list) result" where
  "replay_conversations env py v alive [] l out = Inr (l, out)"
| "replay_conversations env py v alive (c # cs) l out =
     bind (UdpReplayClient env c v alive l out) (\<lambda>client.
       case udp_replay env py client of
         Inl (Undefined_behaviour u) \<Rightarrow> Inl (Undefined_behaviour u)
       | Inl e \<Rightarrow> (if alive then Inl e else Inl (Undefined_behaviour Double_free))
       | Inr client' \<Rightarrow>
           bind (udp_destroy env alive (u_socket client') (u_log client')) (\<lambda>l'.
             replay_conversations env py v False cs l' (u_printed client')))"

section \<open>What a replay does\<close>

text \<open>Documented behaviour of \<open>recvfrom\<close>: it returns the number of bytes it stored.\<close>

definition recv_filled :: "environment \<Rightarrow> bool" where
  "recv_filled env \<longleftrightarrow>
     (\<forall>l fd n. ret (env l (Sys_recvfrom fd n)) \<le> int (length (got (env l (Sys_recvfrom fd n)))))"

text \<open>The messages for a list of recorded and received datagrams.\<close>

definition reports :: "byte list list \<Rightarrow> byte list list \<Rightarrow> string list" where
  "reports es ds = concat (map2 (\<lambda>e d. if e = d then [] else [difference]) es ds)"

lemma udp_perform_effect:
  assumes "udp_perform env py a c = Inr c'"
  shows "u_validator c' = u_validator c \<and>
    sent_datagrams (u_log c') = sent_datagrams (u_log c) @
      map (\<lambda>d. (d, test_sock_addr (u_conv c))) (send_data [a]) \<and>
    (u_validator c = Exact \<longrightarrow>
      (\<exists>ds. received_datagrams (u_log c') = received_datagrams (u_log c) @ ds \<and>
         length ds = length (recv_data [a]) \<and> u_printed c' = u_printed c @ reports (recv_data [a]) ds))"
proof (cases "act_type a")
  case SEND
  with assms show ?thesis
    by (auto simp: udp_perform.simps udp_send_def sys_def Let_def reports_def split: if_splits)
next
  case RECV
  let ?call = "Sys_recvfrom (u_socket c) (length (act_data a) + 1024)"
  let ?d = "received_bytes (env (u_log c) ?call)"
  obtain ok where ok: "run_validator py (u_validator c) (map byte_of_char (act_data a)) ?d = Inr ok"
    "c' = c\<lparr>u_log := u_log c @ [(?call, env (u_log c) ?call)],
      u_printed := u_printed c @ (if ok then [] else [difference])\<rparr>"
    using assms RECV by (auto simp: udp_perform.simps udp_recv_def sys_def Let_def
        elim!: bindE split: if_splits simp del: run_validator.simps)
  have "ok \<longleftrightarrow> map byte_of_char (act_data a) = ?d" if "u_validator c = Exact"
    using ok(1) that validate_exact [of "int (length ?d)" ?d "map byte_of_char (act_data a)"] by simp
  with ok(2) RECV show ?thesis by (auto simp: reports_def)
qed (use assms in \<open>auto simp: udp_perform.simps reports_def\<close>)

lemma reports_append:
  "length es = length ds \<Longrightarrow> reports (es @ es') (ds @ ds') = reports es ds @ reports es' ds'"
  by (simp add: reports_def)

lemma udp_replay_effect:
  "udp_replay env py c = Inr c' \<Longrightarrow>
    actionEmpty (u_conv c') \<and>
    sent_datagrams (u_log c') = sent_datagrams (u_log c) @
      map (\<lambda>d. (d, test_sock_addr (u_conv c))) (send_data (action_queue (u_conv c))) \<and>
    (u_validator c = Exact \<longrightarrow>
      (\<exists>ds. received_datagrams (u_log c') = received_datagrams (u_log c) @ ds \<and>
         length ds = length (recv_data (action_queue (u_conv c))) \<and>
         u_printed c' = u_printed c @ reports (recv_data (action_queue (u_conv c))) ds))"
proof (induction env py c arbitrary: c' rule: udp_replay.induct)
  case (1 env py c)
  note loop = udp_replay.simps [of env py c]
  show ?case
  proof (cases "actionEmpty (u_conv c)")
    case True
    then have "action_queue (u_conv c) = []" by (simp add: conv_queue.is_empty)
    with True loop "1.prems" show ?thesis by (auto simp: reports_def)
  next
    case False
    obtain a q where a: "actionFront (u_conv c) = Inr a" "actionPop (u_conv c) = Inr q"
      "action_queue (u_conv c) = a # action_queue q"
      using False by (rule conv_queue.guarded_front_pop)
    obtain c1 where c1: "udp_perform env py a c = Inr c1"
      using "1.prems" loop False a(1) by (auto elim!: bindE)
    note e = udp_perform_effect [OF c1]
    have conv: "u_conv c1 = u_conv c" using udp_perform_conv [OF c1] by simp
    then have rec: "udp_replay env py (c1\<lparr>u_conv := q\<rparr>) = Inr c'"
      using "1.prems" loop False a c1 by simp
    have addr: "test_sock_addr q = test_sock_addr (u_conv c)"
      using a(2) by (auto simp: actionPop_def split: list.splits)
    note ih = "1.IH" [OF False a(1) c1 a(2) [folded conv] rec]
    have split: "send_data (action_queue (u_conv c)) = send_data [a] @ send_data (action_queue q)"
      "recv_data (action_queue (u_conv c)) = recv_data [a] @ recv_data (action_queue q)"
      using a(3) by simp_all
    have sent: "sent_datagrams (u_log c') = sent_datagrams (u_log c) @
        map (\<lambda>d. (d, test_sock_addr (u_conv c))) (send_data (action_queue (u_conv c)))"
      unfolding split using ih e addr by simp
    have "\<exists>ds. received_datagrams (u_log c') = received_datagrams (u_log c) @ ds \<and>
         length ds = length (recv_data (action_queue (u_conv c))) \<and>
         u_printed c' = u_printed c @ reports (recv_data (action_queue (u_conv c))) ds"
      if v: "u_validator c = Exact"
    proof -
      obtain ds where ds: "received_datagrams (u_log c1) = received_datagrams (u_log c) @ ds"
        "length ds = length (recv_data [a])" "u_printed c1 = u_printed c @ reports (recv_data [a]) ds"
        using e v by blast
      obtain ds' where ds': "received_datagrams (u_log c') = received_datagrams (u_log c1) @ ds'"
        "length ds' = length (recv_data (action_queue q))"
        "u_printed c' = u_printed c1 @ reports (recv_data (action_queue q)) ds'"
        using ih e v by auto
      have "reports (recv_data [a] @ recv_data (action_queue q)) (ds @ ds') =
          reports (recv_data [a]) ds @ reports (recv_data (action_queue q)) ds'"
        using ds(2) by (simp only: reports_append)
      then show ?thesis unfolding split using ds ds' by (intro exI [of _ "ds @ ds'"]) (simp only: append.assoc length_append)
    qed
    with sent ih show ?thesis by blast
  qed
qed

text \<open>
  A replay with the default validator returns when every datagram is taken and every answer comes:
  nothing else stops it.
\<close>

definition datagrams_pass :: "environment \<Rightarrow> bool" where
  "datagrams_pass env \<longleftrightarrow>
     (\<forall>l fam t. 0 \<le> ret (env l (Sys_socket fam t))) \<and>
     (\<forall>l fd bs a n. 0 \<le> ret (env l (Sys_sendto fd bs a n))) \<and>
     (\<forall>l fd n. 0 \<le> ret (env l (Sys_recvfrom fd n)))"

lemma datagrams_passD:
  assumes "datagrams_pass env"
  shows "\<not> ret (env l (Sys_socket fam t)) < 0" "\<not> ret (env l (Sys_sendto fd bs a n)) < 0"
    "\<not> ret (env l (Sys_recvfrom fd k)) < 0"
  using assms by (simp_all add: datagrams_pass_def not_less)

lemma run_exact: "run_validator py Exact e d = Inr (e = d)"
  using validate_exact [of "int (length d)" d e] by simp

lemma udp_perform_passes:
  assumes "datagrams_pass env" "v_alive c" "u_validator c = Exact"
  shows "\<exists>c1. udp_perform env py a c = Inr c1"
  using datagrams_passD [OF assms(1)] assms(2,3)
  by (cases "act_type a")
    (simp_all add: udp_perform.simps udp_send_def udp_recv_def sys_def Let_def run_exact del: run_validator.simps)

lemma udp_replay_returns:
  "datagrams_pass env \<Longrightarrow> v_alive c \<Longrightarrow> u_validator c = Exact \<Longrightarrow> \<exists>c'. udp_replay env py c = Inr c'"
proof (induction env py c rule: udp_replay.induct)
  case (1 env py c)
  note loop = udp_replay.simps [of env py c]
  show ?case
  proof (cases "actionEmpty (u_conv c)")
    case False
    obtain a q where a: "actionFront (u_conv c) = Inr a" "actionPop (u_conv c) = Inr q"
      using False by (rule conv_queue.guarded_front_pop)
    obtain c1 where c1: "udp_perform env py a c = Inr c1" using udp_perform_passes "1.prems" by blast
    have same: "u_conv c1 = u_conv c" "v_alive c1" "u_validator c1 = Exact"
      using udp_perform_conv [OF c1] udp_perform_effect [OF c1] "1.prems" by simp_all
    then have "\<exists>c'. udp_replay env py (c1\<lparr>u_conv := q\<rparr>) = Inr c'"
      using "1.IH" [OF False a(1) c1] a(2) "1.prems"(1) by simp
    then show ?thesis using loop False a c1 same(1) by simp
  qed (use loop in simp)
qed

lemma replay_conversations_return:
  assumes "datagrams_pass env"
  shows "\<exists>r. replay_conversations env py Exact True [c] l out = Inr r"
proof -
  obtain a where a: "UdpReplayClient env c Exact True l out = Inr a" "v_alive a" "u_validator a = Exact"
    using datagrams_passD(1) [OF assms] by (simp add: UdpReplayClient_def sys_def Let_def)
  then show ?thesis using udp_replay_returns [OF assms a(2,3), of py] by (auto simp: udp_destroy_def Let_def)
qed

text \<open>
  The loop of \<open>main\<close> ends normally for one conversation at most: the second client finds the
  validator gone when it is destroyed, if not before.
\<close>

lemma replay_conversations_Cons:
  assumes "replay_conversations env py v alive (c # cs) l out = Inr r"
  obtains a a' l1 where "UdpReplayClient env c v alive l out = Inr a" "udp_replay env py a = Inr a'"
    "udp_destroy env alive (u_socket a') (u_log a') = Inr l1"
    "replay_conversations env py v False cs l1 (u_printed a') = Inr r"
proof (cases "UdpReplayClient env c v alive l out")
  case (Inl e)
  with assms show thesis by simp
next
  case (Inr a)
  show thesis
  proof (cases "udp_replay env py a")
    case (Inl e)
    with assms Inr show thesis by (cases e; cases alive) simp_all
  next
    case a': (Inr a')
    with assms Inr that [OF Inr a'] show thesis by (auto elim!: bindE)
  qed
qed

lemma replay_conversations_freed: "replay_conversations env py v False (c # cs) l out \<noteq> Inr r"
  by (auto simp: udp_destroy_def simp del: replay_conversations.simps elim!: replay_conversations_Cons)

lemma replay_conversations_one:
  assumes "replay_conversations env py v True cs l out = Inr (l', out')"
  obtains "cs = []" "l' = l" "out' = out"
  | c a a' where "cs = [c]" "UdpReplayClient env c v True l out = Inr a" "udp_replay env py a = Inr a'"
    "udp_destroy env True (u_socket a') (u_log a') = Inr l'" "out' = u_printed a'"
proof (cases cs)
  case Nil
  with assms that(1) show thesis by simp
next
  case (Cons c cs')
  with assms obtain a a' l1 where a: "UdpReplayClient env c v True l out = Inr a" "udp_replay env py a = Inr a'"
    "udp_destroy env True (u_socket a') (u_log a') = Inr l1"
    "replay_conversations env py v False cs' l1 (u_printed a') = Inr (l', out')"
    by (auto elim: replay_conversations_Cons simp del: replay_conversations.simps)
  have "cs' = []" using a(4) replay_conversations_freed by (cases cs') auto
  with Cons a that(2) show thesis by simp
qed

section \<open>Properties\<close>

text \<open>
  C15. Replaying a UDP conversation sends every recorded client datagram once, whole and in order, to
  the test server, reads one datagram for every recorded answer, and reports exactly those that
  differ from the recorded one.
\<close>

theorem udp_replay_complete:
  assumes "UdpReplayClient env conv Exact True l [] = Inr c" "udp_replay env py c = Inr c'"
  shows "actionEmpty (u_conv c') \<and>
    sent_datagrams (u_log c') = sent_datagrams l @
      map (\<lambda>d. (d, test_sock_addr conv)) (send_data (action_queue conv)) \<and>
    (\<exists>ds. received_datagrams (u_log c') = received_datagrams l @ ds \<and>
       length ds = length (recv_data (action_queue conv)) \<and>
       u_printed c' = reports (recv_data (action_queue conv)) ds)"
proof -
  have "u_conv c = conv" "u_validator c = Exact" "u_printed c = []" "sent_datagrams (u_log c) = sent_datagrams l"
    "received_datagrams (u_log c) = received_datagrams l"
    using assms(1) by (auto simp: UdpReplayClient_def sys_def Let_def split: if_splits)
  with udp_replay_effect [OF assms(2)] show ?thesis by simp
qed

text \<open>
  The validator is freed by the client of every conversation: with two conversations or more the
  program cannot end normally. Once the first conversation is replayed and the second client exists,
  the freed validator is used or freed again.
\<close>

theorem shared_validator_double_free:
  assumes "UdpReplayClient env c1 v True l out = Inr a" "udp_replay env py a = Inr a'"
    and "udp_destroy env True (u_socket a') (u_log a') = Inr l'"
    and "UdpReplayClient env c2 v False l' (u_printed a') = Inr b"
  shows "\<exists>u. replay_conversations env py v True (c1 # c2 # cs) l out = Inl (Undefined_behaviour u)"
proof -
  have "replay_conversations env py v True (c1 # c2 # cs) l out =
      replay_conversations env py v False (c2 # cs) l' (u_printed a')"
    using assms(1-3) by simp
  also have "\<exists>u. \<dots> = Inl (Undefined_behaviour u)"
  proof (cases "udp_replay env py b")
    case (Inl e)
    with assms(4) show ?thesis by (cases e) simp_all
  next
    case (Inr b')
    with assms(4) show ?thesis by (simp add: udp_destroy_def)
  qed
  finally show ?thesis .
qed

text \<open>
  The validator option accepts exactly the three-part specifications of the type \<open>python\<close>, in
  any case, and loads the function it names; a specification of another type is refused.
\<close>

theorem validator_option_parsed:
  assumes "CHR '':'' \<notin> set t" "CHR '':'' \<notin> set file" "CHR '':'' \<notin> set func" "func \<noteq> []"
  shows "parseValidator py api (t @ '':'' @ file @ '':'' @ func) =
    (if toLower t = ''python''
     then bind (PythonPacketValidator py file func api) (\<lambda>(api', c). Inr (api', Python c))
     else Inl (Invalid_argument (''invalid validator spec '' @ [CHR 0x27] @ (t @ '':'' @ file @ '':'' @ func) @ [CHR 0x27])))"
proof -
  have "tokenize (join_colon [t, file, func]) (CHR '':'') = [t, file, func]"
    using assms by (intro tokenize_join) auto
  then show ?thesis by (simp add: parseValidator_def)
qed

text \<open>
  C38. Replaying with a Python validator cannot get past an answer: when a datagram is received and
  the loaded function judges it, the argument tuple is released twice and the program uses an object
  that is gone.
\<close>

theorem python_replay_undefined:
  assumes "act_type a = RECV" "u_validator c = Python f" "v_alive c"
    and "ret (env (u_log c) (Sys_recvfrom (u_socket c) (length (act_data a) + 1024))) \<ge> 0"
    and "py_func f" "\<And>e d. py_build py e d"
    and "\<And>e d. \<exists>b. py_call py (py_module f) (func_name f) e d = Some (Py_bool b, 0)"
  shows "udp_perform env py a c = Inl (Undefined_behaviour Use_after_free)"
proof -
  have "py_validate py f e d = Inl (Undefined_behaviour Use_after_free)" for e d
    using double_release [of py e d f] assms(5-7) by blast
  with assms(1-4) show ?thesis by (simp add: udp_perform.simps udp_recv_def sys_def Let_def)
qed

section \<open>Witnesses\<close>

text \<open>A server that answers every datagram with the same one.\<close>

definition udp_server :: environment where
  "udp_server l c =
     (case c of
        Sys_socket _ _ \<Rightarrow> \<lparr>ret = 3, got = [], err = []\<rparr>
      | Sys_recvfrom _ _ \<Rightarrow> \<lparr>ret = 2, got = [1, 2], err = []\<rparr>
      | _ \<Rightarrow> \<lparr>ret = 0, got = [], err = []\<rparr>)"

definition sample_udp_queue :: udp_conversation where
  "sample_udp_queue = sample_udp_conversation\<lparr>action_queue :=
     [new_action_data SEND ''q'', new_action_data RECV ''a'', new_action_data SEND ''r'']\<rparr>"

abbreviation no_python :: interpreter where "no_python \<equiv> sample_interpreter"

definition sample_udp_client :: udp_client where
  "sample_udp_client =
     \<lparr>u_conv = sample_udp_queue, u_socket = 3, u_validator = Exact, v_alive = True,
      u_log = [(Sys_socket (addr_family sample_udp_queue) SOCK_DGRAM, \<lparr>ret = 3, got = [], err = []\<rparr>)],
      u_printed = []\<rparr>"

lemma sample_udp_open: "UdpReplayClient udp_server sample_udp_queue Exact True [] [] = Inr sample_udp_client"
  by (simp add: UdpReplayClient_def sys_def Let_def udp_server_def sample_udp_client_def)

lemma sample_udp_run:
  "(case udp_replay udp_server no_python sample_udp_client of
      Inr c \<Rightarrow> u_printed c = [difference] \<and> u_socket c = 3 | _ \<Rightarrow> False)"
  by code_simp

theorem udp_replay_complete_witness:
  "\<exists>c'. udp_replay udp_server no_python sample_udp_client = Inr c' \<and>
    sent_datagrams (u_log c') = [([113], test_sock_addr sample_udp_queue), ([114], test_sock_addr sample_udp_queue)]"
proof -
  obtain c' where c': "udp_replay udp_server no_python sample_udp_client = Inr c'"
    using sample_udp_run by (auto split: sum.splits)
  have "map byte_of_char ''q'' = [113]" "map byte_of_char ''r'' = [114]" by code_simp+
  with udp_replay_complete [OF sample_udp_open c'] c' show ?thesis
    by (simp add: sample_udp_queue_def new_action_data_def)
qed

theorem shared_validator_double_free_witness:
  "\<exists>u. replay_conversations udp_server no_python Exact True [sample_udp_queue, sample_udp_queue] [] [] =
    Inl (Undefined_behaviour u)"
proof -
  obtain c' where c': "udp_replay udp_server no_python sample_udp_client = Inr c'"
    using sample_udp_run by (auto split: sum.splits)
  show ?thesis
    by (rule shared_validator_double_free [OF sample_udp_open c'])
      (simp_all add: udp_destroy_def UdpReplayClient_def sys_def udp_server_def Let_def)
qed

theorem validator_option_parsed_witness:
  "\<exists>api c. parseValidator sample_interpreter no_instance ''Python:check.py:same'' = Inr (api, Python c) \<and> py_func c"
proof -
  have "toLower ''Python'' = ''python''" by code_simp
  moreover have "path_extension ''check.py'' = ''.py''" "path_stem ''check.py'' = ''check''" by code_simp+
  ultimately show ?thesis
    using validator_option_parsed [of "''Python''" "''check.py''" "''same''" sample_interpreter no_instance]
    by (simp add: PythonPacketValidator_def createValidateCall_def getInstance_def no_instance_def PythonApi_def PythonCall_def sample_interpreter_def Let_def)
qed

theorem python_replay_undefined_witness:
  "udp_perform udp_server sample_interpreter (new_action_data RECV ''a'')
      (sample_udp_client\<lparr>u_validator := Python \<lparr>py_module = ''check'', func_name = ''same'', py_func = True\<rparr>\<rparr>) =
    Inl (Undefined_behaviour Use_after_free)"
  by (rule python_replay_undefined
      [where f = "\<lparr>py_module = ''check'', func_name = ''same'', py_func = True\<rparr>"])
    (simp_all add: new_action_data_def sample_udp_client_def udp_server_def sample_interpreter_def)

end
