(* ===== verification/Programs.thy ===== *)
theory Programs
  imports Capture Http_Replay Udp_Replay
begin

text \<open>
  The two programs: \<open>main\<close> of src/src/http_replay/http_replay.cc and of
  src/src/udp_replay/udp_replay.cc. The options that \<open>getopt\<close> finds and the operands behind them are
  given; the capture library, the system calls and Python are the parameters of the parts. An
  exception is caught and printed; an undefined operation is not.
\<close>

section \<open>Options\<close>

datatype cli_option = Opt_c string | Opt_k string | Opt_unknown

text \<open>How a program ends: with the lines it printed, with its usage, or with an error message.\<close>

datatype outcome = Done "string list" | Usage | Failed string

definition exit_code :: "outcome \<Rightarrow> int" where
  "exit_code o' = (case o' of Done _ \<Rightarrow> 0 | _ \<Rightarrow> -1)"

text \<open>\<open>catch (const std::exception& e)\<close>: the text is \<open>e.what()\<close>.\<close>

fun caught :: "(outcome \<times> sys_log) result \<Rightarrow> (outcome \<times> sys_log option) result" where
  "caught (Inr (r, l)) = Inr (r, Some l)"
| "caught (Inl (Undefined_behaviour u)) = Inl (Undefined_behaviour u)"
| "caught (Inl (Invalid_argument s)) = Inr (Failed s, None)"
| "caught (Inl (Out_of_range s)) = Inr (Failed s, None)"
| "caught (Inl (Runtime_error s)) = Inr (Failed s, None)"
| "caught (Inl Bad_array_new_length) = Inr (Failed ''std::bad_array_new_length'', None)"

section \<open>The HTTP program\<close>

fun http_options ::
  "inet6 \<Rightarrow> cli_option list \<Rightarrow> tcp_conversation store \<Rightarrow> tcp_conversation store option result" where
  "http_options n [] s = Inr (Some s)"
| "http_options n (Opt_c spec # os) s =
     bind (addTargetTestServer (TcpConversationFactory n) spec s) (http_options n os)"
| "http_options n (_ # os) s = Inr None"

text \<open>The loop over the conversations; \<open>Done\<close> collects what the clients printed.\<close>

fun http_replays ::
  "environment \<Rightarrow> nat \<Rightarrow> tcp_conversation list \<Rightarrow> sys_log \<Rightarrow> string list \<Rightarrow> (sys_log \<times> string list) result option" where
  "http_replays env bufsiz [] l out = Some (Inr (l, out))"
| "http_replays env bufsiz (c # cs) l out =
     obind (replay env bufsiz (new_client c l)) (\<lambda>client.
       http_replays env bufsiz cs (log client) (out @ printed client))"

definition http_run ::
  "environment \<Rightarrow> nat \<Rightarrow> inet6 \<Rightarrow> (string \<Rightarrow> string + pcap_handle) \<Rightarrow> cli_option list \<Rightarrow> string list \<Rightarrow>
     (outcome \<times> sys_log) result option" where
  "http_run env bufsiz n pcap_open opts operands =
     obind (Some (http_options n opts new_store)) (\<lambda>st.
       case (st, operands) of
         (Some s, [file]) \<Rightarrow>
           obind (Some (load_capture (TcpConversationFactory n) tcp_processCapturePacket pcap_open file
             \<lparr>conversation_store = s, datalink_type = 0\<rparr>)) (\<lambda>cap.
           obind (http_replays env bufsiz (getConversations (conversation_store cap)) [] []) (\<lambda>(l, out).
             Some (Inr (Done out, l))))
       | _ \<Rightarrow> Some (Inr (Usage, [])))"

definition http_main ::
  "environment \<Rightarrow> nat \<Rightarrow> inet6 \<Rightarrow> (string \<Rightarrow> string + pcap_handle) \<Rightarrow> cli_option list \<Rightarrow> string list \<Rightarrow>
     (outcome \<times> sys_log option) result option" where
  "http_main env bufsiz n pcap_open opts operands =
     map_option caught (http_run env bufsiz n pcap_open opts operands)"

section \<open>The UDP program\<close>

text \<open>
  A later \<open>-k\<close> replaces the validator; the earlier one is never freed. The state of the
  singleton that starts the interpreter is threaded through.
\<close>

fun udp_options ::
  "interpreter \<Rightarrow> inet6 \<Rightarrow> cli_option list \<Rightarrow> python_api \<Rightarrow> udp_conversation store \<Rightarrow> validator \<Rightarrow>
     (udp_conversation store \<times> validator) option result" where
  "udp_options py n [] api s v = Inr (Some (s, v))"
| "udp_options py n (Opt_c spec # os) api s v =
     bind (addTargetTestServer (UdpConversationFactory n) spec s) (\<lambda>s'. udp_options py n os api s' v)"
| "udp_options py n (Opt_k spec # os) api s v =
     bind (parseValidator py api spec) (\<lambda>(api', v'). udp_options py n os api' s v')"
| "udp_options py n (Opt_unknown # os) api s v = Inr None"

definition udp_run ::
  "environment \<Rightarrow> interpreter \<Rightarrow> inet6 \<Rightarrow> (string \<Rightarrow> string + pcap_handle) \<Rightarrow> cli_option list \<Rightarrow> string list \<Rightarrow>
     (outcome \<times> sys_log) result" where
  "udp_run env py n pcap_open opts operands =
     bind (udp_options py n opts no_instance new_store Exact) (\<lambda>sv.
       case (sv, operands) of
         (Some (s, v), [file]) \<Rightarrow>
           bind (load_capture (UdpConversationFactory n) udp_processCapturePacket pcap_open file
             \<lparr>conversation_store = s, datalink_type = 0\<rparr>) (\<lambda>cap.
           bind (replay_conversations env py v True (getConversations (conversation_store cap)) [] []) (\<lambda>(l, out).
             Inr (Done out, l)))
       | _ \<Rightarrow> Inr (Usage, []))"

definition udp_main ::
  "environment \<Rightarrow> interpreter \<Rightarrow> inet6 \<Rightarrow> (string \<Rightarrow> string + pcap_handle) \<Rightarrow> cli_option list \<Rightarrow> string list \<Rightarrow>
     (outcome \<times> sys_log option) result" where
  "udp_main env py n pcap_open opts operands = caught (udp_run env py n pcap_open opts operands)"

section \<open>What the HTTP program sends\<close>

text \<open>The bytes that the client of the first frame sent in the captured session.\<close>

definition client_bytes :: "wire \<Rightarrow> wire list \<Rightarrow> byte list" where
  "client_bytes syn ws =
     concat (map w_payload (filter (\<lambda>w. w_src w = w_src syn \<and> w_sport w = w_sport syn) ws))"

lemma send_data_append: "send_data (xs @ ys) = send_data xs @ send_data ys"
  by (simp add: send_data_def)

lemma send_data_wires:
  "concat (send_data (concat (map (data_actions (w_src syn) (htons (w_sport syn))) (map wire_segment ws)))) =
    client_bytes syn ws"
proof (induction ws)
  case Nil
  then show ?case by (simp add: client_bytes_def)
next
  case (Cons w ws)
  have "concat (send_data (data_actions (w_src syn) (htons (w_sport syn)) (wire_segment w))) =
      (if w_src w = w_src syn \<and> w_sport w = w_sport syn then w_payload w else [])"
    by (auto simp: data_actions_def wire_segment_def new_action_data_def comp_def)
  with Cons show ?case by (simp add: send_data_append client_bytes_def)
qed

section \<open>Properties\<close>

text \<open>
  C1. What the HTTP program, run on a capture without options, sends when it ends normally: where the
  frames of the first frame's flow are a handshake, segments without \<open>FIN\<close> and \<open>RST\<close>, the first
  segment with \<open>FIN\<close> and whatever follows it without a new \<open>SYN\<close> of the client's address, the
  bytes the writes took are the payloads of the client's segments from behind the handshake up to and
  including the first \<open>FIN\<close>, in order, whatever else was captured and whatever the answers were that
  let the program end normally. Payload on the handshake or behind the first \<open>FIN\<close> is not sent.
\<close>

theorem http_program_sends_captured:
  assumes "\<forall>w \<in> set (syn # ws). wire_ok w"
    and "filter (same_flow syn) (syn # ws) = [syn, synack, ack] @ ds @ [fin] @ after"
    and "handshake (w_src syn) (w_dst syn) (wire_segment syn) (wire_segment synack) (wire_segment ack)"
    and "\<forall>w \<in> set ds. w_flags w AND TH_RST = 0 \<and> w_flags w AND TH_FIN = 0"
    and "w_flags fin AND TH_RST = 0" "w_flags fin AND TH_FIN \<noteq> 0"
    and "\<forall>w \<in> set after. \<not> (w_src w = w_src syn \<and> w_flags w = TH_SYN)"
    and "pcap_open file = Inr (capture_of (syn # ws))"
    and "write_bounded env" "http_main env bufsiz n pcap_open [] [file] = Some (Inr (Done out, Some l))"
  shows "sent_bytes l = client_bytes syn (ds @ [fin])"
proof -
  obtain cap c where cap: "load_capture (TcpConversationFactory n) tcp_processCapturePacket pcap_open file
      \<lparr>conversation_store = new_store, datalink_type = 0\<rparr> = Inr cap"
    "getConversations (conversation_store cap) = [c]"
    "action_queue c = new_action CONNECT #
      concat (map (data_actions (w_src syn) (htons (w_sport syn))) (map wire_segment (ds @ [fin]))) @
      [new_action CLOSE]"
    using load_records_first_session [where n = n and pcap_open = pcap_open, OF assms(1-8)] by blast
  have "http_run env bufsiz n pcap_open [] [file] = Some (Inr (Done out, l))"
    using assms(10) unfolding http_main_def
    by (cases "http_run env bufsiz n pcap_open [] [file]") (auto elim!: caught.elims)
  then obtain c' where c': "replay env bufsiz (new_client c []) = Some (Inr c')" "l = log c'"
    using cap(1,2) by (auto simp: http_run_def elim!: obindE)
  have "sent_bytes l = concat (send_data (action_queue c))"
    using replay_result [OF c'(1)] assms(9) c'(2) by (simp add: new_client_def)
  moreover define recorded where "recorded =
    concat (map (data_actions (w_src syn) (htons (w_sport syn))) (map wire_segment (ds @ [fin])))"
  ultimately have "sent_bytes l = concat (send_data recorded)"
    unfolding cap(3) by (simp add: send_data_append new_action_def)
  then show ?thesis unfolding recorded_def send_data_wires .
qed

section \<open>Witnesses\<close>

text \<open>A capture of one request and one response, replayed against the sample server.\<close>

definition sample_http_capture :: "wire list" where
  "sample_http_capture =
     [sample_wire 1 700 2 80 0x02 [], sample_wire 2 80 1 700 0x12 [],
      sample_wire 1 700 2 80 0x10 [], sample_wire 1 700 2 80 0x18 [71],
      sample_wire 2 80 1 700 0x11 sample_response, sample_wire 1 700 2 80 0x11 [120]]"

lemma sample_response_taken:
  obtains q where "processData sample_response new_processor = Some (Inr q)" "complete (snd q) = Inr True"
    "compare (snd q) (snd q) = Inr 0"
proof -
  have "(case processData sample_response new_processor of
      Some (Inr q) \<Rightarrow> complete (snd q) = Inr True \<and> compare (snd q) (snd q) = Inr 0 | _ \<Rightarrow> False)"
    by code_simp
  then show thesis using that by (auto split: option.splits sum.splits)
qed

lemma sample_session_replays:
  assumes "action_queue c = [new_action CONNECT, new_action_data SEND ''G'',
    new_action_data RECV (map char_of_byte sample_response), new_action CLOSE]"
  shows "\<exists>c'. replay sample_server 64 (new_client c []) = Some (Inr c') \<and> printed c' = []"
proof -
  obtain q where q: "processData sample_response new_processor = Some (Inr q)" "complete (snd q) = Inr True"
    "compare (snd q) (snd q) = Inr 0" by (rule sample_response_taken)
  have w: "write_loop sample_server fd [b] 0 l = Inr (l @ [(Sys_write fd [b], \<lparr>ret = 1, got = [], err = []\<rparr>)])" for fd b l
    by (simp add: write_loop.simps sys_def Let_def sample_server_def)
  have r: "received_bytes \<lparr>ret = int (length sample_response), got = sample_response, err = []\<rparr> = sample_response"
    by (simp add: received_bytes_def)
  have n: "reset new_processor = new_processor" "complete new_processor = Inr False" "sample_response \<noteq> []"
    by code_simp+
  have m: "map byte_of_char (map char_of_byte sample_response) = sample_response" by (simp add: comp_def)
  let ?resp = "new_action_data RECV (map char_of_byte sample_response)"
  define at where "at = (\<lambda>p as l. \<lparr>conversation = c\<lparr>action_queue := as\<rparr>, socket = 3, expected = p, test = p,
      log = l, printed = []\<rparr>)"
  have s1: "\<exists>l. replay sample_server 64 (new_client c []) =
      replay sample_server 64 (at new_processor [new_action_data SEND ''G'', ?resp, new_action CLOSE] l)"
    by (subst replay_step [where a = "new_action CONNECT"])
      (auto simp: assms perform.simps new_action_def connect_action_def sys_def Let_def sample_server_def
        new_client_def at_def)
  have s2: "\<exists>l'. replay sample_server 64 (at new_processor [new_action_data SEND ''G'', ?resp, new_action CLOSE] l) =
      replay sample_server 64 (at new_processor [?resp, new_action CLOSE] l')" for l
    by (subst replay_step [where a = "new_action_data SEND ''G''"])
      (auto simp: perform.simps new_action_data_def send_action_def w n at_def)
  let ?R = "\<lparr>ret = int (length sample_response), got = sample_response, err = []\<rparr>"
  have rl: "read_loop sample_server 64 \<lparr>conversation = d, socket = 3, expected = snd q, test = new_processor,
        log = l, printed = []\<rparr> =
      Some (Inr \<lparr>conversation = d, socket = 3, expected = snd q, test = snd q,
        log = l @ [(Sys_read 3 64, ?R)], printed = []\<rparr>)" for d l
    using n q(1,2) r read_loop.simps [of sample_server 64 "\<lparr>conversation = d, socket = 3, expected = snd q,
        test = snd q, log = l @ [(Sys_read 3 64, ?R)], printed = []\<rparr>"]
    by (simp add: read_loop.simps [of sample_server 64 "\<lparr>conversation = d, socket = 3, expected = snd q,
        test = new_processor, log = l, printed = []\<rparr>"] sample_server_def Let_def)
  have s3: "\<exists>l'. replay sample_server 64 (at new_processor [?resp, new_action CLOSE] l) =
      replay sample_server 64 (at (snd q) [new_action CLOSE] l')" for l
  proof -
    have "perform sample_server 64 ?resp (at new_processor [?resp, new_action CLOSE] l) =
      Some (Inr \<lparr>conversation = c\<lparr>action_queue := [?resp, new_action CLOSE]\<rparr>, socket = 3, expected = snd q,
        test = snd q, log = l @ [(Sys_read 3 64, ?R)], printed = []\<rparr>)"
      using n(2) m q rl by (simp add: perform.simps new_action_data_def recv_action_def at_def)
    from replay_step [OF _ this, of "[new_action CLOSE]"] show ?thesis by (auto simp: at_def)
  qed
  have s4: "\<exists>c'. replay sample_server 64 (at (snd q) [new_action CLOSE] l) = Some (Inr c') \<and> printed c' = []" for l
    by (subst replay_step [where a = "new_action CLOSE"])
      (auto simp: perform.simps new_action_def close_action_def at_def replay_end)
  show ?thesis using s1 s2 s3 s4 by metis
qed

abbreviation sample_http_run :: "(outcome \<times> sys_log option) result option" where
  "sample_http_run \<equiv>
     http_main sample_server 64 sample_inet6 (\<lambda>_. Inr (capture_of sample_http_capture)) [] [''a.pcap'']"

lemma sample_http_session:
  defines "syn \<equiv> sample_wire 1 700 2 80 0x02 []" and "synack \<equiv> sample_wire 2 80 1 700 0x12 []"
    and "ack \<equiv> sample_wire 1 700 2 80 0x10 []" and "ds \<equiv> [sample_wire 1 700 2 80 0x18 [71]]"
    and "fin \<equiv> sample_wire 2 80 1 700 0x11 sample_response" and "after \<equiv> [sample_wire 1 700 2 80 0x11 [120]]"
  shows "\<forall>w \<in> set (syn # tl sample_http_capture). wire_ok w"
    "filter (same_flow syn) (syn # tl sample_http_capture) = [syn, synack, ack] @ ds @ [fin] @ after"
    "handshake (w_src syn) (w_dst syn) (wire_segment syn) (wire_segment synack) (wire_segment ack)"
    "\<forall>w \<in> set ds. w_flags w AND TH_RST = 0 \<and> w_flags w AND TH_FIN = 0"
    "w_flags fin AND TH_RST = 0" "w_flags fin AND TH_FIN \<noteq> 0"
    "\<forall>w \<in> set after. \<not> (w_src w = w_src syn \<and> w_flags w = TH_SYN)"
    "(\<lambda>_ :: string. Inr (capture_of sample_http_capture)) ''a.pcap'' =
      (Inr (capture_of (syn # tl sample_http_capture)) :: string + pcap_handle)"
proof -
  have "length sample_response < 100" by code_simp
  then show "\<forall>w \<in> set (syn # tl sample_http_capture). wire_ok w"
    by (simp add: sample_http_capture_def sample_wire_ok syn_def)
  show "filter (same_flow syn) (syn # tl sample_http_capture) = [syn, synack, ack] @ ds @ [fin] @ after"
    by (simp add: sample_http_capture_def sample_same_flow syn_def synack_def ack_def ds_def fin_def after_def)
  show "handshake (w_src syn) (w_dst syn) (wire_segment syn) (wire_segment synack) (wire_segment ack)"
    "\<forall>w \<in> set ds. w_flags w AND TH_RST = 0 \<and> w_flags w AND TH_FIN = 0"
    "w_flags fin AND TH_RST = 0" "w_flags fin AND TH_FIN \<noteq> 0"
    "\<forall>w \<in> set after. \<not> (w_src w = w_src syn \<and> w_flags w = TH_SYN)"
    unfolding syn_def synack_def ack_def ds_def fin_def after_def by code_simp+
  show "(\<lambda>_ :: string. Inr (capture_of sample_http_capture)) ''a.pcap'' =
      (Inr (capture_of (syn # tl sample_http_capture)) :: string + pcap_handle)"
    by (simp add: sample_http_capture_def syn_def)
qed

lemma sample_http_loaded:
  obtains cap c where "load_capture (TcpConversationFactory sample_inet6) tcp_processCapturePacket
      (\<lambda>_. Inr (capture_of sample_http_capture)) ''a.pcap'' \<lparr>conversation_store = new_store, datalink_type = 0\<rparr> = Inr cap"
    "getConversations (conversation_store cap) = [c]"
    "action_queue c = [new_action CONNECT, new_action_data SEND ''G'',
      new_action_data RECV (map char_of_byte sample_response), new_action CLOSE]"
proof -
  have acts: "new_action CONNECT # concat (map (data_actions (w_src (sample_wire 1 700 2 80 0x02 [])) (htons (w_sport (sample_wire 1 700 2 80 0x02 []))))
      (map wire_segment ([sample_wire 1 700 2 80 0x18 [71]] @ [sample_wire 2 80 1 700 0x11 sample_response]))) @ [new_action CLOSE] =
      [new_action CONNECT, new_action_data SEND ''G'', new_action_data RECV (map char_of_byte sample_response),
        new_action CLOSE]"
    by code_simp
  show thesis
    using load_records_first_session [OF sample_http_session, of sample_inet6] that unfolding acts by blast
qed

lemma sample_http_ends: "\<exists>l. sample_http_run = Some (Inr (Done [], Some l))"
proof -
  obtain cap c where c: "load_capture (TcpConversationFactory sample_inet6) tcp_processCapturePacket
      (\<lambda>_. Inr (capture_of sample_http_capture)) ''a.pcap'' \<lparr>conversation_store = new_store, datalink_type = 0\<rparr> = Inr cap"
    "getConversations (conversation_store cap) = [c]"
    "action_queue c = [new_action CONNECT, new_action_data SEND ''G'',
      new_action_data RECV (map char_of_byte sample_response), new_action CLOSE]"
    by (rule sample_http_loaded)
  show ?thesis using sample_session_replays [OF c(3)] c(1,2) by (auto simp: http_main_def http_run_def)
qed

theorem http_program_sends_captured_witness:
  "\<exists>l. sample_http_run = Some (Inr (Done [], Some l)) \<and> sent_bytes l = [71]"
proof -
  obtain l where l: "sample_http_run = Some (Inr (Done [], Some l))" using sample_http_ends by blast
  have "sent_bytes l = client_bytes (sample_wire 1 700 2 80 0x02 [])
      ([sample_wire 1 700 2 80 0x18 [71]] @ [sample_wire 2 80 1 700 0x11 sample_response])"
    by (rule http_program_sends_captured [OF sample_http_session sample_server_ok(1) l])
  then show ?thesis using l by (simp add: client_bytes_def sample_wire_def)
qed

end
