(* ===== verification/Dissected_Packets.thy ===== *)
theory Dissected_Packets
  imports Capture
begin

text \<open>
  What the dissector hands to the rest of the program, and the ways a capture can fail. The
  recorders and the factory cast a packet's layers with \<open>dynamic_cast\<close> and use the result unchecked,
  and the layer classes for specifications throw on every access to a packet; that neither goes
  wrong is a property of the packets that \<open>Capture::packetHandler\<close> builds
  (src/src/lib/capture.cc).
\<close>

section \<open>Bounding the failures of a sequence of steps\<close>

definition fails_only :: "error set \<Rightarrow> 'a result \<Rightarrow> bool" where
  "fails_only E r \<longleftrightarrow> (\<forall>e. r = Inl e \<longrightarrow> e \<in> E)"

lemma fails_only_simps [simp]:
  "fails_only E (Inl e) \<longleftrightarrow> e \<in> E" "fails_only E (Inr x)"
  by (simp_all add: fails_only_def)

lemma fails_only_bind [simp]:
  "fails_only E (bind r f) \<longleftrightarrow> fails_only E r \<and> (\<forall>x. r = Inr x \<longrightarrow> fails_only E (f x))"
  by (cases r) simp_all

lemma fails_only_mono: "fails_only E r \<Longrightarrow> E \<subseteq> F \<Longrightarrow> fails_only F r"
  by (auto simp: fails_only_def)

lemma fails_only_and_then [simp]:
  "fails_only E a \<Longrightarrow> fails_only E b \<Longrightarrow> fails_only E (and_then a b)"
  by (simp add: and_then_def)

lemma fails_only_fold:
  assumes "P s" "\<And>x s. x \<in> set xs \<Longrightarrow> P s \<Longrightarrow> fails_only E (f x s)"
    and "\<And>x s t. x \<in> set xs \<Longrightarrow> P s \<Longrightarrow> f x s = Inr t \<Longrightarrow> P t"
  shows "fails_only E (fold_result f xs s)"
  using assms
proof (induction xs arbitrary: s)
  case Nil
  then show ?case by simp
next
  case (Cons x xs)
  have "fails_only E (fold_result f xs t)" if "f x s = Inr t" for t
    using Cons.prems that by (intro Cons.IH) (meson list.set_intros)+
  with Cons.prems show ?case by simp
qed

text \<open>Reading beyond the captured bytes, and a payload of negative length.\<close>

definition memory_errors :: "error set" where
  "memory_errors = {Undefined_behaviour Out_of_bounds_read, Undefined_behaviour Invalid_range}"

definition not_captured :: error where
  "not_captured = Runtime_error ''packet not fully captured.  increase snap length on capture''"

lemma reads_fail [simp]:
  "fails_only memory_errors (read8 p i)" "fails_only memory_errors (read_bytes p i n)"
  "fails_only memory_errors (load16 p i)" "fails_only memory_errors (new_action_range t p k)"
  by (auto simp: read8_def read_bytes_def load16_def new_action_range_def memory_errors_def)

section \<open>Dissected packets\<close>

definition on_wire :: "layer3 \<Rightarrow> bool" where
  "on_wire l3 \<longleftrightarrow> l3 \<noteq> IpLayerSpec \<and> l3 \<noteq> IpV6LayerSpec"

definition well_formed :: "transport_packet \<Rightarrow> bool" where
  "well_formed p \<longleftrightarrow>
     length (layers p) = 4 \<and>
     (\<exists>l3. getLayer p NETWORK = Inr (Some (Net l3)) \<and> on_wire l3) \<and>
     (\<exists>l4. getLayer p TRANSPORT = Inr (Some (Trans l4)))"

lemma link_layer_shape:
  "link_layer link h bytes = Inr (Some (net, p)) \<Longrightarrow> on_wire net \<and> length (layers p) = 4"
  by (auto simp: link_layer_def result_simps on_wire_def new_packet_def addLayer_def Let_def split: if_splits)

lemma dissect_shape:
  assumes "dissect link h bytes = Inr (Some p)"
  obtains net q l4 where "link_layer link h bytes = Inr (Some (net, q))"
    "p = addLayer (Trans l4) (addLayer (Net net) q)"
proof -
  obtain r where r: "link_layer link h bytes = Inr r"
      "(case r of None \<Rightarrow> Inr None | Some (net, q) \<Rightarrow> add_transport net (addLayer (Net net) q)) = Inr (Some p)"
    using assms by (auto simp: dissect_def result_simps split: if_splits)
  then obtain net q where nq: "link_layer link h bytes = Inr (Some (net, q))"
    "add_transport net (addLayer (Net net) q) = Inr (Some p)"
    by (auto split: option.splits)
  then obtain l4 where "p = addLayer (Trans l4) (addLayer (Net net) q)"
    by (auto simp: add_transport_def result_simps split: if_splits)
  with nq(1) show thesis by (rule that)
qed

lemma dissect_well_formed:
  assumes "dissect link h bytes = Inr (Some p)"
  shows "well_formed p"
proof -
  obtain net q l4 where s: "link_layer link h bytes = Inr (Some (net, q))"
    "p = addLayer (Trans l4) (addLayer (Net net) q)"
    using assms by (rule dissect_shape)
  note q = link_layer_shape [OF s(1)]
  have "length (layers (addLayer (Net net) q)) = 4" using q by (simp add: addLayer_def)
  with q show ?thesis
    unfolding well_formed_def s(2) by (simp add: getLayer_addLayer) (simp add: addLayer_def)
qed

lemma well_formed_layers:
  assumes "well_formed p"
  obtains l3 l4 where "network_layer p = Inr l3" "on_wire l3" "transport_layer p = Inr l4"
    "getLayer p NETWORK = Inr (Some (Net l3))" "getLayer p TRANSPORT = Inr (Some (Trans l4))"
  using assms by (auto simp: well_formed_def network_layer_def transport_layer_def)

text \<open>No accessor of a layer that came off the wire is unsupported.\<close>

lemma on_wire_accessors:
  assumes "on_wire l3"
  shows "fails_only memory_errors (getNextProtocol l3)" "fails_only memory_errors (getData3 l3)"
    "fails_only memory_errors (getDataSize3 l3)" "fails_only memory_errors (getSrcAddr l3)"
    "fails_only memory_errors (getDestAddr l3)" "fails_only memory_errors (getSrcAddrStr n l3)"
  using assms by (cases l3; simp add: on_wire_def ip_hl4_def)+

lemma transport_accessors [simp]:
  "fails_only memory_errors (getSrcPort l4)" "fails_only memory_errors (getDestPort l4)"
  "fails_only memory_errors (tcp_off4 l)" "fails_only memory_errors (tcp_getData l)"
  "fails_only memory_errors (tcp_getDataSize l)" "fails_only memory_errors (getFlags l)"
  "fails_only memory_errors (hasFlag f l)" "fails_only memory_errors (udp_getDataSize l)"
  by (cases l4; simp)+
    (simp_all add: tcp_off4_def tcp_getData_def tcp_getDataSize_def getFlags_def hasFlag_def udp_getDataSize_def)

lemma flag_accessors [simp]:
  "fails_only memory_errors (hasSyn l)" "fails_only memory_errors (hasAck l)"
  "fails_only memory_errors (hasRst l)" "fails_only memory_errors (hasFin l)"
  by (simp_all add: hasSyn_def hasAck_def hasRst_def hasFin_def)

lemma dissect_fails: "fails_only (insert not_captured memory_errors) (dissect link h bytes)"
proof (cases "caplen h = len h")
  case False
  then show ?thesis by (simp add: dissect_def not_captured_def)
next
  case True
  have link: "fails_only memory_errors (link_layer link h bytes)"
    by (simp add: link_layer_def eth_getEtherType_def Let_def)
  have "fails_only memory_errors (add_transport net q)" if "on_wire net" for net q
    using on_wire_accessors [OF that] by (simp add: add_transport_def)
  then have "fails_only memory_errors (dissect link h bytes)"
    using True link link_layer_shape unfolding dissect_def by (force split: option.split)
  then show ?thesis by (rule fails_only_mono) blast
qed

section \<open>The factory and the recorders\<close>

text \<open>A conversation knows the two addresses of the packet that opened it.\<close>

definition addresses_known :: "'a packet_conversation_scheme \<Rightarrow> bool" where
  "addresses_known c \<longleftrightarrow> cap_src_addr c \<noteq> None \<and> cap_dest_addr c \<noteq> None"

lemma src_is_fails: "on_wire l3 \<Longrightarrow> a \<noteq> None \<Longrightarrow> fails_only memory_errors (src_is l3 a n)"
  using on_wire_accessors [of l3] by (cases a) (simp_all add: src_is_def)

lemma packet_keys_fail:
  assumes "well_formed p"
  shows "fails_only memory_errors (tcpIpGetKey p)"
    "fails_only memory_errors (tcpIpGetTargetTestServerKeys n p)"
    "fails_only memory_errors (conversation_from_packet n p t)"
proof -
  obtain l3 l4 where l: "network_layer p = Inr l3" "on_wire l3" "transport_layer p = Inr l4"
    using assms by (rule well_formed_layers)
  note acc = on_wire_accessors [OF l(2)]
  show "fails_only memory_errors (tcpIpGetKey p)"
    using l acc by (simp add: tcpIpGetKey_def packet_flow_def del: getSrcPort.simps getDestPort.simps)
  show "fails_only memory_errors (tcpIpGetTargetTestServerKeys n p)"
    using l acc by (simp add: tcpIpGetTargetTestServerKeys_def)
  show "fails_only memory_errors (conversation_from_packet n p t)"
    using l acc by (simp add: conversation_from_packet_def Let_def split: prod.split)
qed

lemma tcp_handlers_fail:
  assumes "on_wire l3" "addresses_known c"
  shows "fails_only memory_errors (closeProcessCapturePacket l3 tcp c)"
    "fails_only memory_errors (synSentProcessCapturePacket l3 tcp c)"
    "fails_only memory_errors (synRecvProcessCapturePacket l3 tcp c)"
    "fails_only memory_errors (estProcessCapturePacket l3 tcp c)"
  using assms src_is_fails
  by (simp_all add: closeProcessCapturePacket_def synSentProcessCapturePacket_def
      synRecvProcessCapturePacket_def estProcessCapturePacket_def src_port_is_def addresses_known_def Let_def)

lemma tcp_process_fails:
  assumes "well_formed p" "addresses_known c"
  shows "fails_only memory_errors (tcp_processCapturePacket p c)"
proof -
  obtain l3 l4 where l: "network_layer p = Inr l3" "on_wire l3"
    "getLayer p TRANSPORT = Inr (Some (Trans l4))"
    using assms(1) by (rule well_formed_layers)
  show ?thesis
    using l tcp_handlers_fail [OF l(2) assms(2)]
    by (cases l4; cases "cap_tcp_state c") (simp_all add: tcp_processCapturePacket_def Let_def)
qed

lemma udp_process_fails:
  assumes "well_formed p" "addresses_known c"
  shows "fails_only memory_errors (udp_processCapturePacket p c)"
proof -
  obtain l3 l4 where l: "on_wire l3" "getLayer p NETWORK = Inr (Some (Net l3))"
    "getLayer p TRANSPORT = Inr (Some (Trans l4))"
    using assms(1) by (rule well_formed_layers)
  show ?thesis
    using l src_is_fails [OF l(1)] assms(2)
    by (cases l4) (simp_all add: udp_processCapturePacket_def addresses_known_def)
qed

lemma conversation_knows: "conversation_from_packet n p t = Inr c \<Longrightarrow> addresses_known c"
  by (cases t) (auto simp: conversation_from_packet_def result_simps addresses_known_def)

lemma tcp_from_packet_knows: "tcp_from_packet n p t = Inr c \<Longrightarrow> addresses_known c"
  by (auto simp: tcp_from_packet_def result_simps addresses_known_def packet_conversation.defs
      dest!: conversation_knows)

lemma tcp_handlers_know:
  "closeProcessCapturePacket l3 tcp c = Inr c' \<Longrightarrow> addresses_known c \<Longrightarrow> addresses_known c'"
  "synSentProcessCapturePacket l3 tcp c = Inr c' \<Longrightarrow> addresses_known c \<Longrightarrow> addresses_known c'"
  "synRecvProcessCapturePacket l3 tcp c = Inr c' \<Longrightarrow> addresses_known c \<Longrightarrow> addresses_known c'"
  "estProcessCapturePacket l3 tcp c = Inr c' \<Longrightarrow> addresses_known c \<Longrightarrow> addresses_known c'"
  by (auto simp: closeProcessCapturePacket_def synSentProcessCapturePacket_def
      synRecvProcessCapturePacket_def estProcessCapturePacket_def close_socket_def addresses_known_def Let_def
      elim!: bindE split: if_splits)

lemma tcp_process_knows:
  assumes "tcp_processCapturePacket p c = Inr c'" "addresses_known c"
  shows "addresses_known c'"
proof -
  obtain t where t: "getLayer p TRANSPORT = Inr t"
    using assms(1) by (auto simp: tcp_processCapturePacket_def elim!: bindE)
  show ?thesis
  proof (cases "as_tcp t")
    case None
    with assms t show ?thesis by (simp add: tcp_processCapturePacket_def)
  next
    case (Some tcp)
    with assms(1) t obtain rst where "hasRst tcp = Inr rst"
      by (auto simp: tcp_processCapturePacket_def elim!: bindE)
    with assms t Some tcp_handlers_know [of _ tcp c c'] show ?thesis
      by (cases rst; cases "cap_tcp_state c")
        (auto simp: tcp_processCapturePacket_def close_socket_def addresses_known_def Let_def elim!: bindE)
  qed
qed

lemma udp_process_knows:
  assumes "udp_processCapturePacket p c = Inr c'" "addresses_known c"
  shows "addresses_known c'"
  using assms
  by (auto simp: udp_processCapturePacket_def addresses_known_def elim!: bindE split: option.splits)

section \<open>The store\<close>

text \<open>The packet handler and a whole load keep the invariant of the store.\<close>

context recorder
begin

lemma packetHandler_ok:
  assumes "packetHandler factory process frame cap = Inr cap'" "store_ok good (conversation_store cap)"
  shows "store_ok good (conversation_store cap')"
proof -
  obtain r where r: "dissect (datalink_type cap) (fst frame) (snd frame) = Inr r"
    using assms(1) by (auto simp: packetHandler_def elim!: bindE)
  show ?thesis
  proof (cases r)
    case None
    with r assms show ?thesis by (simp add: packetHandler_def)
  next
    case (Some p)
    with r assms(1) obtain s where "store_packet factory process p (conversation_store cap) = Inr s"
      "cap' = cap\<lparr>conversation_store := s\<rparr>"
      by (auto simp: packetHandler_def elim!: bindE)
    with store_packet_ok assms(2) show ?thesis by auto
  qed
qed

lemma load_ok:
  assumes "load_capture factory process pcap_open file cap = Inr cap'" "store_ok good (conversation_store cap)"
  shows "store_ok good (conversation_store cap')"
proof -
  obtain frames type where "fold_result (packetHandler factory process) frames (cap\<lparr>datalink_type := type\<rparr>) = Inr cap'"
    using assms(1) by (auto simp: load_capture_def elim!: bindE split: sum.splits if_splits)
  then show ?thesis
    by (rule fold_result_invariant [where P = "\<lambda>c. store_ok good (conversation_store c)"])
      (use assms(2) packetHandler_ok in auto)
qed

end

text \<open>
  A conversation class that handles every dissected packet without failing other than by a
  memory error; the store and the packet handler inherit it.
\<close>

locale safe_recorder = recorder +
  assumes key_fails: "well_formed p \<Longrightarrow> fails_only memory_errors (getKey factory p)"
    and server_keys_fail: "well_formed p \<Longrightarrow> fails_only memory_errors (getTargetTestServerKeys factory p)"
    and create_fails: "well_formed p \<Longrightarrow> fails_only memory_errors (createConversation factory p t)"
    and process_fails: "well_formed p \<Longrightarrow> good c \<Longrightarrow> fails_only memory_errors (process p c)"
begin

lemma getConversation_fails: "well_formed p \<Longrightarrow> fails_only memory_errors (getConversation factory p s)"
  by (simp add: getConversation_def key_fails server_keys_fail create_fails split: prod.split)

lemma store_packet_fails:
  assumes "well_formed p" "store_ok good s"
  shows "fails_only memory_errors (store_packet factory process p s)"
proof -
  have "fails_only memory_errors (case r of None \<Rightarrow> Inr s'
      | Some k \<Rightarrow>
          (case map_of (conversations s') k of
             None \<Rightarrow> Inl (Undefined_behaviour Null_dereference)
           | Some c \<Rightarrow> bind (process p c) (\<lambda>c'. Inr (s'\<lparr>conversations := map_put k c' (conversations s')\<rparr>))))"
    if g: "getConversation factory p s = Inr (r, s')" for r s'
  proof (cases r)
    case (Some k)
    with getConversation_ok [OF g assms(2)] obtain c where "map_of (conversations s') k = Some c" "good c"
      by (auto simp: map_contains_def store_ok_def)
    with Some process_fails [OF assms(1)] show ?thesis by simp
  qed simp
  then show ?thesis
    using getConversation_fails [OF assms(1)] by (simp add: store_packet_def split: prod.split)
qed

lemma packetHandler_fails:
  assumes "store_ok good (conversation_store cap)"
  shows "fails_only (insert not_captured memory_errors) (packetHandler factory process frame cap)"
proof -
  have "fails_only (insert not_captured memory_errors) (store_packet factory process p (conversation_store cap))"
    if "dissect link h bytes = Inr (Some p)" for link h bytes p
    using store_packet_fails [OF dissect_well_formed [OF that] assms]
    by (rule fails_only_mono) blast
  then show ?thesis
    using dissect_fails by (simp add: packetHandler_def split: option.split)
qed

lemma frames_fail:
  assumes "store_ok good (conversation_store cap)"
  shows "fails_only (insert not_captured memory_errors) (fold_result (packetHandler factory process) frames cap)"
  by (rule fails_only_fold [where P = "\<lambda>c. store_ok good (conversation_store c)"])
    (auto intro: assms packetHandler_fails packetHandler_ok)

end

interpretation tcp_safe: safe_recorder "TcpConversationFactory n" tcp_processCapturePacket addresses_known for n
  by unfold_locales
    (auto simp: TcpConversationFactory_def tcp_from_packet_def packet_keys_fail tcp_process_fails
      dest: tcp_from_packet_knows [unfolded tcp_from_packet_def] tcp_process_knows)

interpretation udp_safe: safe_recorder "UdpConversationFactory n" udp_processCapturePacket addresses_known for n
  by unfold_locales
    (auto simp: UdpConversationFactory_def udp_from_packet_def packet_keys_fail udp_process_fails
      dest: conversation_knows udp_process_knows)

text \<open>The ways a whole load can fail.\<close>

definition open_failed :: "error \<Rightarrow> bool" where
  "open_failed e \<longleftrightarrow> (\<exists>s. e = Runtime_error (''failed to open file: '' @ s))"

definition read_failed :: "error \<Rightarrow> bool" where
  "read_failed e \<longleftrightarrow> (\<exists>s. e = Runtime_error (''packet read failed '' @ s))"

lemma load_fails:
  assumes "load_capture f process pcap_open file cap = Inl e"
    and "\<And>frames type. fails_only E (fold_result (packetHandler f process) frames (cap\<lparr>datalink_type := type\<rparr>))"
  shows "e \<in> E \<or> open_failed e \<or> read_failed e"
  using assms(1)
proof (cases "pcap_open file")
  case (Inl s)
  with assms(1) show ?thesis by (auto simp: load_capture_def open_failed_def)
next
  case (Inr pcap)
  with assms(1) consider
      "fold_result (packetHandler f process) (pcap_frames pcap)
         (cap\<lparr>datalink_type := word_of_int (pcap_datalink pcap)\<rparr>) = Inl e"
    | s where "e = Runtime_error (''packet read failed '' @ s)"
    by (auto simp: load_capture_def result_simps split: if_splits)
  then show ?thesis
  proof cases
    case 1
    with assms(2) show ?thesis unfolding fails_only_def by blast
  next
    case 2
    then show ?thesis by (auto simp: read_failed_def)
  qed
qed

lemma configured_store_ok: "map_ok servers \<Longrightarrow> store_ok good \<lparr>test_servers = servers, conversations = []\<rparr>"
  by (simp add: store_ok_def)

section \<open>Properties\<close>

text \<open>
  C10. The casts of the capture are safe: however the bytes of a file are chosen, with any configured
  servers, loading it for TCP or for UDP fails only because the file cannot be opened or read, a
  frame was cut off, a header field points outside the captured bytes, or a payload length is
  negative. No packet reaches a recorder without the layers it casts to, so no null pointer is
  used, and no accessor is called that the layer does not support.
\<close>

theorem capture_failures:
  assumes "map_ok servers"
    and "load_capture (TcpConversationFactory n) tcp_processCapturePacket pcap_open file
        \<lparr>conversation_store = \<lparr>test_servers = servers, conversations = []\<rparr>, datalink_type = 0\<rparr> = Inl e \<or>
      load_capture (UdpConversationFactory n) udp_processCapturePacket pcap_open file
        \<lparr>conversation_store = \<lparr>test_servers = servers, conversations = []\<rparr>, datalink_type = 0\<rparr> = Inl e"
  shows "open_failed e \<or> read_failed e \<or>
    e \<in> {not_captured, Undefined_behaviour Out_of_bounds_read, Undefined_behaviour Invalid_range}"
proof -
  have "e \<in> insert not_captured memory_errors \<or> open_failed e \<or> read_failed e"
    using assms(2)
    by (elim disjE)
      (erule load_fails, simp add: configured_store_ok [OF assms(1)] tcp_safe.frames_fail udp_safe.frames_fail)+
  then show ?thesis by (auto simp: memory_errors_def)
qed

section \<open>Witnesses\<close>

text \<open>A frame that ends inside the IPv4 header.\<close>

definition short_capture :: pcap_handle where
  "short_capture =
     \<lparr>pcap_datalink = 1, pcap_frames = [(full_header (replicate 12 0 @ [8, 0, 0x45]), replicate 12 0 @ [8, 0, 0x45])],
      pcap_loop_rc = 0, pcap_geterr = []\<rparr>"

lemma short_capture_fails:
  "load_capture (TcpConversationFactory sample_inet6) tcp_processCapturePacket (\<lambda>_. Inr short_capture) ''a.pcap''
    \<lparr>conversation_store = \<lparr>test_servers = [], conversations = []\<rparr>, datalink_type = 0\<rparr> =
    Inl (Undefined_behaviour Out_of_bounds_read)"
  by code_simp

theorem capture_failures_witness:
  "\<exists>e. load_capture (TcpConversationFactory sample_inet6) tcp_processCapturePacket (\<lambda>_. Inr short_capture) ''a.pcap''
      \<lparr>conversation_store = \<lparr>test_servers = [], conversations = []\<rparr>, datalink_type = 0\<rparr> = Inl e \<and>
    (open_failed e \<or> read_failed e \<or>
      e \<in> {not_captured, Undefined_behaviour Out_of_bounds_read, Undefined_behaviour Invalid_range})"
  using short_capture_fails capture_failures [OF _ disjI1 [OF short_capture_fails]] by (simp add: map_ok_def)

end
