(* ===== verification/Http_Sessions.thy ===== *)
theory Http_Sessions
  imports Programs Dissected_Packets
begin

text \<open>
  What a replay does to the network, beyond the bytes it sends: the connections it opens, the bytes
  on each of them and where they are closed, in order, and that a descriptor is only used while it
  is the open connection. The replay of one conversation refines its queue read as a list of network
  events; the program does so for every conversation of the store, with any options and any capture.
\<close>

section \<open>Network events\<close>

datatype net_event = Opened sockaddr | Sent_byte byte | Shut

fun call_events :: "sys_call \<times> sys_reply \<Rightarrow> net_event list" where
  "call_events (Sys_connect fd a n, r) = [Opened a]"
| "call_events (Sys_write fd bs, r) = map Sent_byte (take (nat (ret r)) bs)"
| "call_events (Sys_close fd, r) = [Shut]"
| "call_events _ = []"

definition net_events :: "sys_log \<Rightarrow> net_event list" where
  "net_events l = concat (map call_events l)"

lemma net_events_simps [simp]:
  "net_events [] = []" "net_events (e # l) = call_events e @ net_events l"
  "net_events (l @ l') = net_events l @ net_events l'"
  by (simp_all add: net_events_def)

text \<open>What an action means for a client of the given server.\<close>

definition action_events :: "sockaddr \<Rightarrow> action \<Rightarrow> net_event list" where
  "action_events server a =
     (case act_type a of
        CONNECT \<Rightarrow> [Opened server]
      | SEND \<Rightarrow> map (\<lambda>c. Sent_byte (byte_of_char c)) (act_data a)
      | RECV \<Rightarrow> []
      | CLOSE \<Rightarrow> [Shut])"

definition conversation_events :: "'a packet_conversation_scheme \<Rightarrow> net_event list" where
  "conversation_events c = concat (map (action_events (getTestSockAddr c)) (getActionQueue c))"

text \<open>
  The use of descriptors: the connection that is open after some calls, starting with the one that
  is open before them; nothing where a call uses any other descriptor.
\<close>

fun socket_run :: "int option \<Rightarrow> sys_log \<Rightarrow> int option option" where
  "socket_run cur [] = Some cur"
| "socket_run cur ((Sys_connect fd a n, r) # l) = socket_run (Some fd) l"
| "socket_run cur ((Sys_write fd bs, r) # l) = (if cur = Some fd then socket_run cur l else None)"
| "socket_run cur ((Sys_read fd n, r) # l) = (if cur = Some fd then socket_run cur l else None)"
| "socket_run cur ((Sys_close fd, r) # l) = (if cur = Some fd then socket_run None l else None)"
| "socket_run cur (_ # l) = socket_run cur l"

lemma socket_run_append:
  "socket_run cur (l @ l') = Option.bind (socket_run cur l) (\<lambda>cur'. socket_run cur' l')"
  by (induction cur l rule: socket_run.induct) auto

lemma only_reads_events:
  assumes "only_reads fd l l'"
  obtains es where "l' = l @ es" "net_events es = []" "socket_run (Some fd) es = Some (Some fd)"
proof -
  obtain es where es: "l' = l @ es" "\<forall>e \<in> set es. \<exists>n. fst e = Sys_read fd n"
    using assms by (auto simp: only_reads_def)
  from es(2) have "net_events es = [] \<and> socket_run (Some fd) es = Some (Some fd)"
    by (induction es) auto
  with es(1) that show thesis by blast
qed

section \<open>The steps of a replay\<close>

text \<open>
  A step of a client: the calls it adds to the log are those events, and they use the open
  connection only; \<open>was\<close> and \<open>now\<close> say whether the recorded session has one open.
\<close>

definition net_step :: "net_event list \<Rightarrow> bool \<Rightarrow> bool \<Rightarrow> http_client \<Rightarrow> http_client \<Rightarrow> bool" where
  "net_step events was now c c' \<longleftrightarrow>
     (\<exists>es. log c' = log c @ es \<and> net_events es = events \<and>
        (\<forall>cur. (was \<longrightarrow> cur = Some (socket c)) \<longrightarrow>
           (\<exists>cur'. socket_run cur es = Some cur' \<and> (now \<longrightarrow> cur' = Some (socket c')))))"

lemma net_step_refl: "net_step [] was was c c"
  unfolding net_step_def by (rule exI [of _ "[]"]) simp

lemma net_step_trans:
  assumes "net_step es was mid c c1" "net_step es' mid now c1 c2"
  shows "net_step (es @ es') was now c c2"
proof -
  obtain l l' where l: "log c1 = log c @ l" "net_events l = es" "log c2 = log c1 @ l'" "net_events l' = es'"
    and run: "\<And>cur. (was \<longrightarrow> cur = Some (socket c)) \<Longrightarrow> \<exists>cur'. socket_run cur l = Some cur' \<and> (mid \<longrightarrow> cur' = Some (socket c1))"
      "\<And>cur. (mid \<longrightarrow> cur = Some (socket c1)) \<Longrightarrow> \<exists>cur'. socket_run cur l' = Some cur' \<and> (now \<longrightarrow> cur' = Some (socket c2))"
    using assms unfolding net_step_def by blast
  show ?thesis
    unfolding net_step_def
  proof (intro exI [of _ "l @ l'"] conjI allI impI)
    fix cur
    assume "was \<longrightarrow> cur = Some (socket c)"
    then obtain cur1 where 1: "socket_run cur l = Some cur1" "mid \<longrightarrow> cur1 = Some (socket c1)" using run(1) by blast
    from run(2) [OF 1(2)] 1(1)
    show "\<exists>cur'. socket_run cur (l @ l') = Some cur' \<and> (now \<longrightarrow> cur' = Some (socket c2))"
      by (auto simp: socket_run_append)
  qed (use l in simp_all)
qed

lemma write_loop_events:
  assumes "write_bounded env"
  shows "write_loop env fd data n l = Inr l' \<Longrightarrow> n \<le> length data \<Longrightarrow>
    \<exists>es. l' = l @ es \<and> net_events es = map Sent_byte (drop n data) \<and> socket_run (Some fd) es = Some (Some fd)"
proof (induction "length data - n" arbitrary: n l rule: less_induct)
  case less
  note loop = write_loop.simps [of env fd data n l]
  show ?case
  proof (cases "n < length data")
    case True
    let ?c = "Sys_write fd (drop n data)"
    define k where "k = nat (ret (env l ?c))"
    have k: "k \<le> length data - n" using assms unfolding write_bounded_def k_def by (metis length_drop nat_le_iff)
    have pos: "0 < k" and rec: "write_loop env fd data (n + k) (l @ [(?c, env l ?c)]) = Inr l'"
      using less.prems(1) loop True by (simp_all add: sys_def Let_def k_def split: if_splits)
    obtain es where es: "l' = (l @ [(?c, env l ?c)]) @ es" "net_events es = map Sent_byte (drop (n + k) data)"
      "socket_run (Some fd) es = Some (Some fd)"
    proof -
      have "length data - (n + k) < length data - n" "n + k \<le> length data" using pos k True by linarith+
      from less.hyps [OF this(1) rec this(2)] that show thesis by blast
    qed
    have "map Sent_byte (take k (drop n data)) @ map Sent_byte (drop (n + k) data) = map Sent_byte (drop n data)"
      by (metis add.commute append_take_drop_id drop_drop map_append)
    with es show ?thesis by (intro exI [of _ "(?c, env l ?c) # es"]) (simp add: k_def)
  next
    case False
    with less.prems loop show ?thesis by (intro exI [of _ "[]"]) simp
  qed
qed

lemma perform_step:
  assumes "perform env bufsiz a c = Some (Inr c')" "write_bounded env"
    and "session_run was [act_type a] = Some now"
  shows "conversation c' = conversation c" "net_step (action_events (getTestSockAddr (conversation c)) a) was now c c'"
proof -
  show "conversation c' = conversation c" using perform_result [OF assms(1,2)] by simp
  show "net_step (action_events (getTestSockAddr (conversation c)) a) was now c c'"
  proof (cases "act_type a")
    case CONNECT
    with assms(1,3) show ?thesis
      by (auto simp: perform.simps connect_action_def sys_def Let_def net_step_def action_events_def split: if_splits)
  next
    case SEND
    with assms(3) have was: "was" "now" by (cases was; simp)+
    obtain l where l: "write_loop env (socket c) (map byte_of_char (act_data a)) 0 (log c) = Inr l"
      "c' = c\<lparr>log := l, expected := reset (expected c), test := reset (test c)\<rparr>"
      using assms(1) SEND by (auto simp: perform.simps send_action_def elim!: bindE)
    with write_loop_events [OF assms(2) l(1)] was SEND show ?thesis
      by (auto simp: net_step_def action_events_def comp_def)
  next
    case RECV
    with assms(3) have was: "was" "now" by (cases was; simp)+
    have "recv_action env bufsiz a c = Some (Inr c')" using assms(1) RECV by (simp add: perform.simps)
    then obtain es where "log c' = log c @ es" "net_events es = []" "socket c' = socket c"
      "socket_run (Some (socket c)) es = Some (Some (socket c))"
      by (elim recv_action_result) (auto elim: only_reads_events)
    with was RECV show ?thesis by (auto simp: net_step_def action_events_def)
  next
    case CLOSE
    with assms(3) have was: "was" "\<not> now" by (cases was; simp)+
    with assms(1) CLOSE show ?thesis
      by (auto simp: perform.simps close_action_def net_step_def action_events_def)
  qed
qed

text \<open>A whole replay of a conversation whose queue is replayable.\<close>

lemma replay_step_events:
  "replay env bufsiz c = Some r \<Longrightarrow> write_bounded env \<longrightarrow> (\<forall>c' was now. r = Inr c' \<longrightarrow>
    session_run was (queue_types (conversation c)) = Some now \<longrightarrow>
    net_step (conversation_events (conversation c)) was now c c')"
proof (induction rule: replay.raw_induct [rotated 1, consumes 1, case_names step])
  case (step f env bufsiz c r)
  show ?case
  proof (intro allI impI)
    fix c' was now
    assume wb: "write_bounded env" and r: "r = Inr c'"
      and run: "session_run was (queue_types (conversation c)) = Some now"
    show "net_step (conversation_events (conversation c)) was now c c'"
    proof (cases "actionEmpty (conversation c)")
      case True
      then have "action_queue (conversation c) = []" by (simp add: conv_queue.is_empty)
      with True step(2) r run show ?thesis
        by (simp add: queue_types_def conversation_events_def net_step_refl)
    next
      case False
      obtain a q where a: "actionFront (conversation c) = Inr a" "actionPop (conversation c) = Inr q"
        "action_queue (conversation c) = a # action_queue q"
        using False by (rule conv_queue.guarded_front_pop)
      from step(2) False a r obtain c1 q1 where c1: "perform env bufsiz a c = Some (Inr c1)"
        "actionPop (conversation c1) = Inr q1" "f env bufsiz (c1\<lparr>conversation := q1\<rparr>) = Some (Inr c')"
        by (auto elim!: obindE)
      have "session_run was ([act_type a] @ queue_types q) = Some now"
        using run a(3) by (simp add: queue_types_def)
      then obtain mid where mid: "session_run was [act_type a] = Some mid" "session_run mid (queue_types q) = Some now"
        by (simp only: session_run_append Option.bind_eq_Some_conv) blast
      note p = perform_step [OF c1(1) wb mid(1)]
      have q: "q1 = q" using p(1) a(2) c1(2) by simp
      have addr: "getTestSockAddr q = getTestSockAddr (conversation c)"
        using a(2) by (auto simp: actionPop_def split: list.splits)
      have "net_step (conversation_events q) mid now (c1\<lparr>conversation := q\<rparr>) c'"
        using step(1) [OF c1(3)] wb mid(2) by (simp add: q)
      then have "net_step (conversation_events q) mid now c1 c'" by (simp add: net_step_def)
      from net_step_trans [OF p(2) this] show ?thesis
        using a(3) addr by (simp add: conversation_events_def)
    qed
  qed
qed

text \<open>The loop over the conversations.\<close>

lemma http_replays_events:
  assumes "http_replays env bufsiz cs l out = Some (Inr (l', out'))" "write_bounded env" "\<forall>c \<in> set cs. tcp_inv c"
  shows "\<exists>es. l' = l @ es \<and> net_events es = concat (map conversation_events cs) \<and>
    (\<forall>cur. socket_run cur es \<noteq> None)"
  using assms(1,3)
proof (induction cs arbitrary: l out)
  case Nil
  then show ?case by (intro exI [of _ "[]"]) simp
next
  case (Cons c cs)
  from Cons.prems(1) obtain c' where c': "replay env bufsiz (new_client c l) = Some (Inr c')"
    "http_replays env bufsiz cs (log c') (out @ printed c') = Some (Inr (l', out'))"
    by (auto elim: obindE)
  obtain now where "session_run False (queue_types c) = Some now" using Cons.prems(2) by (auto simp: tcp_inv_def)
  then have "net_step (conversation_events c) False now (new_client c l) c'"
    using replay_step_events [OF c'(1)] assms(2) by (simp add: new_client_def)
  then obtain es where es: "log c' = l @ es" "net_events es = conversation_events c" "\<forall>cur. socket_run cur es \<noteq> None"
    unfolding net_step_def new_client_def by fastforce
  obtain es' where es': "l' = log c' @ es'" "net_events es' = concat (map conversation_events cs)"
    "\<forall>cur. socket_run cur es' \<noteq> None"
    using Cons.IH [OF c'(2)] Cons.prems(2) by auto
  have "socket_run cur (es @ es') \<noteq> None" for cur
  proof -
    obtain cur' where "socket_run cur es = Some cur'" using es(3) by blast
    with es'(3) show ?thesis by (simp add: socket_run_append)
  qed
  with es es' show ?case by (intro exI [of _ "es @ es'"]) simp
qed

section \<open>The program\<close>

lemma http_options_ok: "http_options n opts s = Inr (Some s') \<Longrightarrow> store_ok tcp_inv s \<Longrightarrow> store_ok tcp_inv s'"
  by (induction n opts s rule: http_options.induct) (auto elim!: bindE dest: tcp_store.addTargetTestServer_ok)

lemma store_ok_conversations: "store_ok good s \<Longrightarrow> c \<in> set (getConversations s) \<Longrightarrow> good c"
  by (auto simp: store_ok_def getConversations_def stdmap.entries_find)

text \<open>
  C2. The HTTP program replays what it recorded, for any options and any capture file. When it ends
  normally, its calls are, for one conversation of the store after the other and for every action in
  order: a connection to the test server for \<open>CONNECT\<close>, the recorded bytes for \<open>SEND\<close>, and the end
  of the connection for \<open>CLOSE\<close>; and every descriptor that is written to, read from or closed is the
  connection opened last and not closed yet. This holds whatever the servers answer and however
  few bytes a write takes.
\<close>

theorem http_program_replays_sessions:
  assumes "write_bounded env" "http_main env bufsiz n pcap_open opts [file] = Some (Inr (Done out, Some l))"
  shows "\<exists>s cap. http_options n opts new_store = Inr (Some s) \<and>
    load_capture (TcpConversationFactory n) tcp_processCapturePacket pcap_open file
      \<lparr>conversation_store = s, datalink_type = 0\<rparr> = Inr cap \<and>
    net_events l = concat (map conversation_events (getConversations (conversation_store cap))) \<and>
    socket_run None l \<noteq> None"
proof -
  have main: "http_run env bufsiz n pcap_open opts [file] = Some (Inr (Done out, l))"
    using assms(2) unfolding http_main_def
    by (cases "http_run env bufsiz n pcap_open opts [file]") (auto elim!: caught.elims)
  obtain st where st: "http_options n opts new_store = Inr st"
    using main unfolding http_run_def by (elim obindE) simp
  obtain s where s: "st = Some s" using main st unfolding http_run_def by (cases st) simp_all
  obtain cap where run: "http_options n opts new_store = Inr (Some s)"
    "load_capture (TcpConversationFactory n) tcp_processCapturePacket pcap_open file
      \<lparr>conversation_store = s, datalink_type = 0\<rparr> = Inr cap"
    "http_replays env bufsiz (getConversations (conversation_store cap)) [] [] = Some (Inr (l, out))"
  proof -
    have "obind (Some (load_capture (TcpConversationFactory n) tcp_processCapturePacket pcap_open file
        \<lparr>conversation_store = s, datalink_type = 0\<rparr>)) (\<lambda>cap.
        obind (http_replays env bufsiz (getConversations (conversation_store cap)) [] []) (\<lambda>(l, out).
          Some (Inr (Done out, l)))) = Some (Inr (Done out, l))"
      using main st s by (simp add: http_run_def)
    then show thesis using st s by (elim obindE) (auto intro: that)
  qed
  have "store_ok tcp_inv (conversation_store cap)"
  proof (rule tcp_store.load_ok [OF run(2)])
    show "store_ok tcp_inv (conversation_store \<lparr>conversation_store = s, datalink_type = 0\<rparr>)"
      using http_options_ok [OF run(1) tcp_store.new_store_ok] by (simp only: capture.simps)
  qed
  then have "\<forall>c \<in> set (getConversations (conversation_store cap)). tcp_inv c"
    using store_ok_conversations [of tcp_inv] by blast
  from http_replays_events [OF run(3) assms(1) this] run(1,2) show ?thesis by auto
qed

section \<open>Witnesses\<close>

theorem http_program_replays_sessions_witness:
  "\<exists>l server. sample_http_run = Some (Inr (Done [], Some l)) \<and>
    net_events l = [Opened server, Sent_byte 71, Shut] \<and> socket_run None l \<noteq> None"
proof -
  obtain l where l: "sample_http_run = Some (Inr (Done [], Some l))" using sample_http_ends by blast
  obtain cap c where c: "load_capture (TcpConversationFactory sample_inet6) tcp_processCapturePacket
      (\<lambda>_. Inr (capture_of sample_http_capture)) ''a.pcap'' \<lparr>conversation_store = new_store, datalink_type = 0\<rparr> = Inr cap"
    "getConversations (conversation_store cap) = [c]"
    "action_queue c = [new_action CONNECT, new_action_data SEND ''G'',
      new_action_data RECV (map char_of_byte sample_response), new_action CLOSE]"
    by (rule sample_http_loaded)
  have "net_events l = conversation_events c" "socket_run None l \<noteq> None"
    using http_program_replays_sessions [OF sample_server_ok(1) l] c(1,2) by auto
  moreover have "byte_of_char (CHR ''G'') = 71" by code_simp
  ultimately show ?thesis
    using l c(3) by (simp add: conversation_events_def action_events_def new_action_def new_action_data_def)
qed

end
