(* ===== verification/Http_Servers.thy ===== *)
theory Http_Servers
  imports Http_Replay
begin

text \<open>
  The HTTP client (src/src/http_replay/http_replay.cc) against a server that answers. A server is an
  environment that accepts connections, takes some bytes of every write and answers a request by
  the bytes of a response: the first read after the request brings the whole header, the body comes in
  pieces of the server's choice. The locale \<open>body_format\<close> states what the
  client needs of a kind of response; its lemmas show that a replay returns and what it reports.
  Responses with a content length and chunked responses are its two interpretations.
\<close>

section \<open>Responses\<close>

record 'b http_response =
  rsp_version :: string
  rsp_code :: nat
  rsp_reason :: string
  rsp_fields :: "(string \<times> string) list"
  rsp_body :: 'b

definition rsp_head_ok :: "'b http_response \<Rightarrow> bool" where
  "rsp_head_ok r \<longleftrightarrow> head_ok (rsp_version r) (rsp_code r) (rsp_reason r) (rsp_fields r)"

definition rsp_start :: "'b http_response \<Rightarrow> byte list" where
  "rsp_start r = header_bytes (response_head (rsp_version r) (rsp_code r) (rsp_reason r) (rsp_fields r))"

text \<open>The last field of a name counts.\<close>

definition field_table :: "(string \<times> string) list \<Rightarrow> string \<rightharpoonup> string" where
  "field_table fs = map_of (rev (map (\<lambda>(k, v). (toLower k, v)) fs))"

lemma map_of_put_fields: "map_of (put_fields fs hs) = map_of hs ++ field_table fs"
  by (induction fs arbitrary: hs) (auto simp: put_fields_def field_table_def split: prod.splits)

text \<open>A replay reports a response that differs in its status or, as the kind of body sees it, in its body.\<close>

definition response_report :: "('b \<Rightarrow> 'b \<Rightarrow> bool) \<Rightarrow> 'b http_response \<Rightarrow> 'b http_response \<Rightarrow> string list" where
  "response_report agree r live =
     (if rsp_code r = rsp_code live \<and> agree (rsp_body r) (rsp_body live) then [] else [difference_message])"

section \<open>Servers\<close>

text \<open>What was read since the last write.\<close>

fun is_write :: "sys_call \<Rightarrow> bool" where
  "is_write (Sys_write fd bs) = True"
| "is_write _ = False"

fun bytes_read :: "sys_call \<times> sys_reply \<Rightarrow> byte list" where
  "bytes_read (Sys_read fd n, r) = received_bytes r"
| "bytes_read _ = []"

definition received_since :: "sys_log \<Rightarrow> byte list" where
  "received_since l = concat (map bytes_read (rev (takeWhile (\<lambda>e. \<not> is_write (fst e)) (rev l))))"

lemma received_since_snoc [simp]:
  "received_since (l @ [e]) = (if is_write (fst e) then [] else received_since l @ bytes_read e)"
  by (simp add: received_since_def)

definition answers_with :: "byte list \<Rightarrow> nat \<Rightarrow> sys_reply \<Rightarrow> bool" where
  "answers_with bs n r \<longleftrightarrow> bs \<noteq> [] \<and> length bs \<le> n \<and> ret r = int (length bs) \<and> received_bytes r = bs"

lemma answers_withD:
  assumes "answers_with bs n r"
  shows "0 < ret r" "received_bytes r = bs" "bs \<noteq> []"
proof -
  show bs: "bs \<noteq> []" "received_bytes r = bs" using assms by (simp_all add: answers_with_def)
  from bs(1) show "0 < ret r" using assms by (simp add: answers_with_def)
qed

text \<open>
  The server answers what was sent so far by \<open>answer\<close>. The first read after a write returns the
  header of the response and perhaps a part of its body, every further one a part of the rest; the
  atoms of a body are the stretches of it that have to arrive in one piece.
\<close>

definition first_reads ::
  "environment \<Rightarrow> nat \<Rightarrow> ('b http_response \<Rightarrow> byte list list) \<Rightarrow> (byte list \<Rightarrow> 'b http_response) \<Rightarrow> bool" where
  "first_reads env bufsiz atoms answer \<longleftrightarrow>
     (\<forall>l fd. received_since l = [] \<longrightarrow>
        (\<exists>g later. atoms (answer (sent_bytes l)) = g @ later \<and>
           answers_with (rsp_start (answer (sent_bytes l)) @ concat g) bufsiz (env l (Sys_read fd bufsiz))))"

definition later_reads ::
  "environment \<Rightarrow> nat \<Rightarrow> ('b http_response \<Rightarrow> byte list list) \<Rightarrow> (byte list \<Rightarrow> 'b http_response) \<Rightarrow> bool" where
  "later_reads env bufsiz atoms answer \<longleftrightarrow>
     (\<forall>l fd g later. atoms (answer (sent_bytes l)) = g @ later \<longrightarrow> later \<noteq> [] \<longrightarrow>
        received_since l = rsp_start (answer (sent_bytes l)) @ concat g \<longrightarrow>
        (\<exists>g' later'. later = g' @ later' \<and> answers_with (concat g') bufsiz (env l (Sys_read fd bufsiz))))"

definition serves ::
  "environment \<Rightarrow> nat \<Rightarrow> ('b http_response \<Rightarrow> byte list list) \<Rightarrow> (byte list \<Rightarrow> 'b http_response) \<Rightarrow> bool" where
  "serves env bufsiz atoms answer \<longleftrightarrow>
     (\<forall>l fam t. 0 \<le> ret (env l (Sys_socket fam t))) \<and>
     (\<forall>l fd a n. ret (env l (Sys_connect fd a n)) = 0) \<and>
     write_bounded env \<and> (\<forall>l fd bs. bs \<noteq> [] \<longrightarrow> 0 < ret (env l (Sys_write fd bs))) \<and>
     first_reads env bufsiz atoms answer \<and> later_reads env bufsiz atoms answer"

lemma servesD:
  assumes "serves env bufsiz atoms answer"
  shows "0 \<le> ret (env l (Sys_socket fam t))" "ret (env l (Sys_connect fd a n)) = 0" "write_bounded env"
    "bs \<noteq> [] \<Longrightarrow> 0 < ret (env l (Sys_write fd bs))" "first_reads env bufsiz atoms answer" "later_reads env bufsiz atoms answer"
  using assms by (simp_all add: serves_def)

lemma serves_first:
  assumes "serves env bufsiz atoms answer" "received_since l = []"
  obtains g later where "atoms (answer (sent_bytes l)) = g @ later"
    "answers_with (rsp_start (answer (sent_bytes l)) @ concat g) bufsiz (env l (Sys_read fd bufsiz))"
  using servesD(5) [OF assms(1), unfolded first_reads_def, rule_format, OF assms(2)] by blast

lemma serves_more:
  assumes "serves env bufsiz atoms answer" "atoms (answer (sent_bytes l)) = g @ later" "later \<noteq> []"
    and "received_since l = rsp_start (answer (sent_bytes l)) @ concat g"
  obtains g' later' where "later = g' @ later'" "answers_with (concat g') bufsiz (env l (Sys_read fd bufsiz))"
  using servesD(6) [OF assms(1), unfolded later_reads_def, rule_format, OF assms(2-4)] by blast

lemma write_loop_served:
  assumes "serves env bufsiz atoms answer"
  shows "\<exists>l'. write_loop env fd data n l = Inr l' \<and> (n < length data \<longrightarrow> received_since l' = [])"
proof (induction "length data - n" arbitrary: n l rule: less_induct)
  case less
  note loop = write_loop.simps [of env fd data n l]
  show ?case
  proof (cases "n < length data")
    case True
    let ?c = "Sys_write fd (drop n data)"
    have pos: "0 < ret (env l ?c)" using servesD(4) [OF assms] True by simp
    let ?n = "n + nat (ret (env l ?c))"
    have "length data - ?n < length data - n" using pos True by linarith
    from less [OF this] obtain l' where l': "write_loop env fd data ?n (l @ [(?c, env l ?c)]) = Inr l'"
      "?n < length data \<longrightarrow> received_since l' = []" by blast
    moreover have "received_since l' = []" if "\<not> ?n < length data"
      using that l'(1) write_loop.simps [of env fd data ?n "l @ [(?c, env l ?c)]"] by auto
    ultimately show ?thesis using loop pos True by (auto simp: sys_def Let_def)
  qed (use loop in simp)
qed

section \<open>Exchanges\<close>

text \<open>
  A request and the recorded response to it: the segments of the request, and the atoms of the
  response's body as its segments brought them; the first segment brings the header as well.
\<close>

record 'b exchange =
  ex_requests :: "byte list list"
  ex_response :: "'b http_response"
  ex_pieces :: "byte list list list"

definition exchange_ok :: "('b http_response \<Rightarrow> byte list list) \<Rightarrow> ('b http_response \<Rightarrow> bool) \<Rightarrow> 'b exchange \<Rightarrow> bool" where
  "exchange_ok atoms good e \<longleftrightarrow>
     ex_requests e \<noteq> [] \<and> [] \<notin> set (ex_requests e) \<and> good (ex_response e) \<and> ex_pieces e \<noteq> [] \<and>
     [] \<notin> set (tl (ex_pieces e)) \<and> concat (ex_pieces e) = atoms (ex_response e)"

definition data_action :: "action_type \<Rightarrow> byte list \<Rightarrow> action" where
  "data_action t bs = new_action_data t (map char_of_byte bs)"

lemma data_action_parts [simp]:
  "act_type (data_action t bs) = t" "map byte_of_char (act_data (data_action t bs)) = bs"
  by (simp_all add: data_action_def new_action_data_def comp_def)

definition exchange_actions :: "'b exchange \<Rightarrow> action list" where
  "exchange_actions e =
     map (data_action SEND) (ex_requests e) @
     data_action RECV (rsp_start (ex_response e) @ concat (hd (ex_pieces e))) #
     map (\<lambda>g. data_action RECV (concat g)) (tl (ex_pieces e))"

text \<open>The reports of a replay against a server, from what was sent before.\<close>

fun served_reports ::
  "('b \<Rightarrow> 'b \<Rightarrow> bool) \<Rightarrow> (byte list \<Rightarrow> 'b http_response) \<Rightarrow> byte list \<Rightarrow> 'b exchange list \<Rightarrow> string list" where
  "served_reports agree answer sent [] = []"
| "served_reports agree answer sent (e # es) =
     response_report agree (ex_response e) (answer (sent @ concat (ex_requests e))) @
     served_reports agree answer (sent @ concat (ex_requests e)) es"

section \<open>What the client needs of a kind of body\<close>

locale body_format =
  fixes atoms :: "'b http_response \<Rightarrow> byte list list"
    and good :: "'b http_response \<Rightarrow> bool"
    and clean :: "(string \<times> string) list \<Rightarrow> bool"
    and holds :: "'b http_response \<Rightarrow> byte list list \<Rightarrow> data_processor \<Rightarrow> bool"
    and agree :: "'b \<Rightarrow> 'b \<Rightarrow> bool"
  assumes head: "good r \<Longrightarrow> rsp_head_ok r"
    and clean_new: "clean []"
    and clean_put: "good r \<Longrightarrow> clean hs \<Longrightarrow> clean (put_fields (rsp_fields r) hs)"
    and start: "good r \<Longrightarrow> clean hs \<Longrightarrow> \<exists>d. select_processor (put_fields (rsp_fields r) hs) = Inr d \<and> holds r (atoms r) d"
    and piece: "holds r (g @ later) d \<Longrightarrow> \<exists>d'. process (concat g) d = Some (Inr d') \<and> holds r later d'"
    and complete: "holds r later d \<Longrightarrow> isComplete d \<longleftrightarrow> later = []"
    and compared: "holds r [] d \<Longrightarrow> holds r' [] d' \<Longrightarrow>
      \<exists>v. compare_data d d' = Inr v \<and> (v = 0 \<longleftrightarrow> agree (rsp_body r) (rsp_body r'))"
begin

text \<open>A processor before a response, and one that still lacks some atoms of it.\<close>

definition ready :: "processor \<Rightarrow> bool" where
  "ready p \<longleftrightarrow> waiting p \<and> clean (headers p)"

definition taking :: "'b http_response \<Rightarrow> byte list list \<Rightarrow> processor \<Rightarrow> bool" where
  "taking r later p \<longleftrightarrow> status_code p = int (rsp_code r) \<and> clean (headers p) \<and>
     (\<exists>d. data_processor p = Some d \<and> holds r later d)"

lemma ready_new [simp]: "ready new_processor"
  using clean_new by (simp add: ready_def new_processor_def reset_def waiting_def)

lemma ready_reset: "clean (headers p) \<Longrightarrow> ready (reset p)"
  by (simp add: ready_def reset_def waiting_def)

lemma ready_complete: "ready p \<Longrightarrow> complete p = Inr False"
  by (simp add: ready_def waiting_def complete_def)

lemma taking_clean: "taking r later p \<Longrightarrow> clean (headers p)"
  by (simp add: taking_def)

lemma taking_complete: "taking r later p \<Longrightarrow> complete p = Inr (later = [])"
  using complete by (auto simp: taking_def complete_def deref_processor_def)

lemma taking_first:
  assumes "ready p" "good r" "atoms r = g @ later"
  shows "\<exists>b q. processData (rsp_start r @ concat g) p = Some (Inr (b, q)) \<and> taking r later q"
proof -
  have p: "waiting p" "clean (headers p)" using assms(1) by (simp_all add: ready_def)
  have ok: "head_ok (rsp_version r) (rsp_code r) (rsp_reason r) (rsp_fields r)"
    using head [OF assms(2)] by (simp add: rsp_head_ok_def)
  obtain d where d: "select_processor (put_fields (rsp_fields r) (headers p)) = Inr d" "holds r (g @ later) d"
    using start [OF assms(2) p(2)] assms(3) by auto
  obtain d' where d': "process (concat g) d = Some (Inr d')" "holds r later d'" using piece [OF d(2)] by blast
  have "one_header (response_head (rsp_version r) (rsp_code r) (rsp_reason r) (rsp_fields r))"
    using ok by (simp add: head_ok_def)
  from processData_header [OF p(1) this parse_response_head [OF ok] d(1) d'(1)]
  show ?thesis using d'(2) clean_put [OF assms(2) p(2)] by (simp add: rsp_start_def taking_def)
qed

lemma taking_more:
  assumes "taking r (g @ later) p"
  shows "\<exists>b q. processData (concat g) p = Some (Inr (b, q)) \<and> taking r later q"
proof -
  obtain d where d: "data_processor p = Some d" "holds r (g @ later) d" "status_code p = int (rsp_code r)"
    using assms by (auto simp: taking_def)
  obtain d' where d': "process (concat g) d = Some (Inr d')" "holds r later d'" using piece [OF d(2)] by blast
  have "status_code p \<noteq> -1" using d(3) by simp
  from processData_more [OF this d(1) d'(1)] show ?thesis
    using assms d'(2) by (simp add: taking_def)
qed

lemma taking_compare:
  assumes "taking r [] p" "taking r' [] q"
  shows "\<exists>v. compare p q = Inr v \<and>
    (if v = 0 then [] else [difference_message]) = response_report agree r r'"
proof -
  obtain d d' where d: "data_processor p = Some d" "holds r [] d" "data_processor q = Some d'" "holds r' [] d'"
    using assms by (auto simp: taking_def)
  have st: "status_code p = int (rsp_code r)" "status_code q = int (rsp_code r')" using assms by (simp_all add: taking_def)
  have fin: "complete p = Inr True" "complete q = Inr True"
    using assms taking_complete by simp_all
  show ?thesis
    using compared [OF d(2,4)] st fin d(1,3)
    by (auto simp: compare_def deref_processor_def response_report_def Let_def)
qed

text \<open>The loop that reads ends with the complete response of the server.\<close>

lemma read_rest:
  assumes "serves env bufsiz atoms answer"
  shows "taking (answer (sent_bytes (log c))) later (test c) \<Longrightarrow> atoms (answer (sent_bytes (log c))) = g @ later \<Longrightarrow>
    received_since (log c) = rsp_start (answer (sent_bytes (log c))) @ concat g \<Longrightarrow>
    \<exists>c'. read_loop env bufsiz c = Some (Inr c') \<and> taking (answer (sent_bytes (log c))) [] (test c')"
proof (induction "length later" arbitrary: later g c rule: less_induct)
  case less
  let ?r = "answer (sent_bytes (log c))"
  note loop = read_loop.simps [of env bufsiz c]
  note fin = taking_complete [OF less.prems(1)]
  show ?case
  proof (cases "later = []")
    case True
    with loop fin less.prems(1) show ?thesis by simp
  next
    case False
    let ?call = "Sys_read (socket c) bufsiz"
    obtain g' later' where g': "later = g' @ later'" "answers_with (concat g') bufsiz (env (log c) ?call)"
      by (rule serves_more [OF assms less.prems(2) False less.prems(3)])
    note ans = answers_withD [OF g'(2)]
    then have "g' \<noteq> []" by auto
    obtain b q where q: "processData (concat g') (test c) = Some (Inr (b, q))" "taking ?r later' q"
      using taking_more less.prems(1) g'(1) by blast
    let ?c = "c\<lparr>log := log c @ [(?call, env (log c) ?call)], test := q\<rparr>"
    have sent: "sent_bytes (log ?c) = sent_bytes (log c)" by simp
    have "length later' < length later" using g'(1) \<open>g' \<noteq> []\<close> by simp
    moreover have "taking (answer (sent_bytes (log ?c))) later' (test ?c)" using q(2) by simp
    moreover have "atoms (answer (sent_bytes (log ?c))) = (g @ g') @ later'" using less.prems(2) g'(1) by simp
    moreover have "received_since (log ?c) = rsp_start (answer (sent_bytes (log ?c))) @ concat (g @ g')"
      using less.prems(3) ans(2) by simp
    ultimately have "\<exists>c'. read_loop env bufsiz ?c = Some (Inr c') \<and> taking (answer (sent_bytes (log ?c))) [] (test c')"
      by (rule less.hyps)
    with loop fin False ans(1,2) q(1) sent show ?thesis by (simp add: Let_def)
  qed
qed

lemma read_response:
  assumes "serves env bufsiz atoms answer" "ready (test c)" "good (answer (sent_bytes (log c)))" "received_since (log c) = []"
  shows "\<exists>c'. read_loop env bufsiz c = Some (Inr c') \<and> only_test c c' \<and> taking (answer (sent_bytes (log c))) [] (test c')"
proof -
  let ?r = "answer (sent_bytes (log c))" and ?call = "Sys_read (socket c) bufsiz"
  obtain g later where g: "atoms ?r = g @ later" "answers_with (rsp_start ?r @ concat g) bufsiz (env (log c) ?call)"
    by (rule serves_first [OF assms(1,4)])
  note ans = answers_withD(1,2) [OF g(2)]
  obtain b q where q: "processData (rsp_start ?r @ concat g) (test c) = Some (Inr (b, q))" "taking ?r later q"
    using taking_first [OF assms(2,3) g(1)] by blast
  let ?c = "c\<lparr>log := log c @ [(?call, env (log c) ?call)], test := q\<rparr>"
  have "\<exists>c'. read_loop env bufsiz ?c = Some (Inr c') \<and> taking (answer (sent_bytes (log ?c))) [] (test c')"
    using q(2) g(1) ans(2) assms(4) by (intro read_rest [OF assms(1), where g = g and later = later]) simp_all
  then obtain c' where c': "read_loop env bufsiz ?c = Some (Inr c')" "taking ?r [] (test c')" by auto
  have "read_loop env bufsiz c = Some (Inr c')"
    using read_loop.simps [of env bufsiz c] ready_complete [OF assms(2)] ans q(1) c'(1) by (simp add: Let_def)
  with c'(2) read_loop_result [of env bufsiz c "Inr c'"] show ?thesis by blast
qed

text \<open>
  One recorded segment of a response: the expected processor takes it, the live response is there
  or is read, and they are compared behind the last segment.
\<close>

lemma recv_segment:
  assumes "complete (expected c) = Inr False" "processData (map byte_of_char (act_data a)) (expected c) = Some (Inr (b, q))"
    and "taking r later q" "act_type a = RECV"
    and "read_loop env bufsiz (c\<lparr>expected := q\<rparr>) = Some (Inr c2)" "taking live [] (test c2)"
  shows "\<exists>c'. perform env bufsiz a c = Some (Inr c') \<and> expected c' = q \<and> test c' = test c2 \<and>
    conversation c' = conversation c \<and> log c' = log c2 \<and>
    printed c' = printed c @ (if later = [] then response_report agree r live else [])"
proof -
  have c2: "expected c2 = q" "conversation c2 = conversation c" "printed c2 = printed c"
    using read_loop_result [OF assms(5)] by (simp_all add: only_test_def)
  note fin = taking_complete [OF assms(3)]
  show ?thesis
  proof (cases "later = []")
    case True
    obtain v where v: "compare q (test c2) = Inr v"
      "(if v = 0 then [] else [difference_message]) = response_report agree r live"
      using taking_compare assms(3,6) True by blast
    let ?c' = "if v \<noteq> 0 then c2\<lparr>printed := printed c2 @ [difference_message]\<rparr> else c2"
    have "perform env bufsiz a c = Some (Inr ?c')"
      using assms(1,2,4,5) c2 fin True v(1) by (simp add: perform.simps recv_action_def)
    then show ?thesis using c2 v(2) True by (intro exI [of _ ?c']) auto
  next
    case False
    then have "perform env bufsiz a c = Some (Inr c2)"
      using assms(1,2,4,5) c2 fin by (simp add: perform.simps recv_action_def)
    then show ?thesis using c2 False by simp
  qed
qed

lemma recv_first:
  assumes "serves env bufsiz atoms answer" "ready (expected c)" "ready (test c)" "received_since (log c) = []"
    and "good r" "good (answer (sent_bytes (log c)))" "atoms r = g @ later"
  shows "\<exists>c'. perform env bufsiz (data_action RECV (rsp_start r @ concat g)) c = Some (Inr c') \<and>
    taking r later (expected c') \<and> taking (answer (sent_bytes (log c))) [] (test c') \<and>
    conversation c' = conversation c \<and> sent_bytes (log c') = sent_bytes (log c) \<and>
    printed c' = printed c @ (if later = [] then response_report agree r (answer (sent_bytes (log c))) else [])"
proof -
  obtain b q where q: "processData (rsp_start r @ concat g) (expected c) = Some (Inr (b, q))" "taking r later q"
    using taking_first [OF assms(2,5,7)] by blast
  obtain c2 where c2: "read_loop env bufsiz (c\<lparr>expected := q\<rparr>) = Some (Inr c2)" "only_test (c\<lparr>expected := q\<rparr>) c2"
    "taking (answer (sent_bytes (log c))) [] (test c2)"
    using read_response [OF assms(1), of "c\<lparr>expected := q\<rparr>"] assms(3,4,6) by auto
  have "only_reads (socket c) (log c) (log c2)" using c2(2) by (simp add: only_test_def)
  then have "sent_bytes (log c2) = sent_bytes (log c)" by (rule only_reads_sent)
  then show ?thesis
    using recv_segment [OF ready_complete [OF assms(2)] _ q(2) _ c2(1,3), of "data_action RECV (rsp_start r @ concat g)" b] q c2(3)
    by auto
qed

lemma recv_more:
  assumes "taking r (g @ later) (expected c)" "g @ later \<noteq> []" "taking live [] (test c)"
  shows "\<exists>c'. perform env bufsiz (data_action RECV (concat g)) c = Some (Inr c') \<and>
    taking r later (expected c') \<and> taking live [] (test c') \<and>
    conversation c' = conversation c \<and> sent_bytes (log c') = sent_bytes (log c) \<and>
    printed c' = printed c @ (if later = [] then response_report agree r live else [])"
proof -
  obtain b q where q: "processData (concat g) (expected c) = Some (Inr (b, q))" "taking r later q"
    using taking_more [OF assms(1)] by blast
  have inc: "complete (expected c) = Inr False" using taking_complete [OF assms(1)] assms(2) by simp
  have "read_loop env bufsiz (c\<lparr>expected := q\<rparr>) = Some (Inr (c\<lparr>expected := q\<rparr>))"
    using taking_complete [OF assms(3)] by (simp add: read_loop.simps [of env bufsiz])
  from recv_segment [OF inc _ q(2) _ this, of "data_action RECV (concat g)" b live] q assms(3)
  show ?thesis by auto
qed

text \<open>The segments of a recorded response that follow the first one.\<close>

lemma replay_more:
  assumes "taking r (concat gs) (expected c)" "[] \<notin> set gs" "taking live [] (test c)" "gs \<noteq> []"
    and "action_queue (conversation c) = map (\<lambda>g. data_action RECV (concat g)) gs @ as"
  shows "\<exists>c'. replay env bufsiz c = replay env bufsiz c' \<and> action_queue (conversation c') = as \<and>
    taking r [] (expected c') \<and> taking live [] (test c') \<and> sent_bytes (log c') = sent_bytes (log c) \<and>
    printed c' = printed c @ response_report agree r live"
  using assms
proof (induction gs arbitrary: c)
  case (Cons g gs)
  let ?a = "data_action RECV (concat g)" and ?as = "map (\<lambda>g. data_action RECV (concat g)) gs @ as"
  have "taking r (g @ concat gs) (expected c)" "g @ concat gs \<noteq> []" using Cons.prems(1,2) by auto
  from recv_more [OF this Cons.prems(3)] obtain c1 where
    c1: "perform env bufsiz ?a c = Some (Inr c1)" "taking r (concat gs) (expected c1)" "taking live [] (test c1)"
      "conversation c1 = conversation c" "sent_bytes (log c1) = sent_bytes (log c)"
      "printed c1 = printed c @ (if concat gs = [] then response_report agree r live else [])" by blast
  let ?c = "c1\<lparr>conversation := (conversation c)\<lparr>action_queue := ?as\<rparr>\<rparr>"
  have step: "replay env bufsiz c = replay env bufsiz ?c"
    using Cons.prems(5) c1(1,4) by (intro replay_step) simp_all
  show ?case
  proof (cases "gs = []")
    case True
    with step c1 show ?thesis by (intro exI [of _ ?c]) simp
  next
    case False
    then have "concat gs \<noteq> []" using Cons.prems(2) by (cases gs) auto
    with c1(6) have "printed ?c = printed c" by (simp only: if_False append_Nil2) simp
    moreover have "\<exists>c'. replay env bufsiz ?c = replay env bufsiz c' \<and> action_queue (conversation c') = as \<and>
      taking r [] (expected c') \<and> taking live [] (test c') \<and> sent_bytes (log c') = sent_bytes (log ?c) \<and>
      printed c' = printed ?c @ response_report agree r live"
      using c1(2,3) Cons.prems(2) False by (intro Cons.IH) simp_all
    ultimately show ?thesis using step c1(5) by simp
  qed
qed simp

text \<open>A request: both processors are ready behind it, and the server has answered nothing yet.\<close>

lemma send_one:
  assumes "serves env bufsiz atoms answer" "bs \<noteq> []" "clean (headers (expected c))" "clean (headers (test c))"
  shows "\<exists>c'. perform env bufsiz (data_action SEND bs) c = Some (Inr c') \<and> conversation c' = conversation c \<and>
    ready (expected c') \<and> ready (test c') \<and> received_since (log c') = [] \<and>
    sent_bytes (log c') = sent_bytes (log c) @ bs \<and> printed c' = printed c"
proof -
  obtain l where l: "write_loop env (socket c) bs 0 (log c) = Inr l" "received_since l = []"
    using write_loop_served [OF assms(1), of "socket c" bs 0 "log c"] assms(2) by auto
  from write_loop_sends [OF servesD(3) [OF assms(1)] l(1)] have "sent_bytes l = sent_bytes (log c) @ bs" by simp
  with l assms(3,4) show ?thesis by (simp add: perform.simps send_action_def ready_reset)
qed

lemma replay_requests:
  assumes "serves env bufsiz atoms answer" "reqs \<noteq> []" "[] \<notin> set reqs" "clean (headers (expected c))" "clean (headers (test c))"
    and "action_queue (conversation c) = map (data_action SEND) reqs @ as"
  shows "\<exists>c'. replay env bufsiz c = replay env bufsiz c' \<and> action_queue (conversation c') = as \<and>
    ready (expected c') \<and> ready (test c') \<and> received_since (log c') = [] \<and>
    sent_bytes (log c') = sent_bytes (log c) @ concat reqs \<and> printed c' = printed c"
  using assms(2-)
proof (induction reqs arbitrary: c)
  case (Cons bs reqs)
  let ?as = "map (data_action SEND) reqs @ as"
  have "bs \<noteq> []" using Cons.prems(2) by auto
  from send_one [OF assms(1) this Cons.prems(3,4)] obtain c1 where
    c1: "perform env bufsiz (data_action SEND bs) c = Some (Inr c1)" "conversation c1 = conversation c"
      "ready (expected c1)" "ready (test c1)" "received_since (log c1) = []"
      "sent_bytes (log c1) = sent_bytes (log c) @ bs" "printed c1 = printed c" by blast
  let ?c = "c1\<lparr>conversation := (conversation c)\<lparr>action_queue := ?as\<rparr>\<rparr>"
  have step: "replay env bufsiz c = replay env bufsiz ?c"
    using Cons.prems(5) c1(1,2) by (intro replay_step) simp_all
  show ?case
  proof (cases "reqs = []")
    case True
    with step c1 show ?thesis by (intro exI [of _ ?c]) simp
  next
    case False
    with Cons.IH [of ?c] c1 Cons.prems(2) step show ?thesis by (auto simp: ready_def)
  qed
qed simp

lemma replay_exchange:
  assumes "serves env bufsiz atoms answer" "exchange_ok atoms good e" "good (answer (sent_bytes (log c) @ concat (ex_requests e)))"
    and "clean (headers (expected c))" "clean (headers (test c))"
    and "action_queue (conversation c) = exchange_actions e @ as"
  shows "\<exists>c'. replay env bufsiz c = replay env bufsiz c' \<and> action_queue (conversation c') = as \<and>
    clean (headers (expected c')) \<and> clean (headers (test c')) \<and>
    sent_bytes (log c') = sent_bytes (log c) @ concat (ex_requests e) \<and>
    printed c' = printed c @ response_report agree (ex_response e) (answer (sent_bytes (log c) @ concat (ex_requests e)))"
proof -
  let ?r = "ex_response e" and ?live = "answer (sent_bytes (log c) @ concat (ex_requests e))"
  obtain g gs where gs: "ex_pieces e = g # gs" using assms(2) by (cases "ex_pieces e") (auto simp: exchange_ok_def)
  have ok: "ex_requests e \<noteq> []" "[] \<notin> set (ex_requests e)" "good ?r" "[] \<notin> set gs" "atoms ?r = g @ concat gs"
    using assms(2) gs by (simp_all add: exchange_ok_def)
  let ?more = "map (\<lambda>g. data_action RECV (concat g)) gs @ as" and ?first = "data_action RECV (rsp_start ?r @ concat g)"
  have "action_queue (conversation c) = map (data_action SEND) (ex_requests e) @ ?first # ?more"
    using assms(6) gs by (simp add: exchange_actions_def)
  from replay_requests [OF assms(1) ok(1,2) assms(4,5) this] obtain c1 where
    c1: "replay env bufsiz c = replay env bufsiz c1" "action_queue (conversation c1) = ?first # ?more"
      "ready (expected c1)" "ready (test c1)" "received_since (log c1) = []"
      "sent_bytes (log c1) = sent_bytes (log c) @ concat (ex_requests e)" "printed c1 = printed c" by blast
  have "good (answer (sent_bytes (log c1)))" using assms(3) c1(6) by simp
  from recv_first [OF assms(1) c1(3-5) ok(3) this ok(5)] obtain c2 where
    c2: "perform env bufsiz ?first c1 = Some (Inr c2)" "taking ?r (concat gs) (expected c2)" "taking ?live [] (test c2)"
      "conversation c2 = conversation c1" "sent_bytes (log c2) = sent_bytes (log c1)"
      "printed c2 = printed c1 @ (if concat gs = [] then response_report agree ?r ?live else [])"
    unfolding c1(6) by blast
  let ?c = "c2\<lparr>conversation := (conversation c1)\<lparr>action_queue := ?more\<rparr>\<rparr>"
  have step: "replay env bufsiz c1 = replay env bufsiz ?c" using c1(2) c2(1,4) by (intro replay_step) simp_all
  show ?thesis
  proof (cases "gs = []")
    case True
    with step c1 c2 show ?thesis by (intro exI [of _ ?c]) (auto simp: taking_clean)
  next
    case False
    then have "concat gs \<noteq> []" using ok(4) by (cases gs) auto
    moreover obtain c3 where "replay env bufsiz ?c = replay env bufsiz c3" "action_queue (conversation c3) = as"
      "taking ?r [] (expected c3)" "taking ?live [] (test c3)" "sent_bytes (log c3) = sent_bytes (log ?c)"
      "printed c3 = printed ?c @ response_report agree ?r ?live"
      using replay_more [of ?r gs ?c ?live as] c2(2,3) ok(4) False by auto
    ultimately show ?thesis
      using step c1 c2 by (intro exI [of _ c3]) (auto simp: taking_clean)
  qed
qed

lemma replay_exchanges:
  assumes "serves env bufsiz atoms answer" "\<forall>e \<in> set es. exchange_ok atoms good e" "\<And>sent. good (answer sent)"
    and "clean (headers (expected c))" "clean (headers (test c))"
    and "action_queue (conversation c) = concat (map exchange_actions es) @ [new_action CLOSE]"
  shows "\<exists>c'. replay env bufsiz c = Some (Inr c') \<and>
    printed c' = printed c @ served_reports agree answer (sent_bytes (log c)) es"
  using assms(2,4-)
proof (induction es arbitrary: c)
  case Nil
  have "perform env bufsiz (new_action CLOSE) c = Some (Inr (close_action env c))"
    by (simp add: perform.simps new_action_def)
  from replay_step [OF _ this, of "[]"] Nil show ?case
    by (simp add: replay_end close_action_def)
next
  case (Cons e es)
  have "action_queue (conversation c) = exchange_actions e @ concat (map exchange_actions es) @ [new_action CLOSE]"
    using Cons.prems by simp
  from replay_exchange [OF assms(1) _ assms(3) _ _ this] Cons.prems obtain c1 where
    "replay env bufsiz c = replay env bufsiz c1"
    "action_queue (conversation c1) = concat (map exchange_actions es) @ [new_action CLOSE]"
    "clean (headers (expected c1))" "clean (headers (test c1))"
    "sent_bytes (log c1) = sent_bytes (log c) @ concat (ex_requests e)"
    "printed c1 = printed c @ response_report agree (ex_response e) (answer (sent_bytes (log c) @ concat (ex_requests e)))"
    by auto
  with Cons.IH [of c1] Cons.prems show ?case by simp
qed

text \<open>A whole session.\<close>

lemma session_served:
  assumes "serves env bufsiz atoms answer" "\<forall>e \<in> set es. exchange_ok atoms good e" "\<And>sent. good (answer sent)"
    and "action_queue c = new_action CONNECT # concat (map exchange_actions es) @ [new_action CLOSE]"
  shows "\<exists>c'. replay env bufsiz (new_client c l) = Some (Inr c') \<and>
    printed c' = served_reports agree answer (sent_bytes l) es"
proof -
  let ?c = "new_client c l"
  obtain c1 where c1: "perform env bufsiz (new_action CONNECT) ?c = Some (Inr c1)" "conversation c1 = c"
    "expected c1 = new_processor" "test c1 = new_processor" "sent_bytes (log c1) = sent_bytes l" "printed c1 = []"
  proof -
    have "\<not> ret (env l' (Sys_socket fam t)) < 0" "ret (env l' (Sys_connect fd a n)) = 0" for l' fam t fd a n
      using servesD(1,2) [OF assms(1)] by (simp_all add: not_less)
    then show thesis
      using that by (simp add: perform.simps new_action_def connect_action_def new_client_def sys_def Let_def)
  qed
  let ?c1 = "c1\<lparr>conversation := c\<lparr>action_queue := concat (map exchange_actions es) @ [new_action CLOSE]\<rparr>\<rparr>"
  have "replay env bufsiz ?c = replay env bufsiz ?c1"
    using replay_step [OF _ c1(1), of "concat (map exchange_actions es) @ [new_action CLOSE]"] c1(2) assms(4)
    by (simp add: new_client_def)
  moreover have "clean (headers new_processor)" using ready_new by (simp add: ready_def)
  ultimately show ?thesis
    using replay_exchanges [OF assms(1-3), of ?c1] c1 by simp
qed

end

section \<open>The two kinds of body\<close>

text \<open>Responses with a content length: every byte of the body is an atom.\<close>

definition content_atoms :: "byte list http_response \<Rightarrow> byte list list" where
  "content_atoms r = map (\<lambda>b. [b]) (rsp_body r)"

definition content_response_ok :: "byte list http_response \<Rightarrow> bool" where
  "content_response_ok r \<longleftrightarrow> rsp_head_ok r \<and> length (rsp_body r) < 2 ^ 31 \<and>
     field_table (rsp_fields r) ''content-length'' = Some (to_string (length (rsp_body r)))"

definition content_later :: "byte list http_response \<Rightarrow> byte list list \<Rightarrow> data_processor \<Rightarrow> bool" where
  "content_later r later d \<longleftrightarrow>
     (\<exists>p done todo. d = Content p \<and> content_holds done todo p \<and> rsp_body r = done @ todo \<and> later = map (\<lambda>b. [b]) todo)"

lemma content_later_start:
  assumes "content_response_ok r"
  shows "\<exists>d. select_processor (put_fields (rsp_fields r) hs) = Inr d \<and> content_later r (content_atoms r) d"
proof -
  have "map_of (put_fields (rsp_fields r) hs) ''content-length'' = Some (to_string (length (rsp_body r)))"
    "length (rsp_body r) < 2 ^ 31"
    using assms by (simp_all add: content_response_ok_def map_of_put_fields)
  from content_new [OF this] show ?thesis by (force simp: content_later_def content_atoms_def)
qed

lemma content_later_piece:
  assumes "content_later r (g @ later) d"
  shows "\<exists>d'. process (concat g) d = Some (Inr d') \<and> content_later r later d'"
proof -
  obtain p "done" todo where p: "d = Content p" "content_holds done todo p" "rsp_body r = done @ todo"
    "g @ later = map (\<lambda>b. [b]) todo" using assms by (auto simp: content_later_def)
  define x y where "x = take (length g) todo" and "y = drop (length g) todo"
  have xy: "todo = x @ y" by (simp add: x_def y_def)
  have g: "g = map (\<lambda>b. [b]) x" "later = map (\<lambda>b. [b]) y"
    using p(4) unfolding x_def y_def take_map [symmetric] drop_map [symmetric] by (metis append_eq_conv_conj)+
  obtain p' where p': "content_process x p = Inr p'" "content_holds (done @ x) y p'"
    using content_piece p(2) xy by blast
  then have "content_later r later (Content p')"
    unfolding content_later_def using p(3) xy g
    by (intro exI [of _ p'] exI [of _ "done @ x"] exI [of _ y]) simp
  then show ?thesis using p(1) p'(1) g by (simp add: concat_singletons)
qed

lemma content_later_complete: "content_later r later d \<Longrightarrow> isComplete d \<longleftrightarrow> later = []"
  by (auto simp: content_later_def content_holds_def content_complete_def)

lemma content_later_compared:
  "content_later r [] d \<Longrightarrow> content_later r' [] d' \<Longrightarrow>
    \<exists>v. compare_data d d' = Inr v \<and> (v = 0 \<longleftrightarrow> rsp_body r = rsp_body r')"
  using content_compare_holds by (auto simp: content_later_def)

interpretation content_format: body_format content_atoms content_response_ok "\<lambda>hs. True" content_later "(=)"
proof unfold_locales
  show "content_response_ok r \<Longrightarrow> rsp_head_ok r" for r by (simp add: content_response_ok_def)
qed (use content_later_start content_later_piece content_later_complete content_later_compared in auto)

text \<open>
  Chunked responses. The headers of earlier responses must not have announced a content length;
  bodies are compared up to the first zero byte.
\<close>

definition chunked_atoms :: "chunk list http_response \<Rightarrow> byte list list" where
  "chunked_atoms r = body_atoms (rsp_body r)"

definition chunked_response_ok :: "chunk list http_response \<Rightarrow> bool" where
  "chunked_response_ok r \<longleftrightarrow> rsp_head_ok r \<and> body_wf (rsp_body r) \<and>
     field_table (rsp_fields r) ''content-length'' = None \<and>
     field_table (rsp_fields r) ''transfer-encoding'' = Some ''chunked''"

definition no_content_length :: "(string \<times> string) list \<Rightarrow> bool" where
  "no_content_length hs \<longleftrightarrow> map_of hs ''content-length'' = None"

definition chunked_later :: "chunk list http_response \<Rightarrow> byte list list \<Rightarrow> data_processor \<Rightarrow> bool" where
  "chunked_later r later d \<longleftrightarrow> (\<exists>s. d = Chunks s \<and> received later (body_data (rsp_body r)) s)"

definition chunked_agree :: "chunk list \<Rightarrow> chunk list \<Rightarrow> bool" where
  "chunked_agree a b \<longleftrightarrow> length (body_data a) = length (body_data b) \<and>
     takeWhile (\<lambda>x. x \<noteq> 0) (body_data a) = takeWhile (\<lambda>x. x \<noteq> 0) (body_data b)"

lemma chunked_later_start:
  assumes "chunked_response_ok r" "no_content_length hs"
  shows "\<exists>d. select_processor (put_fields (rsp_fields r) hs) = Inr d \<and> chunked_later r (chunked_atoms r) d"
proof -
  have "is_chunked ''chunked''" by code_simp
  then have "select_processor (put_fields (rsp_fields r) hs) = Inr (Chunks ChunkedProcessor)"
    using assms
    by (simp add: select_processor_def map_contains_def map_of_put_fields chunked_response_ok_def no_content_length_def map_add_def)
  with assms(1) received_new show ?thesis
    by (auto simp: chunked_later_def chunked_atoms_def chunked_response_ok_def)
qed

lemma chunked_later_compared:
  assumes "chunked_later r [] d" "chunked_later r' [] d'"
  shows "\<exists>v. compare_data d d' = Inr v \<and> (v = 0 \<longleftrightarrow> chunked_agree (rsp_body r) (rsp_body r'))"
proof -
  obtain s t where "d = Chunks s" "d' = Chunks t" "chunk_data s = body_data (rsp_body r)" "chunk_data t = body_data (rsp_body r')"
    using assms by (auto simp: chunked_later_def received_def)
  then show ?thesis using chunked_compare_prefix [of s t] by (simp add: chunked_agree_def)
qed

interpretation chunked_format:
  body_format chunked_atoms chunked_response_ok no_content_length chunked_later chunked_agree
proof unfold_locales
  show "chunked_response_ok r \<Longrightarrow> no_content_length hs \<Longrightarrow> no_content_length (put_fields (rsp_fields r) hs)" for r hs
    by (simp add: no_content_length_def chunked_response_ok_def map_of_put_fields map_add_def)
  show "chunked_later r (g @ later) d \<Longrightarrow> \<exists>d'. process (concat g) d = Some (Inr d') \<and> chunked_later r later d'" for r g later d
    using process_piece by (fastforce simp: chunked_later_def)
  show "chunked_later r later d \<Longrightarrow> isComplete d \<longleftrightarrow> later = []" for r later d
    using received_complete by (auto simp: chunked_later_def)
qed (use chunked_later_start chunked_later_compared in \<open>simp_all add: chunked_response_ok_def no_content_length_def\<close>)

end
