(* ===== verification/Http_Completion.thy ===== *)
theory Http_Completion
  imports Programs Http_Servers
begin

text \<open>
  From a capture to the exit of the HTTP program (src/src/http_replay/http_replay.cc) against a
  server that answers every request with the whole header of a response in its first piece: the program
  ends, it reports exactly the responses that differ, and it sends what the captured client sent from
  behind the handshake to the first \<open>FIN\<close>. The environment is total, so these are statements
  that the program ends, not only of what it does if it ends.
\<close>

section \<open>Captured exchanges\<close>

text \<open>The payloads of a flow, with a flag for those of the client.\<close>

definition flow_messages :: "wire \<Rightarrow> wire list \<Rightarrow> (bool \<times> byte list) list" where
  "flow_messages syn ws =
     map (\<lambda>w. (w_src w = w_src syn \<and> w_sport w = w_sport syn, w_payload w)) (filter (\<lambda>w. w_payload w \<noteq> []) ws)"

definition exchange_messages :: "'b exchange \<Rightarrow> (bool \<times> byte list) list" where
  "exchange_messages e =
     map (Pair True) (ex_requests e) @
     (False, rsp_start (ex_response e) @ concat (hd (ex_pieces e))) # map (\<lambda>g. (False, concat g)) (tl (ex_pieces e))"

definition message_action :: "bool \<times> byte list \<Rightarrow> action" where
  "message_action m = data_action (if fst m then SEND else RECV) (snd m)"

lemma exchange_actions_messages: "exchange_actions e = map message_action (exchange_messages e)"
  by (simp add: exchange_actions_def exchange_messages_def message_action_def comp_def)

lemma data_actions_messages:
  "concat (map (data_actions (w_src syn) (htons (w_sport syn))) (map wire_segment ws)) =
    map message_action (flow_messages syn ws)"
  by (induction ws)
    (auto simp: flow_messages_def message_action_def data_action_def data_actions_def wire_segment_def)

lemma recorded_exchanges:
  assumes "flow_messages syn ws = concat (map exchange_messages es)"
  shows "concat (map (data_actions (w_src syn) (htons (w_sport syn))) (map wire_segment ws)) =
    concat (map exchange_actions es)"
  unfolding data_actions_messages exchange_actions_messages assms by (simp add: map_concat comp_def)

section \<open>The program on one session\<close>

text \<open>
  A capture whose first flow is a complete session: the handshake, the segments up to the first
  \<open>FIN\<close>, and a rest that does not open a connection anew.
\<close>

definition captured_session :: "wire list \<Rightarrow> wire \<Rightarrow> wire list \<Rightarrow> bool" where
  "captured_session ws syn data \<longleftrightarrow>
     (\<forall>w \<in> set (syn # ws). wire_ok w) \<and>
     (\<exists>synack ack after. filter (same_flow syn) (syn # ws) = [syn, synack, ack] @ data @ after \<and>
        (\<forall>w \<in> set after. \<not> (w_src w = w_src syn \<and> w_flags w = TH_SYN)) \<and>
        handshake (w_src syn) (w_dst syn) (wire_segment syn) (wire_segment synack) (wire_segment ack)) \<and>
     data \<noteq> [] \<and> (\<forall>w \<in> set (butlast data). w_flags w AND TH_RST = 0 \<and> w_flags w AND TH_FIN = 0) \<and>
     w_flags (last data) AND TH_RST = 0 \<and> w_flags (last data) AND TH_FIN \<noteq> 0"

lemma captured_session_loaded:
  assumes "captured_session ws syn data" "pcap_open file = Inr (capture_of (syn # ws))"
  shows "\<exists>cap c. load_capture (TcpConversationFactory n) tcp_processCapturePacket pcap_open file
      \<lparr>conversation_store = new_store, datalink_type = 0\<rparr> = Inr cap \<and>
    getConversations (conversation_store cap) = [c] \<and>
    action_queue c = new_action CONNECT #
      concat (map (data_actions (w_src syn) (htons (w_sport syn))) (map wire_segment data)) @ [new_action CLOSE]"
proof -
  obtain synack ack after where s: "filter (same_flow syn) (syn # ws) = [syn, synack, ack] @ data @ after"
    "handshake (w_src syn) (w_dst syn) (wire_segment syn) (wire_segment synack) (wire_segment ack)"
    "\<forall>w \<in> set after. \<not> (w_src w = w_src syn \<and> w_flags w = TH_SYN)"
    using assms(1) by (auto simp: captured_session_def simp del: filter.simps)
  have parts: "\<forall>w \<in> set (syn # ws). wire_ok w" "data = butlast data @ [last data]"
    "\<forall>w \<in> set (butlast data). w_flags w AND TH_RST = 0 \<and> w_flags w AND TH_FIN = 0"
    "w_flags (last data) AND TH_RST = 0" "w_flags (last data) AND TH_FIN \<noteq> 0"
    using assms(1) by (simp_all add: captured_session_def)
  have "filter (same_flow syn) (syn # ws) = [syn, synack, ack] @ butlast data @ [last data] @ after"
    using s(1) parts(2) by (metis append.assoc)
  from load_records_first_session [where n = n and pcap_open = pcap_open, OF parts(1) this s(2) parts(3-5) s(3) assms(2)]
  show ?thesis unfolding parts(2) [symmetric] by blast
qed

lemma session_program:
  assumes "captured_session ws syn data" "pcap_open file = Inr (capture_of (syn # ws))"
    and "\<And>c. action_queue c = new_action CONNECT #
        concat (map (data_actions (w_src syn) (htons (w_sport syn))) (map wire_segment data)) @ [new_action CLOSE] \<Longrightarrow>
      \<exists>c'. replay env bufsiz (new_client c []) = Some (Inr c') \<and> printed c' = out"
    and "write_bounded env"
  shows "\<exists>l. http_main env bufsiz n pcap_open [] [file] = Some (Inr (Done out, Some l)) \<and>
    sent_bytes l = client_bytes syn data"
proof -
  obtain cap c where c: "load_capture (TcpConversationFactory n) tcp_processCapturePacket pcap_open file
      \<lparr>conversation_store = new_store, datalink_type = 0\<rparr> = Inr cap"
    "getConversations (conversation_store cap) = [c]"
    "action_queue c = new_action CONNECT #
      concat (map (data_actions (w_src syn) (htons (w_sport syn))) (map wire_segment data)) @ [new_action CLOSE]"
    using captured_session_loaded [where n = n and pcap_open = pcap_open, OF assms(1,2)] by blast
  obtain c' where c': "replay env bufsiz (new_client c []) = Some (Inr c')" "printed c' = out"
    using assms(3) [OF c(3)] by blast
  have "sent_bytes (log c') = concat (send_data (action_queue c))"
    using replay_result [OF c'(1)] assms(4) by (simp add: new_client_def)
  moreover define recorded where "recorded =
    concat (map (data_actions (w_src syn) (htons (w_sport syn))) (map wire_segment data))"
  ultimately have "sent_bytes (log c') = concat (send_data recorded)"
    unfolding c(3) by (simp add: send_data_append new_action_def)
  then have "sent_bytes (log c') = client_bytes syn data" unfolding recorded_def send_data_wires .
  then show ?thesis
    using c(1,2) c' by (simp add: http_main_def http_run_def)
qed

section \<open>Properties\<close>

text \<open>
  C3. The HTTP program ends, for responses with a content length. A capture whose first flow is one
  complete session of requests and responses is replayed to the end against every server that
  accepts the connection, takes some bytes of each write and answers what was sent so far by a
  response with a content length whose whole header comes with the first read after the request; the
  body may come in any pieces. The first captured segment of every response holds its whole header,
  too, and bodies are split freely over the further ones. The program then exits normally, has sent
  the client's bytes of the session (from behind the handshake to the first \<open>FIN\<close>) and reports
  exactly the responses that differ in status or body from the recorded ones. A server that splits the
  header is outside: against it the client ends in an undefined operation
  (\<open>short_first_read_undefined\<close>).
\<close>

theorem http_program_completes:
  assumes "captured_session ws syn data" "pcap_open file = Inr (capture_of (syn # ws))"
    and "flow_messages syn data = concat (map exchange_messages es)"
    and "\<forall>e \<in> set es. exchange_ok content_atoms content_response_ok e"
    and "\<And>sent. content_response_ok (answer sent)" "serves env bufsiz content_atoms answer"
  shows "\<exists>l. http_main env bufsiz n pcap_open [] [file] =
      Some (Inr (Done (served_reports (=) answer [] es), Some l)) \<and>
    sent_bytes l = client_bytes syn data"
  using assms(1,2)
proof (rule session_program)
  show "\<exists>c'. replay env bufsiz (new_client c []) = Some (Inr c') \<and> printed c' = served_reports (=) answer [] es"
    if "action_queue c = new_action CONNECT #
      concat (map (data_actions (w_src syn) (htons (w_sport syn))) (map wire_segment data)) @ [new_action CLOSE]" for c
    using content_format.session_served [OF assms(6,4,5), of c "[]"] that
    unfolding recorded_exchanges [OF assms(3)] by simp
qed (rule servesD(3) [OF assms(6)])

text \<open>
  C4. The HTTP program ends, for chunked responses, with the same conditions: in the capture as from the
  server the whole header of a response comes with its first piece, and, besides, every chunk-size line
  comes in one piece; the rest of the body may be split anywhere. The program exits normally and has
  sent the client's bytes of the session, and it reports exactly the responses that differ in status, in
  the length of the data or before the first zero byte of it.
\<close>

theorem http_program_completes_chunked:
  assumes "captured_session ws syn data" "pcap_open file = Inr (capture_of (syn # ws))"
    and "flow_messages syn data = concat (map exchange_messages es)"
    and "\<forall>e \<in> set es. exchange_ok chunked_atoms chunked_response_ok e"
    and "\<And>sent. chunked_response_ok (answer sent)" "serves env bufsiz chunked_atoms answer"
  shows "\<exists>l. http_main env bufsiz n pcap_open [] [file] =
      Some (Inr (Done (served_reports chunked_agree answer [] es), Some l)) \<and>
    sent_bytes l = client_bytes syn data"
  using assms(1,2)
proof (rule session_program)
  show "\<exists>c'. replay env bufsiz (new_client c []) = Some (Inr c') \<and> printed c' = served_reports chunked_agree answer [] es"
    if "action_queue c = new_action CONNECT #
      concat (map (data_actions (w_src syn) (htons (w_sport syn))) (map wire_segment data)) @ [new_action CLOSE]" for c
    using chunked_format.session_served [OF assms(6,4,5), of c "[]"] that
    unfolding recorded_exchanges [OF assms(3)] by simp
qed (rule servesD(3) [OF assms(6)])

section \<open>Witnesses\<close>

text \<open>
  A server that takes one byte of every write and answers slowly: the header first, then one atom of
  the body per read.
\<close>

fun next_atom :: "byte list list \<Rightarrow> byte list \<Rightarrow> byte list" where
  "next_atom [] bs = []"
| "next_atom (a # as) bs = (if bs = [] then a else next_atom as (drop (length a) bs))"

lemma next_atom_later: "\<forall>a \<in> set g. a \<noteq> [] \<Longrightarrow> next_atom (g @ a # later) (concat g) = a"
  by (induction g) simp_all

definition paced_server ::
  "('b http_response \<Rightarrow> byte list list) \<Rightarrow> (byte list \<Rightarrow> 'b http_response) \<Rightarrow> environment" where
  "paced_server atoms answer l c =
     (case c of
        Sys_socket _ _ \<Rightarrow> \<lparr>ret = 3, got = [], err = []\<rparr>
      | Sys_write _ bs \<Rightarrow> \<lparr>ret = min 1 (int (length bs)), got = [], err = []\<rparr>
      | Sys_read _ _ \<Rightarrow>
          (let r = answer (sent_bytes l); seen = received_since l;
               bs = (if seen = [] then rsp_start r else next_atom (atoms r) (drop (length (rsp_start r)) seen))
           in \<lparr>ret = int (length bs), got = bs, err = []\<rparr>)
      | _ \<Rightarrow> \<lparr>ret = 0, got = [], err = []\<rparr>)"

lemma paced_serves:
  assumes "\<And>sent. rsp_start (answer sent) \<noteq> []" "\<And>sent. length (rsp_start (answer sent)) \<le> bufsiz"
    and "\<And>sent. \<forall>a \<in> set (atoms (answer sent)). a \<noteq> [] \<and> length a \<le> bufsiz"
  shows "serves (paced_server atoms answer) bufsiz atoms answer"
proof -
  have "first_reads (paced_server atoms answer) bufsiz atoms answer"
    unfolding first_reads_def
  proof (intro allI impI)
    fix l fd assume "received_since l = []"
    with assms(1,2) [of "sent_bytes l"]
    show "\<exists>g later. atoms (answer (sent_bytes l)) = g @ later \<and>
        answers_with (rsp_start (answer (sent_bytes l)) @ concat g) bufsiz (paced_server atoms answer l (Sys_read fd bufsiz))"
      by (intro exI [of _ "[]"] exI [of _ "atoms (answer (sent_bytes l))"])
        (simp add: answers_with_def paced_server_def received_bytes_def Let_def)
  qed
  moreover have "later_reads (paced_server atoms answer) bufsiz atoms answer"
    unfolding later_reads_def
  proof (intro allI impI)
    fix l fd g later
    let ?r = "answer (sent_bytes l)"
    assume l: "atoms ?r = g @ later" "later \<noteq> []" "received_since l = rsp_start ?r @ concat g"
    then obtain a as where a: "later = a # as" by (cases later) auto
    have all: "\<forall>a \<in> set (g @ a # as). a \<noteq> [] \<and> length a \<le> bufsiz"
      using assms(3) [of "sent_bytes l"] l(1) a by simp
    then have "next_atom (atoms ?r) (concat g) = a" unfolding l(1) a by (intro next_atom_later) simp
    then have "answers_with a bufsiz (paced_server atoms answer l (Sys_read fd bufsiz))"
      using all l(3) assms(1) [of "sent_bytes l"]
      by (simp add: answers_with_def paced_server_def received_bytes_def Let_def)
    then show "\<exists>g' later'. later = g' @ later' \<and>
        answers_with (concat g') bufsiz (paced_server atoms answer l (Sys_read fd bufsiz))"
      using a by (intro exI [of _ "[a]"] exI [of _ as]) simp
  qed
  ultimately show ?thesis
    by (auto simp: serves_def write_bounded_def paced_server_def)
qed

text \<open>One request; its response is captured in two segments, the second with \<open>FIN\<close>.\<close>

definition sample_exchange_frames :: "byte list \<Rightarrow> byte list \<Rightarrow> wire list" where
  "sample_exchange_frames x y =
     [sample_wire 1 700 2 80 0x18 [71], sample_wire 2 80 1 700 0x18 x, sample_wire 2 80 1 700 0x11 y]"

definition sample_syn :: wire where "sample_syn = sample_wire 1 700 2 80 0x02 []"

definition sample_captured :: "byte list \<Rightarrow> byte list \<Rightarrow> wire list" where
  "sample_captured x y =
     [sample_wire 2 80 1 700 0x12 [], sample_wire 1 700 2 80 0x10 [], sample_wire 3 700 2 80 0x10 [9]] @
     sample_exchange_frames x y @ [sample_wire 1 700 2 80 0x11 [9]]"

lemma sample_captured_session:
  assumes "length x < 100" "length y < 100"
  shows "captured_session (sample_captured x y) sample_syn (sample_exchange_frames x y)"
proof -
  have "handshake (w_src sample_syn) (w_dst sample_syn) (wire_segment sample_syn)
      (wire_segment (sample_wire 2 80 1 700 0x12 [])) (wire_segment (sample_wire 1 700 2 80 0x10 []))"
    by code_simp
  moreover have "filter (same_flow sample_syn) (sample_syn # sample_captured x y) =
      [sample_syn, sample_wire 2 80 1 700 0x12 [], sample_wire 1 700 2 80 0x10 []] @ sample_exchange_frames x y @ [sample_wire 1 700 2 80 0x11 [9]]"
    by (simp add: sample_syn_def sample_captured_def sample_exchange_frames_def sample_same_flow)
  moreover have "\<forall>w \<in> set (sample_syn # sample_captured x y). wire_ok w"
    using assms by (simp add: sample_syn_def sample_captured_def sample_exchange_frames_def sample_wire_ok)
  moreover have "sample_exchange_frames x y \<noteq> []"
    "\<forall>w \<in> set (butlast (sample_exchange_frames x y)). w_flags w AND TH_RST = 0 \<and> w_flags w AND TH_FIN = 0"
    "w_flags (last (sample_exchange_frames x y)) AND TH_RST = 0" "w_flags (last (sample_exchange_frames x y)) AND TH_FIN \<noteq> 0"
    by (simp_all add: sample_exchange_frames_def sample_wire_def TH_RST_def TH_FIN_def)
  moreover have "\<forall>w \<in> set [sample_wire 1 700 2 80 0x11 [9]]. \<not> (w_src w = w_src sample_syn \<and> w_flags w = TH_SYN)"
    by (simp add: sample_wire_def TH_SYN_def)
  ultimately show ?thesis unfolding captured_session_def by blast
qed

definition sample_exchange :: "('b http_response \<Rightarrow> byte list list) \<Rightarrow> 'b http_response \<Rightarrow> nat \<Rightarrow> 'b exchange" where
  "sample_exchange atoms r k =
     \<lparr>ex_requests = [[71]], ex_response = r, ex_pieces = [take k (atoms r), drop k (atoms r)]\<rparr>"

lemma sample_exchange_ok:
  assumes "good r" "k < length (atoms r)"
  shows "exchange_ok atoms good (sample_exchange atoms r k)"
  using assms by (simp add: exchange_ok_def sample_exchange_def)

lemma sample_exchange_captured:
  assumes "x = rsp_start r @ concat (take k (atoms r))" "y = concat (drop k (atoms r))" "x \<noteq> []" "y \<noteq> []"
  shows "flow_messages sample_syn (sample_exchange_frames x y) = concat (map exchange_messages [sample_exchange atoms r k])"
  using assms(3,4)
  by (simp add: flow_messages_def sample_exchange_frames_def sample_syn_def sample_wire_def exchange_messages_def sample_exchange_def
      flip: assms(1,2))

text \<open>The server answers the captured request by another body.\<close>

definition sample_content_response :: "byte list \<Rightarrow> byte list http_response" where
  "sample_content_response b =
     \<lparr>rsp_version = ''HTTP/1.1'', rsp_code = 200, rsp_reason = ''OK'', rsp_fields = sample_fields, rsp_body = b\<rparr>"

definition sample_answer :: "byte list \<Rightarrow> byte list http_response" where
  "sample_answer sent = sample_content_response (if sent = [71] then [1, 2, 3, 4, 6] else [0, 0, 0, 0, 0])"

lemma sample_content_start:
  "rsp_start (sample_content_response b) = header_bytes (response_head ''HTTP/1.1'' 200 ''OK'' sample_fields)"
  by (simp add: rsp_start_def sample_content_response_def)

lemma sample_start_length:
  "length (header_bytes (response_head ''HTTP/1.1'' 200 ''OK'' sample_fields)) = 49"
  by code_simp

lemma sample_content_ok: "length b = 5 \<Longrightarrow> content_response_ok (sample_content_response b)"
proof -
  have "field_table sample_fields ''content-length'' = Some (to_string 5)" by code_simp
  then show "length b = 5 \<Longrightarrow> content_response_ok (sample_content_response b)"
    using sample_heads(1) by (simp add: content_response_ok_def rsp_head_ok_def sample_content_response_def)
qed

theorem http_program_completes_witness:
  "\<exists>ws l. http_main (paced_server content_atoms sample_answer) 64 sample_inet6 (\<lambda>_. Inr (capture_of ws)) [] [''a.pcap''] =
    Some (Inr (Done [difference_message], Some l)) \<and> sent_bytes l = [71]"
proof -
  let ?r = "sample_content_response [1, 2, 3, 4, 5]"
  let ?e = "sample_exchange content_atoms ?r 2"
  define x where "x = rsp_start ?r @ concat (take 2 (content_atoms ?r))"
  define y where "y = concat (drop 2 (content_atoms ?r))"
  have xy: "length x = 51" "length y = 3"
    by (simp_all add: x_def y_def sample_content_start sample_start_length)
      (simp_all add: content_atoms_def sample_content_response_def)
  have good: "content_response_ok (sample_answer sent)" "content_response_ok ?r" for sent
    by (simp_all add: sample_answer_def sample_content_ok)
  have start: "length (rsp_start (sample_answer sent)) = 49" for sent
    by (simp add: sample_answer_def sample_content_start sample_start_length)
  have serves: "serves (paced_server content_atoms sample_answer) 64 content_atoms sample_answer"
  proof (rule paced_serves)
    show "rsp_start (sample_answer sent) \<noteq> []" for sent using start [of sent] by auto
    show "length (rsp_start (sample_answer sent)) \<le> 64" for sent using start [of sent] by simp
  qed (simp add: content_atoms_def)
  have flow: "flow_messages sample_syn (sample_exchange_frames x y) = concat (map exchange_messages [?e])"
    by (rule sample_exchange_captured [where r = ?r and k = 2 and atoms = content_atoms, OF x_def y_def]) (use xy in auto)
  have exchange: "\<forall>e \<in> set [?e]. exchange_ok content_atoms content_response_ok e"
    using sample_exchange_ok [where good = content_response_ok and atoms = content_atoms and k = 2, OF good(2)] by (simp add: content_atoms_def sample_content_response_def)
  have "captured_session (sample_captured x y) sample_syn (sample_exchange_frames x y)"
    using xy by (intro sample_captured_session) simp_all
  from http_program_completes [where n = sample_inet6 and
      pcap_open = "\<lambda>_. Inr (capture_of (sample_syn # sample_captured x y))", OF this refl flow exchange good(1) serves]
  obtain l where l: "http_main (paced_server content_atoms sample_answer) 64 sample_inet6
      (\<lambda>_. Inr (capture_of (sample_syn # sample_captured x y))) [] [''a.pcap''] =
      Some (Inr (Done (served_reports (=) sample_answer [] [?e]), Some l))"
    "sent_bytes l = client_bytes sample_syn (sample_exchange_frames x y)" by blast
  have "served_reports (=) sample_answer [] [?e] = [difference_message]"
    by (simp add: response_report_def sample_exchange_def sample_answer_def sample_content_response_def)
  moreover have "client_bytes sample_syn (sample_exchange_frames x y) = [71]"
    by (simp add: client_bytes_def sample_syn_def sample_exchange_frames_def sample_wire_def)
  ultimately show ?thesis using l by (intro exI [of _ "sample_syn # sample_captured x y"] exI [of _ l]) simp
qed

text \<open>
  The same session with a chunked response; the answer has the same data in two chunks and is no
  difference.
\<close>

definition sample_chunked_response :: "chunk list \<Rightarrow> chunk list http_response" where
  "sample_chunked_response cs =
     \<lparr>rsp_version = ''HTTP/1.1'', rsp_code = 200, rsp_reason = ''OK'', rsp_fields = sample_chunked_fields, rsp_body = cs\<rparr>"

definition sample_chunked_answer :: "byte list \<Rightarrow> chunk list http_response" where
  "sample_chunked_answer sent = sample_chunked_response [(''2'', [104, 101]), (''3'', [108, 108, 111]), (''0'', [])]"

lemma sample_chunked_start:
  "rsp_start (sample_chunked_response cs) = header_bytes (response_head ''HTTP/1.1'' 200 ''OK'' sample_chunked_fields)"
  by (simp add: rsp_start_def sample_chunked_response_def)

lemma sample_chunked_start_length:
  "length (header_bytes (response_head ''HTTP/1.1'' 200 ''OK'' sample_chunked_fields)) = 47"
  by code_simp

lemma sample_chunked_ok: "body_wf cs \<Longrightarrow> chunked_response_ok (sample_chunked_response cs)"
proof -
  have "field_table sample_chunked_fields ''content-length'' = None"
    "field_table sample_chunked_fields ''transfer-encoding'' = Some ''chunked''" by code_simp+
  then show "body_wf cs \<Longrightarrow> chunked_response_ok (sample_chunked_response cs)"
    using sample_heads(2) by (simp add: chunked_response_ok_def rsp_head_ok_def sample_chunked_response_def)
qed

theorem http_program_completes_chunked_witness:
  "\<exists>ws l. http_main (paced_server chunked_atoms sample_chunked_answer) 64 sample_inet6 (\<lambda>_. Inr (capture_of ws)) [] [''a.pcap''] =
    Some (Inr (Done [], Some l)) \<and> sent_bytes l = [71]"
proof -
  let ?r = "sample_chunked_response sample_chunks"
  let ?e = "sample_exchange chunked_atoms ?r 3"
  define x where "x = rsp_start ?r @ concat (take 3 (chunked_atoms ?r))"
  define y where "y = concat (drop 3 (chunked_atoms ?r))"
  have atoms: "chunked_atoms ?r = body_atoms sample_chunks" by (simp add: chunked_atoms_def sample_chunked_response_def)
  have parts: "length (concat (take 3 (body_atoms sample_chunks))) = 5"
    "length (concat (drop 3 (body_atoms sample_chunks))) = 10" "length (body_atoms sample_chunks) = 11"
    by code_simp+
  then have xy: "length x = 52" "length y = 10"
    by (simp_all add: x_def y_def atoms sample_chunked_start sample_chunked_start_length)
  have live: "body_wf [(''2'', [104, 101]), (''3'', [108, 108, 111]), (''0'', [])]" by code_simp
  have good: "chunked_response_ok (sample_chunked_answer sent)" "chunked_response_ok ?r" for sent
    using live sample_chunks_wf by (simp_all add: sample_chunked_answer_def sample_chunked_ok)
  have start: "length (rsp_start (sample_chunked_answer sent)) = 47" for sent
    by (simp add: sample_chunked_answer_def sample_chunked_start sample_chunked_start_length)
  have serves: "serves (paced_server chunked_atoms sample_chunked_answer) 64 chunked_atoms sample_chunked_answer"
  proof (rule paced_serves)
    show "rsp_start (sample_chunked_answer sent) \<noteq> []" for sent using start [of sent] by auto
    show "length (rsp_start (sample_chunked_answer sent)) \<le> 64" for sent using start [of sent] by simp
    have "\<forall>a \<in> set (body_atoms [(''2'', [104, 101]), (''3'', [108, 108, 111]), (''0'', [])]). a \<noteq> [] \<and> length a \<le> 64"
      by code_simp
    then show "\<forall>a \<in> set (chunked_atoms (sample_chunked_answer sent)). a \<noteq> [] \<and> length a \<le> 64" for sent
      by (simp add: chunked_atoms_def sample_chunked_answer_def sample_chunked_response_def)
  qed
  have flow: "flow_messages sample_syn (sample_exchange_frames x y) = concat (map exchange_messages [?e])"
    by (rule sample_exchange_captured [where r = ?r and k = 3 and atoms = chunked_atoms, OF x_def y_def]) (use xy in auto)
  have exchange: "\<forall>e \<in> set [?e]. exchange_ok chunked_atoms chunked_response_ok e"
    using sample_exchange_ok [where good = chunked_response_ok and atoms = chunked_atoms and k = 3, OF good(2)] parts(3)
    by (simp add: atoms)
  have "captured_session (sample_captured x y) sample_syn (sample_exchange_frames x y)"
    using xy by (intro sample_captured_session) simp_all
  from http_program_completes_chunked [where n = sample_inet6 and
      pcap_open = "\<lambda>_. Inr (capture_of (sample_syn # sample_captured x y))", OF this refl flow exchange good(1) serves]
  obtain l where l: "http_main (paced_server chunked_atoms sample_chunked_answer) 64 sample_inet6
      (\<lambda>_. Inr (capture_of (sample_syn # sample_captured x y))) [] [''a.pcap''] =
      Some (Inr (Done (served_reports chunked_agree sample_chunked_answer [] [?e]), Some l))"
    "sent_bytes l = client_bytes sample_syn (sample_exchange_frames x y)" by blast
  have "chunked_agree sample_chunks [(''2'', [104, 101]), (''3'', [108, 108, 111]), (''0'', [])]" by code_simp
  then have "served_reports chunked_agree sample_chunked_answer [] [?e] = []"
    by (simp add: response_report_def sample_exchange_def sample_chunked_answer_def sample_chunked_response_def)
  moreover have "client_bytes sample_syn (sample_exchange_frames x y) = [71]"
    by (simp add: client_bytes_def sample_syn_def sample_exchange_frames_def sample_wire_def)
  ultimately show ?thesis using l by (intro exI [of _ "sample_syn # sample_captured x y"] exI [of _ l]) simp
qed

end
