(* ===== verification/Udp_Program.thy ===== *)
theory Udp_Program
  imports Programs
begin

text \<open>
  What the UDP program does from a capture file to the test server: frames that carry UDP over IPv4
  or IPv6 are described by their fields, dissection inverts the description, and a run without
  options replays the conversation of the first frame.
\<close>

section \<open>Encoded frames\<close>

text \<open>
  The fields of an Ethernet frame with a datagram. An IPv4 header has a type of service, five bytes
  up to the protocol, a checksum and options; an IPv6 header has four bytes before the payload length
  and a hop limit.
\<close>

datatype ip_fields = Ip4 byte "byte list" "byte list" "byte list" | Ip6 "byte list" byte

record datagram_wire =
  dw_mac :: "byte list"
  dw_ip :: ip_fields
  dw_src :: "byte list"
  dw_dst :: "byte list"
  dw_sport :: "16 word"
  dw_dport :: "16 word"
  dw_cksum :: "byte list"
  dw_payload :: "byte list"
  dw_padding :: "byte list"

definition udp_len :: "datagram_wire \<Rightarrow> nat" where
  "udp_len w = 8 + length (dw_payload w)"

fun head_len :: "ip_fields \<Rightarrow> nat" where
  "head_len (Ip4 tos ident cksum opts) = 20 + length opts"
| "head_len (Ip6 first hop) = 40"

fun addr_len :: "ip_fields \<Rightarrow> nat" where
  "addr_len (Ip4 tos ident cksum opts) = 4"
| "addr_len (Ip6 first hop) = 16"

fun fields_ok :: "ip_fields \<Rightarrow> bool" where
  "fields_ok (Ip4 tos ident cksum opts) \<longleftrightarrow>
     length ident = 5 \<and> length cksum = 2 \<and> (\<exists>k \<le> 10. length opts = 4 * k)"
| "fields_ok (Ip6 first hop) \<longleftrightarrow> length first = 4"

definition datagram_ok :: "datagram_wire \<Rightarrow> bool" where
  "datagram_ok w \<longleftrightarrow>
     length (dw_mac w) = 12 \<and> fields_ok (dw_ip w) \<and>
     length (dw_src w) = addr_len (dw_ip w) \<and> length (dw_dst w) = addr_len (dw_ip w) \<and>
     length (dw_cksum w) = 2 \<and> head_len (dw_ip w) + udp_len w < 65536"

definition udp_bytes :: "datagram_wire \<Rightarrow> byte list" where
  "udp_bytes w =
     [hi_byte (dw_sport w), lo_byte (dw_sport w), hi_byte (dw_dport w), lo_byte (dw_dport w),
      hi_byte (of_nat (udp_len w)), lo_byte (of_nat (udp_len w))] @ dw_cksum w @ dw_payload w"

definition ip_bytes :: "datagram_wire \<Rightarrow> byte list" where
  "ip_bytes w =
     (case dw_ip w of
        Ip4 tos ident cksum opts \<Rightarrow>
          (let total = of_nat (20 + length opts + udp_len w)
           in [of_nat (64 + (20 + length opts) div 4), tos, hi_byte total, lo_byte total] @ ident @ [17] @
              cksum @ dw_src w @ dw_dst w @ opts)
      | Ip6 first hop \<Rightarrow>
          first @ [hi_byte (of_nat (udp_len w)), lo_byte (of_nat (udp_len w)), 17, hop] @
          dw_src w @ dw_dst w)"

definition ether_type :: "datagram_wire \<Rightarrow> byte list" where
  "ether_type w = (case dw_ip w of Ip4 _ _ _ _ \<Rightarrow> [0x08, 0x00] | Ip6 _ _ \<Rightarrow> [0x86, 0xDD])"

definition datagram_frame :: "datagram_wire \<Rightarrow> byte list" where
  "datagram_frame w = dw_mac w @ ether_type w @ ip_bytes w @ udp_bytes w @ dw_padding w"

definition eth_layer :: "datagram_wire \<Rightarrow> layer" where
  "eth_layer w =
     \<lparr>packet_ptr = datagram_frame w, packet_size = sint (of_nat (length (datagram_frame w)) :: 32 word)\<rparr>"

definition ip_layer :: "datagram_wire \<Rightarrow> layer" where
  "ip_layer w =
     \<lparr>packet_ptr = ip_bytes w @ udp_bytes w @ dw_padding w, packet_size = packet_size (eth_layer w) - 14\<rparr>"

definition net_layer :: "datagram_wire \<Rightarrow> layer3" where
  "net_layer w = (case dw_ip w of Ip4 _ _ _ _ \<Rightarrow> IpLayer (ip_layer w) | Ip6 _ _ \<Rightarrow> IpV6Layer (ip_layer w))"

definition udp_layer :: "datagram_wire \<Rightarrow> layer" where
  "udp_layer w = \<lparr>packet_ptr = udp_bytes w @ dw_padding w, packet_size = int (udp_len w)\<rparr>"

definition datagram_packet :: "datagram_wire \<Rightarrow> transport_packet" where
  "datagram_packet w =
     addLayer (Trans (UdpLayer (udp_layer w)))
       (addLayer (Net (net_layer w)) (addLayer (Ethernet (eth_layer w)) new_packet))"

section \<open>Dissection\<close>

lemma udp_bytes_length: "datagram_ok w \<Longrightarrow> length (udp_bytes w) = udp_len w"
  by (simp add: udp_bytes_def udp_len_def datagram_ok_def)

lemma uint_small: "k < 65536 \<Longrightarrow> uint (of_nat k :: 16 word) = int k"
proof -
  assume "k < 65536"
  then have "unat (of_nat k :: 16 word) = k" by (simp add: unat_of_nat)
  then show ?thesis by (metis uint_nat)
qed

lemma net_layer_reads:
  assumes "datagram_ok w"
  shows "getNextProtocol (net_layer w) = Inr IPPROTO_UDP"
    and "getData3 (net_layer w) = Inr (udp_bytes w @ dw_padding w)"
    and "getDataSize3 (net_layer w) = Inr (int (udp_len w))"
    and "getAddrSize (net_layer w) = length (dw_src w)"
    and "\<exists>p. getSrcAddr (net_layer w) = Inr p \<and> read_bytes p 0 (length (dw_src w)) = Inr (dw_src w)"
    and "\<exists>p. getDestAddr (net_layer w) = Inr p \<and> read_bytes p 0 (length (dw_src w)) = Inr (dw_dst w)"
    and "\<exists>s. getSrcAddrStr n (net_layer w) = Inr s"
proof -
  have "getNextProtocol (net_layer w) = Inr IPPROTO_UDP \<and>
    getData3 (net_layer w) = Inr (udp_bytes w @ dw_padding w) \<and>
    getDataSize3 (net_layer w) = Inr (int (udp_len w)) \<and>
    getAddrSize (net_layer w) = length (dw_src w) \<and>
    (\<exists>p. getSrcAddr (net_layer w) = Inr p \<and> read_bytes p 0 (length (dw_src w)) = Inr (dw_src w)) \<and>
    (\<exists>p. getDestAddr (net_layer w) = Inr p \<and> read_bytes p 0 (length (dw_src w)) = Inr (dw_dst w)) \<and>
    (\<exists>s. getSrcAddrStr n (net_layer w) = Inr s)"
  proof (cases "dw_ip w")
    case (Ip4 tos ident cksum opts)
    then obtain k where k: "k \<le> 10" "length opts = 4 * k" using assms by (auto simp: datagram_ok_def)
    have f: "length ident = 5" "length cksum = 2" "length (dw_src w) = 4" "length (dw_dst w) = 4"
      "20 + length opts + udp_len w < 65536"
      using assms Ip4 by (auto simp: datagram_ok_def)
    have head: "(20 + length opts) div 4 = 5 + k" using k by simp
    let ?p = "packet_ptr (ip_layer w)" and ?t = "of_nat (20 + length opts + udp_len w) :: 16 word"
    have nths: "?p ! 0 = of_nat (64 + (5 + k))" "?p ! 2 = hi_byte ?t" "?p ! 3 = lo_byte ?t" "?p ! 9 = 17"
      "take 4 (drop 12 ?p) = dw_src w" "take 4 (drop 16 ?p) = dw_dst w"
      using f by (simp_all add: ip_layer_def ip_bytes_def Ip4 Let_def head nth_append)
    have len: "length (ip_bytes w) = 20 + length opts"
      using f by (simp add: ip_bytes_def Ip4 Let_def)
    then have room: "20 \<le> length ?p" "drop (20 + length opts) ?p = udp_bytes w @ dw_padding w"
      by (simp_all add: ip_layer_def)
    have hl: "ip_hl4 ?p = Inr (20 + length opts)"
    proof -
      have "?p \<noteq> []" using room(1) by auto
      then show ?thesis using nibble [of "5 + k"] k nths(1) by (simp add: ip_hl4_def)
    qed
    show ?thesis
      using f(3,4) hl nths room uint_small [OF f(5)]
      by (simp add: net_layer_def Ip4 getAddrSize_def IPPROTO_UDP_def)
  next
    case (Ip6 first hop)
    then have f: "length first = 4" "length (dw_src w) = 16" "length (dw_dst w) = 16" "udp_len w < 65536"
      using assms by (auto simp: datagram_ok_def)
    let ?p = "packet_ptr (ip_layer w)" and ?t = "of_nat (udp_len w) :: 16 word"
    have nths: "?p ! 4 = hi_byte ?t" "?p ! 5 = lo_byte ?t" "?p ! 6 = 17"
      "take 16 (drop 8 ?p) = dw_src w" "take 16 (drop 24 ?p) = dw_dst w"
      using f by (simp_all add: ip_layer_def ip_bytes_def Ip6 nth_append)
    have len: "length (ip_bytes w) = 40"
      using f by (simp add: ip_bytes_def Ip6)
    then have room: "40 \<le> length ?p" "drop 40 ?p = udp_bytes w @ dw_padding w"
      by (simp_all add: ip_layer_def)
    show ?thesis
      using f(2,3) nths room uint_small [OF f(4)]
      by (simp add: net_layer_def Ip6 getAddrSize_def IPPROTO_UDP_def)
  qed
  then show "getNextProtocol (net_layer w) = Inr IPPROTO_UDP"
    "getData3 (net_layer w) = Inr (udp_bytes w @ dw_padding w)"
    "getDataSize3 (net_layer w) = Inr (int (udp_len w))"
    "getAddrSize (net_layer w) = length (dw_src w)"
    "\<exists>p. getSrcAddr (net_layer w) = Inr p \<and> read_bytes p 0 (length (dw_src w)) = Inr (dw_src w)"
    "\<exists>p. getDestAddr (net_layer w) = Inr p \<and> read_bytes p 0 (length (dw_src w)) = Inr (dw_dst w)"
    "\<exists>s. getSrcAddrStr n (net_layer w) = Inr s"
    by blast+
qed

lemma dissect_datagram:
  assumes "datagram_ok w"
  shows "dissect DLT_EN10MB (full_header (datagram_frame w)) (datagram_frame w) = Inr (Some (datagram_packet w))"
proof -
  have types: "ntohs 8 = 0x0800" "ntohs 0xDD86 = 0x86DD"
    by (simp_all add: htons_def)
  have frame: "13 < length (datagram_frame w)" "[datagram_frame w ! 12, datagram_frame w ! 13] = ether_type w"
    "drop 14 (datagram_frame w) = ip_bytes w @ udp_bytes w @ dw_padding w"
    using assms by (auto simp: datagram_frame_def ether_type_def nth_append datagram_ok_def split: ip_fields.split)
  have "link_layer DLT_EN10MB (full_header (datagram_frame w)) (datagram_frame w) =
      Inr (Some (net_layer w, addLayer (Ethernet (eth_layer w)) new_packet))"
    using frame types
    by (cases "dw_ip w") (auto simp: link_layer_def DLT_EN10MB_def DLT_NULL_def eth_getEtherType_def
        Let_def eth_getData_def eth_getDataSize_def full_header_def net_layer_def ip_layer_def eth_layer_def
        ether_type_def ETHERTYPE_IP_def ETHERTYPE_IPV6_def be16_def)
  then show ?thesis
    using net_layer_reads [OF assms]
    by (simp add: dissect_def add_transport_def datagram_packet_def full_header_def udp_layer_def
        IPPROTO_TCP_def IPPROTO_UDP_def)
qed

lemma datagram_packet_layers:
  "getLayer (datagram_packet w) TRANSPORT = Inr (Some (Trans (UdpLayer (udp_layer w))))"
  "network_layer (datagram_packet w) = Inr (net_layer w)"
  "transport_layer (datagram_packet w) = Inr (UdpLayer (udp_layer w))"
  by (simp_all add: datagram_packet_def network_layer_def transport_layer_def getLayer_def addLayer_def new_packet_def)

lemma udp_layer_ports:
  "getSrcPort (UdpLayer (udp_layer w)) = Inr (htons (dw_sport w))"
  "getDestPort (UdpLayer (udp_layer w)) = Inr (htons (dw_dport w))"
  by (simp_all add: udp_layer_def udp_bytes_def port_field_def flip: port_field_htons)

definition wire_datagram :: "datagram_wire \<Rightarrow> datagram" where
  "wire_datagram w =
     \<lparr>dg_src = dw_src w, dg_sport = htons (dw_sport w), dg_payload = map char_of_byte (dw_payload w)\<rparr>"

lemma datagram_packet_decodes:
  assumes "datagram_ok w"
  shows "udp_datagram (datagram_packet w) = Some (wire_datagram w)"
proof -
  have src: "l3_source (net_layer w) = Some (dw_src w)"
    using net_layer_reads(4,5) [OF assms] by (auto simp: l3_source_def read_bytes_def split: if_splits)
  have "udp_len w < 65536" using assms by (simp add: datagram_ok_def)
  then have size: "dg_size (udp_layer w) = int (length (dw_payload w))"
    using uint_small [of "udp_len w"]
    by (simp add: dg_size_def udp_layer_def udp_bytes_def) (simp add: udp_len_def)
  have ptr: "packet_ptr (udp_layer w) = udp_bytes w @ dw_padding w" "length (udp_bytes w) = udp_len w"
    "take (length (dw_payload w)) (drop 8 (udp_bytes w @ dw_padding w)) = dw_payload w"
    using assms udp_bytes_length by (simp_all add: udp_layer_def udp_bytes_def datagram_ok_def)
  have "ucast (udp_bytes w ! 0) OR push_bit 8 (ucast (udp_bytes w ! 1)) = htons (dw_sport w)"
    by (simp add: udp_bytes_def port_field_def flip: port_field_htons)
  with src size ptr show ?thesis
    by (simp add: udp_datagram_def datagram_packet_layers wire_datagram_def udp_len_def nth_append)
qed

lemma datagram_packet_flow:
  assumes "datagram_ok w"
  shows "packet_flow (datagram_packet w) = Inr (dw_src w, htons (dw_sport w), dw_dst w, htons (dw_dport w))"
  using net_layer_reads(4-6) [OF assms]
  by (auto simp: packet_flow_def datagram_packet_layers udp_layer_ports simp del: getSrcPort.simps getDestPort.simps)

text \<open>The socket address that a conversation opened by a frame replays to.\<close>

definition server_addr :: "datagram_wire \<Rightarrow> sockaddr" where
  "server_addr w =
     \<lparr>sa_family = (case dw_ip w of Ip4 _ _ _ _ \<Rightarrow> AF_INET | Ip6 _ _ \<Rightarrow> AF_INET6),
      sa_port = htons (dw_dport w), sa_addr = dw_dst w\<rparr>"

lemma datagram_conversation:
  assumes "datagram_ok w"
  shows "\<exists>c. udp_from_packet n (datagram_packet w) None = Inr c \<and> action_queue c = [] \<and>
    addr_size c = length (dw_src w) \<and> cap_src_addr c = Some (dw_src w) \<and>
    cap_src_port c = Some (htons (dw_sport w)) \<and> test_sock_addr c = server_addr w"
proof -
  have "getSockAddr (net_layer w) (dw_dst w) (htons (dw_dport w)) = server_addr w"
    by (cases "dw_ip w") (simp_all add: getSockAddr_def net_layer_def server_addr_def)
  with net_layer_reads(4-6) [OF assms] show ?thesis
    by (auto simp: udp_from_packet_def conversation_from_packet_def datagram_packet_layers udp_layer_ports Let_def
        simp del: getSrcPort.simps getDestPort.simps)
qed

section \<open>The capture\<close>

definition same_udp_flow :: "datagram_wire \<Rightarrow> datagram_wire \<Rightarrow> bool" where
  "same_udp_flow v w \<longleftrightarrow>
     {(dw_src v, dw_sport v), (dw_dst v, dw_dport v)} = {(dw_src w, dw_sport w), (dw_dst w, dw_dport w)}"

lemma same_udp_flow_refl [simp]: "same_udp_flow w w"
  by (simp add: same_udp_flow_def)

definition datagram_capture :: "datagram_wire list \<Rightarrow> pcap_handle" where
  "datagram_capture ws =
     \<lparr>pcap_datalink = 1, pcap_frames = map (\<lambda>w. (full_header (datagram_frame w), datagram_frame w)) ws,
      pcap_loop_rc = 0, pcap_geterr = []\<rparr>"

lemma datagram_key:
  assumes "datagram_ok v" "datagram_ok w"
  shows "tcpIpGetKey (datagram_packet v) = tcpIpGetKey (datagram_packet w) \<longleftrightarrow> same_udp_flow v w"
proof -
  have len: "length (dw_src u) = length (dw_dst u)" if "datagram_ok u" for u
    using that by (simp add: datagram_ok_def)
  have "tcpIpGetKey (datagram_packet v) = tcpIpGetKey (datagram_packet w) \<longleftrightarrow>
      {(dw_src v, htons (dw_sport v)), (dw_dst v, htons (dw_dport v))} =
      {(dw_src w, htons (dw_sport w)), (dw_dst w, htons (dw_dport w))}"
    using flow_key_eq_iff len assms by (simp add: tcpIpGetKey_def datagram_packet_flow)
  also have "\<dots> \<longleftrightarrow> same_udp_flow v w"
    by (simp add: same_udp_flow_def doubleton_eq_iff)
  finally show ?thesis .
qed

lemma same_udp_flow_length:
  assumes "same_udp_flow v w" "datagram_ok v" "datagram_ok w"
  shows "length (dw_src w) = length (dw_src v)"
  using assms by (auto simp: same_udp_flow_def doubleton_eq_iff datagram_ok_def)

lemma datagram_capture_packets:
  assumes "\<forall>w \<in> set ws. datagram_ok w"
  shows "fold_result (packetHandler f handle) (pcap_frames (datagram_capture ws))
      (cap\<lparr>datalink_type := DLT_EN10MB\<rparr>) =
    bind (store_packets f handle (map datagram_packet ws) (conversation_store cap))
      (\<lambda>s. Inr (cap\<lparr>datalink_type := DLT_EN10MB, conversation_store := s\<rparr>))"
proof -
  let ?cap = "cap\<lparr>datalink_type := DLT_EN10MB\<rparr>"
  have "list_all2 (\<lambda>frame r. dissect (datalink_type ?cap) (fst frame) (snd frame) = Inr r)
      (pcap_frames (datagram_capture ws)) (map (Some \<circ> datagram_packet) ws)"
    using assms by (auto simp: datagram_capture_def list_all2_conv_all_nth dissect_datagram)
  moreover have "List.map_filter id (map (Some \<circ> datagram_packet) ws) = map datagram_packet ws"
    by (induction ws) (simp_all add: List.map_filter_def)
  ultimately show ?thesis
    using packetHandler_fold [of ?cap "pcap_frames (datagram_capture ws)" _ f handle] by simp
qed

text \<open>The actions of a flow, seen from the client that sent its first frame.\<close>

definition flow_actions :: "datagram_wire \<Rightarrow> datagram_wire list \<Rightarrow> action list" where
  "flow_actions w0 ws = map (datagram_action (dw_src w0) (htons (dw_sport w0)) \<circ> wire_datagram) ws"

lemma flow_recorded:
  assumes "datagram_ok w0" "\<forall>w \<in> set ws. datagram_ok w \<and> same_udp_flow w0 w"
    and "addr_size c = length (dw_src w0)" "cap_src_addr c = Some (dw_src w0)"
    and "cap_src_port c = Some (htons (dw_sport w0))" "action_queue c = []"
  shows "udp_record (map datagram_packet ws) c = Inr (c\<lparr>action_queue := flow_actions w0 ws\<rparr>)"
proof -
  have "list_all2 (\<lambda>p d. udp_datagram p = Some d \<and>
      (\<exists>l3. network_layer p = Inr l3 \<and> getAddrSize l3 = addr_size c))
      (map datagram_packet ws) (map wire_datagram ws)"
    using assms(1-3) same_udp_flow_length
    by (auto simp: list_all2_conv_all_nth datagram_packet_decodes datagram_packet_layers net_layer_reads)
  from udp_record_datagrams [OF this assms(4,5)] assms(3,6) show ?thesis
    by (simp add: flow_actions_def)
qed

lemma load_records_flow:
  assumes "\<forall>w \<in> set (w0 # ws). datagram_ok w" "pcap_open file = Inr (datagram_capture (w0 # ws))"
  shows "\<exists>cap' c. load_capture (UdpConversationFactory n) udp_processCapturePacket pcap_open file
      \<lparr>conversation_store = new_store, datalink_type = 0\<rparr> = Inr cap' \<and>
    getConversations (conversation_store cap') = [c] \<and> test_sock_addr c = server_addr w0 \<and>
    action_queue c = flow_actions w0 (filter (same_udp_flow w0) (w0 # ws))"
proof -
  let ?f = "UdpConversationFactory n" and ?p = datagram_packet and ?flow = "filter (same_udp_flow w0) (w0 # ws)"
  obtain k0 where k0: "tcpIpGetKey (?p w0) = Inr k0"
    using assms(1) by (simp add: tcpIpGetKey_def datagram_packet_flow)
  have "\<forall>w \<in> set (w0 # ws). tcpIpGetKey (?p w) = Inr k0 \<longleftrightarrow> same_udp_flow w0 w"
    using datagram_key [of w0] assms(1) unfolding k0 [symmetric] by (metis list.set_intros(1))
  then have "filter (\<lambda>w. tcpIpGetKey (?p w) = Inr k0) (w0 # ws) = ?flow"
    by (intro filter_cong) auto
  then have flow: "filter (\<lambda>p. tcpIpGetKey p = Inr k0) (map ?p (w0 # ws)) = map ?p ?flow"
    by (simp only: filter_map comp_def)
  have keys: "\<exists>ks. tcpIpGetTargetTestServerKeys n (?p w) = Inr ks" if "datagram_ok w" for w
    using net_layer_reads(7) [OF that, of n]
    by (auto simp: tcpIpGetTargetTestServerKeys_def datagram_packet_layers udp_layer_ports
        simp del: getSrcPort.simps)
  obtain ks0 where ks0: "tcpIpGetTargetTestServerKeys n (?p w0) = Inr ks0" using keys assms(1) by auto
  obtain c0 where c0: "udp_from_packet n (?p w0) None = Inr c0" "action_queue c0 = []"
    "addr_size c0 = length (dw_src w0)" "cap_src_addr c0 = Some (dw_src w0)"
    "cap_src_port c0 = Some (htons (dw_sport w0))" "test_sock_addr c0 = server_addr w0"
    using assms(1) datagram_conversation [of w0 n] by auto
  have rec: "udp_record (map ?p ?flow) c0 = Inr (c0\<lparr>action_queue := flow_actions w0 ?flow\<rparr>)"
    using assms(1) c0 by (intro flow_recorded) auto
  have "\<forall>p \<in> set (map ?p ws). \<exists>k ks. tcpIpGetKey p = Inr k \<and> tcpIpGetTargetTestServerKeys n p = Inr ks"
    using assms(1) keys by (auto simp: tcpIpGetKey_def datagram_packet_flow)
  then have "store_packets ?f udp_processCapturePacket (map ?p (w0 # ws)) new_store =
      Inr \<lparr>test_servers = [], conversations = [(k0, c0\<lparr>action_queue := flow_actions w0 ?flow\<rparr>)]\<rparr>"
    using udp_store.unconfigured_run [of n "?p w0" k0 ks0 c0 "map ?p ws"] k0 ks0 c0(1) rec flow
    by (simp add: UdpConversationFactory_def udp_record_def)
  moreover have "word_of_int (pcap_datalink (datagram_capture (w0 # ws))) = DLT_EN10MB"
    "pcap_loop_rc (datagram_capture (w0 # ws)) = 0"
    by (simp_all add: datagram_capture_def DLT_EN10MB_def)
  ultimately show ?thesis
    using c0(6) datagram_capture_packets [OF assms(1), of ?f udp_processCapturePacket
        "\<lparr>conversation_store = new_store, datalink_type = 0\<rparr>"]
    by (simp add: load_capture_def assms(2) getConversations_def)
qed

section \<open>The program\<close>

definition from_client :: "datagram_wire \<Rightarrow> datagram_wire \<Rightarrow> bool" where
  "from_client w0 w \<longleftrightarrow> dw_src w = dw_src w0 \<and> dw_sport w = dw_sport w0"

lemma flow_data:
  "send_data (flow_actions w0 ws) = map dw_payload (filter (from_client w0) ws)"
  "recv_data (flow_actions w0 ws) = map dw_payload (filter (\<lambda>w. \<not> from_client w0 w) ws)"
  by (induction ws)
    (auto simp: flow_actions_def datagram_action_def wire_datagram_def from_client_def new_action_data_def comp_def)

text \<open>One conversation, replayed by a program that ends normally.\<close>

lemma single_replay:
  assumes "replay_conversations env py v True [c] [] [] = Inr (l, out)"
  shows "sent_datagrams l = map (\<lambda>d. (d, test_sock_addr c)) (send_data (action_queue c)) \<and>
    (v = Exact \<longrightarrow> length (received_datagrams l) = length (recv_data (action_queue c)) \<and>
      out = reports (recv_data (action_queue c)) (received_datagrams l))"
  using assms
proof (cases rule: replay_conversations_one)
  case (2 c' a a')
  then have fresh: "u_conv a = c" "u_validator a = v" "u_printed a = []"
    "sent_datagrams (u_log a) = []" "received_datagrams (u_log a) = []"
    by (auto simp: UdpReplayClient_def sys_def Let_def split: if_splits)
  have "sent_datagrams l = sent_datagrams (u_log a')" "received_datagrams l = received_datagrams (u_log a')"
    using 2(4) by (auto simp: udp_destroy_def Let_def)
  with udp_replay_effect [OF 2(3)] fresh 2(5) show ?thesis by auto
qed simp

lemma udp_main_done:
  assumes "udp_main env py n pcap_open opts [file] = Inr (Done out, Some l)"
  obtains s v cap where "udp_options py n opts no_instance new_store Exact = Inr (Some (s, v))"
    "load_capture (UdpConversationFactory n) udp_processCapturePacket pcap_open file
      \<lparr>conversation_store = s, datalink_type = 0\<rparr> = Inr cap"
    "replay_conversations env py v True (getConversations (conversation_store cap)) [] [] = Inr (l, out)"
proof -
  have run: "udp_run env py n pcap_open opts [file] = Inr (Done out, l)"
    using assms unfolding udp_main_def
    by (cases "udp_run env py n pcap_open opts [file]") (auto elim!: caught.elims)
  obtain sv where sv: "udp_options py n opts no_instance new_store Exact = Inr sv"
    using run unfolding udp_run_def by (elim bindE) simp
  then obtain s v where st: "sv = Some (s, v)" using run unfolding udp_run_def by (cases sv) auto
  have "bind (load_capture (UdpConversationFactory n) udp_processCapturePacket pcap_open file
       \<lparr>conversation_store = s, datalink_type = 0\<rparr>) (\<lambda>cap.
     bind (replay_conversations env py v True (getConversations (conversation_store cap)) [] []) (\<lambda>(l, out).
       Inr (Done out, l))) = Inr (Done out, l)"
    using run sv st by (simp add: udp_run_def)
  then show thesis using sv st by (elim bindE) (auto intro: that)
qed

section \<open>Properties\<close>

text \<open>
  C5. The UDP program, run on a capture without options, replays the conversation of the first frame:
  where the capture holds UDP datagrams over IPv4 or IPv6, interleaved in any way, and the program
  ends normally, it sends every datagram of that flow's client once, whole and in order, to the
  captured server address, takes one answer for every datagram of the server, and reports
  exactly the answers that differ from the captured ones.
\<close>

theorem udp_program_replays_captured:
  assumes "\<forall>w \<in> set (w0 # ws). datagram_ok w" "pcap_open file = Inr (datagram_capture (w0 # ws))"
    and "flow = filter (same_udp_flow w0) (w0 # ws)"
    and "udp_main env py n pcap_open [] [file] = Inr (Done out, Some l)"
  shows "sent_datagrams l = map (\<lambda>w. (dw_payload w, server_addr w0)) (filter (from_client w0) flow) \<and>
    length (received_datagrams l) = length (filter (\<lambda>w. \<not> from_client w0 w) flow) \<and>
    out = reports (map dw_payload (filter (\<lambda>w. \<not> from_client w0 w) flow)) (received_datagrams l)"
proof -
  obtain cap c where cap: "load_capture (UdpConversationFactory n) udp_processCapturePacket pcap_open file
      \<lparr>conversation_store = new_store, datalink_type = 0\<rparr> = Inr cap"
    "getConversations (conversation_store cap) = [c]" "test_sock_addr c = server_addr w0"
    "action_queue c = flow_actions w0 flow"
    using load_records_flow [where n = n and pcap_open = pcap_open, OF assms(1,2)] unfolding assms(3) by blast
  have "replay_conversations env py Exact True [c] [] [] = Inr (l, out)"
    using assms(4) cap(1,2) by (elim udp_main_done) simp
  from single_replay [OF this] show ?thesis
    unfolding cap(3,4) flow_data by (simp add: comp_def)
qed

text \<open>
  C6. The UDP program ends: on a capture of UDP datagrams over IPv4 or IPv6, run without options
  against a network that takes every datagram and delivers an answer to every read, it exits
  normally, whatever the answers are, with every datagram of the first flow's client sent to the
  captured server, one answer read for every captured one, and exactly the differing ones reported.
\<close>

theorem udp_program_completes:
  assumes "\<forall>w \<in> set (w0 # ws). datagram_ok w" "pcap_open file = Inr (datagram_capture (w0 # ws))"
    and "flow = filter (same_udp_flow w0) (w0 # ws)" "datagrams_pass env"
  shows "\<exists>answers l. udp_main env py n pcap_open [] [file] =
      Inr (Done (reports (map dw_payload (filter (\<lambda>w. \<not> from_client w0 w) flow)) answers), Some l) \<and>
    sent_datagrams l = map (\<lambda>w. (dw_payload w, server_addr w0)) (filter (from_client w0) flow) \<and>
    received_datagrams l = answers \<and> length answers = length (filter (\<lambda>w. \<not> from_client w0 w) flow)"
proof -
  obtain cap c where cap: "load_capture (UdpConversationFactory n) udp_processCapturePacket pcap_open file
      \<lparr>conversation_store = new_store, datalink_type = 0\<rparr> = Inr cap"
    "getConversations (conversation_store cap) = [c]" "test_sock_addr c = server_addr w0"
    "action_queue c = flow_actions w0 flow"
    using load_records_flow [where n = n and pcap_open = pcap_open, OF assms(1,2)] unfolding assms(3) by blast
  obtain l out where r: "replay_conversations env py Exact True [c] [] [] = Inr (l, out)"
    using replay_conversations_return [OF assms(4), of py c "[]" "[]"] by auto
  have "udp_main env py n pcap_open [] [file] = Inr (Done out, Some l)"
    using cap(1,2) r by (simp add: udp_main_def udp_run_def del: replay_conversations.simps)
  with single_replay [OF r] show ?thesis
    unfolding cap(3,4) flow_data by (intro exI [of _ "received_datagrams l"] exI [of _ l]) (simp add: comp_def)
qed

text \<open>
  C33. The UDP program never completes two conversations. Whatever the options, the capture and the
  servers, where it ends normally the store held at most one conversation: the client of the first
  frees the validator that the others use and free again. The one conversation was replayed: every
  recorded datagram of the client was sent to its test server, in order, and with the default
  validator the lines printed are the reports of the answers that differ.
\<close>

theorem udp_program_completes_one:
  assumes "udp_main env py n pcap_open opts [file] = Inr (Done out, Some l)"
  shows "\<exists>s v cap. udp_options py n opts no_instance new_store Exact = Inr (Some (s, v)) \<and>
    load_capture (UdpConversationFactory n) udp_processCapturePacket pcap_open file
      \<lparr>conversation_store = s, datalink_type = 0\<rparr> = Inr cap \<and>
    (case getConversations (conversation_store cap) of
       [] \<Rightarrow> l = [] \<and> out = []
     | [c] \<Rightarrow> sent_datagrams l = map (\<lambda>d. (d, getTestSockAddr c)) (send_data (getActionQueue c)) \<and>
         (v = Exact \<longrightarrow> out = reports (recv_data (getActionQueue c)) (received_datagrams l))
     | _ \<Rightarrow> False)"
proof -
  obtain s v cap where run: "udp_options py n opts no_instance new_store Exact = Inr (Some (s, v))"
    "load_capture (UdpConversationFactory n) udp_processCapturePacket pcap_open file
      \<lparr>conversation_store = s, datalink_type = 0\<rparr> = Inr cap"
    "replay_conversations env py v True (getConversations (conversation_store cap)) [] [] = Inr (l, out)"
    using assms by (rule udp_main_done)
  from run(3) consider "getConversations (conversation_store cap) = []" "l = []" "out = []"
    | c where "getConversations (conversation_store cap) = [c]"
    by (rule replay_conversations_one) auto
  then show ?thesis
  proof cases
    case 1
    with run(1,2) show ?thesis by auto
  next
    case (2 c)
    with run(3) have "replay_conversations env py v True [c] [] [] = Inr (l, out)" by simp
    from single_replay [OF this] run(1,2) 2 show ?thesis by auto
  qed
qed

section \<open>Witnesses\<close>

text \<open>A question over IPv4, an unrelated datagram over IPv6, the answer and a second question.\<close>

definition sample_datagram :: "byte \<Rightarrow> 16 word \<Rightarrow> byte \<Rightarrow> 16 word \<Rightarrow> byte list \<Rightarrow> datagram_wire" where
  "sample_datagram s sp d dp bytes =
     \<lparr>dw_mac = replicate 12 0, dw_ip = Ip4 0 [0, 0, 0, 0, 64] [0, 0] [1, 1, 1, 0],
      dw_src = [10, 0, 0, s], dw_dst = [10, 0, 0, d], dw_sport = sp, dw_dport = dp,
      dw_cksum = [0, 0], dw_payload = bytes, dw_padding = [0, 0]\<rparr>"

definition other_datagram :: datagram_wire where
  "other_datagram =
     \<lparr>dw_mac = replicate 12 0, dw_ip = Ip6 [96, 0, 0, 0] 64,
      dw_src = 0xFE # 0x80 # replicate 13 0 @ [1], dw_dst = 0xFE # 0x80 # replicate 13 0 @ [2], dw_sport = 700, dw_dport = 53,
      dw_cksum = [0, 0], dw_payload = [9], dw_padding = []\<rparr>"

definition sample_datagrams :: "datagram_wire list" where
  "sample_datagrams =
     [sample_datagram 1 700 2 53 [81], other_datagram, sample_datagram 2 53 1 700 [3],
      sample_datagram 1 700 2 53 [82]]"

abbreviation sample_udp_program :: "(outcome \<times> sys_log option) result" where
  "sample_udp_program \<equiv>
     udp_main udp_server no_python sample_inet6 (\<lambda>_. Inr (datagram_capture sample_datagrams)) [] [''a.pcap'']"

lemma sample_flow:
  "\<forall>w \<in> set sample_datagrams. datagram_ok w"
  "filter (same_udp_flow (hd sample_datagrams)) sample_datagrams =
     [sample_datagram 1 700 2 53 [81], sample_datagram 2 53 1 700 [3], sample_datagram 1 700 2 53 [82]]"
  by (auto simp: sample_datagrams_def sample_datagram_def other_datagram_def datagram_ok_def udp_len_def
      same_udp_flow_def doubleton_eq_iff exI [of _ 1])

lemma sample_udp_program_ends: "\<exists>l. sample_udp_program = Inr (Done [difference], Some l)"
proof -
  let ?w0 = "hd sample_datagrams"
  have cons: "?w0 # tl sample_datagrams = sample_datagrams" by (simp add: sample_datagrams_def)
  obtain cap c where c: "load_capture (UdpConversationFactory sample_inet6) udp_processCapturePacket
      (\<lambda>_. Inr (datagram_capture sample_datagrams)) ''a.pcap''
      \<lparr>conversation_store = new_store, datalink_type = 0\<rparr> = Inr cap"
    "getConversations (conversation_store cap) = [c]"
    "action_queue c = flow_actions ?w0 (filter (same_udp_flow ?w0) sample_datagrams)"
    using load_records_flow [of ?w0 "tl sample_datagrams" "\<lambda>_. Inr (datagram_capture sample_datagrams)"]
      sample_flow(1) unfolding cons by blast
  have "flow_actions ?w0 (filter (same_udp_flow ?w0) sample_datagrams) =
      [new_action_data SEND [char_of_byte 81], new_action_data RECV [char_of_byte 3],
       new_action_data SEND [char_of_byte 82]]"
    unfolding sample_flow(2)
    by (simp add: flow_actions_def datagram_action_def wire_datagram_def sample_datagrams_def sample_datagram_def)
  with c(3) have q: "action_queue c = [new_action_data SEND [char_of_byte 81],
      new_action_data RECV [char_of_byte 3], new_action_data SEND [char_of_byte 82]]" by simp
  have "\<exists>l. replay_conversations udp_server no_python Exact True [c] [] [] = Inr (l, [difference])"
    using q by (simp add: UdpReplayClient_def sys_def udp_server_def udp_replay.simps actionEmpty_def
        actionFront_def actionPop_def udp_perform.simps udp_send_def udp_recv_def udp_destroy_def
        new_action_data_def run_exact received_bytes_def Let_def del: run_validator.simps)
  then show ?thesis using c(1,2) by (auto simp: udp_main_def udp_run_def simp del: replay_conversations.simps)
qed

theorem udp_program_replays_captured_witness:
  "\<exists>l. sample_udp_program = Inr (Done [difference], Some l) \<and>
    map fst (sent_datagrams l) = [[81], [82]] \<and> length (received_datagrams l) = 1"
proof -
  let ?w0 = "hd sample_datagrams"
  have cons: "?w0 # tl sample_datagrams = sample_datagrams" by (simp add: sample_datagrams_def)
  obtain l where l: "sample_udp_program = Inr (Done [difference], Some l)"
    using sample_udp_program_ends by blast
  have "\<forall>w \<in> set (?w0 # tl sample_datagrams). datagram_ok w"
    "(\<lambda>_ :: string. Inr (datagram_capture sample_datagrams)) ''a.pcap'' =
      (Inr (datagram_capture (?w0 # tl sample_datagrams)) :: string + pcap_handle)"
    using sample_flow(1) cons by simp_all
  from udp_program_replays_captured [OF this refl l] show ?thesis
    unfolding cons sample_flow(2) using l
    by (simp add: from_client_def sample_datagrams_def sample_datagram_def)
qed

theorem udp_program_completes_witness:
  "\<exists>answers l. sample_udp_program = Inr (Done (reports [[3]] answers), Some l) \<and>
    map fst (sent_datagrams l) = [[81], [82]] \<and> length answers = 1"
proof -
  let ?w0 = "hd sample_datagrams"
  have cons: "?w0 # tl sample_datagrams = sample_datagrams" by (simp add: sample_datagrams_def)
  have ok: "\<forall>w \<in> set (?w0 # tl sample_datagrams). datagram_ok w"
    "(\<lambda>_ :: string. Inr (datagram_capture sample_datagrams)) ''a.pcap'' =
      (Inr (datagram_capture (?w0 # tl sample_datagrams)) :: string + pcap_handle)"
    using sample_flow(1) cons by simp_all
  have "datagrams_pass udp_server" by (simp add: datagrams_pass_def udp_server_def)
  note run = udp_program_completes [OF ok refl this, of no_python sample_inet6 "''a.pcap''"]
  have parts: "filter (from_client ?w0) (filter (same_udp_flow ?w0) sample_datagrams) =
      [sample_datagram 1 700 2 53 [81], sample_datagram 1 700 2 53 [82]]"
    "filter (\<lambda>w. \<not> from_client ?w0 w) (filter (same_udp_flow ?w0) sample_datagrams) = [sample_datagram 2 53 1 700 [3]]"
    unfolding sample_flow(2) by (simp_all add: from_client_def sample_datagrams_def sample_datagram_def)
  have data: "dw_payload (sample_datagram a b c d x) = x" for a b c d x by (simp add: sample_datagram_def)
  obtain answers l where "sample_udp_program = Inr (Done (reports [[3]] answers), Some l)"
    "sent_datagrams l = [([81], server_addr ?w0), ([82], server_addr ?w0)]" "length answers = 1"
    using run unfolding cons parts list.map data by auto
  then show ?thesis by (intro exI [of _ answers] exI [of _ l]) simp
qed

theorem udp_program_completes_one_witness:
  "\<exists>l cap. sample_udp_program = Inr (Done [difference], Some l) \<and>
    load_capture (UdpConversationFactory sample_inet6) udp_processCapturePacket
      (\<lambda>_. Inr (datagram_capture sample_datagrams)) ''a.pcap'' \<lparr>conversation_store = new_store, datalink_type = 0\<rparr> = Inr cap \<and>
    length (getConversations (conversation_store cap)) \<le> 1"
proof -
  obtain l where l: "sample_udp_program = Inr (Done [difference], Some l)" using sample_udp_program_ends by blast
  from udp_program_completes_one [OF l] obtain s v cap where cap:
    "udp_options no_python sample_inet6 [] no_instance new_store Exact = Inr (Some (s, v))"
    "load_capture (UdpConversationFactory sample_inet6) udp_processCapturePacket
      (\<lambda>_. Inr (datagram_capture sample_datagrams)) ''a.pcap'' \<lparr>conversation_store = s, datalink_type = 0\<rparr> = Inr cap"
    and one: "case getConversations (conversation_store cap) of
       [] \<Rightarrow> l = [] \<and> [difference] = []
     | [c] \<Rightarrow> sent_datagrams l = map (\<lambda>d. (d, getTestSockAddr c)) (send_data (getActionQueue c)) \<and>
         (v = Exact \<longrightarrow> [difference] = reports (recv_data (getActionQueue c)) (received_datagrams l))
     | _ \<Rightarrow> False"
    by blast
  from one have "length (getConversations (conversation_store cap)) \<le> 1"
    by (cases "getConversations (conversation_store cap)" rule: remdups_adj.cases) simp_all
  moreover have "s = new_store" using cap(1) by simp
  ultimately show ?thesis using l cap(2) by blast
qed

end
