(* ===== verification/Memory.thy ===== *)
theory Memory
  imports Capture
begin

text \<open>
  The objects the program creates with \<open>new\<close> and destroys with \<open>delete\<close>: the layers of a packet,
  the actions of a conversation, the conversations and the test servers of a store. Memory maps an
  address to the object that lives there; a fresh address is never one that was used before.
  Everything that the classes hold by value or by \<open>unique_ptr\<close> is a part of its object. A layer is
  deleted as a whole: \<open>Layer\<close> has no virtual destructor, which makes its deletion through a pointer
  to the base class formally undefined, and the model is that of the compilers, which free the object.
\<close>

section \<open>Objects and memory\<close>

type_synonym addr = nat

datatype 'c object =
    Layer_object any_layer
  | Action_object action
  | Server_object target_test_server
  | Conversation_object 'c "addr list"

record 'c memory =
  next_addr :: addr
  cells :: "addr \<rightharpoonup> 'c object"

definition no_memory :: "'c memory" where
  "no_memory = \<lparr>next_addr = 0, cells = Map.empty\<rparr>"

definition new_object :: "'c object \<Rightarrow> 'c memory \<Rightarrow> addr \<times> 'c memory" where
  "new_object x m = (next_addr m, m\<lparr>next_addr := Suc (next_addr m), cells := (cells m)(next_addr m \<mapsto> x)\<rparr>)"

text \<open>\<open>delete\<close> of an object that was deleted before is undefined, \<open>delete nullptr\<close> does nothing.\<close>

definition delete_object :: "addr \<Rightarrow> 'c memory \<Rightarrow> 'c memory result" where
  "delete_object a m =
     (case cells m a of
        None \<Rightarrow> Inl (Undefined_behaviour Double_free)
      | Some _ \<Rightarrow> Inr (m\<lparr>cells := (cells m)(a := None)\<rparr>))"

fun delete_nullable :: "addr option \<Rightarrow> 'c memory \<Rightarrow> 'c memory result" where
  "delete_nullable None m = Inr m"
| "delete_nullable (Some a) m = delete_object a m"

definition update_object :: "addr \<Rightarrow> 'c object \<Rightarrow> 'c memory \<Rightarrow> 'c memory" where
  "update_object a x m = m\<lparr>cells := (cells m)(a \<mapsto> x)\<rparr>"

text \<open>Reading an object through a pointer to its class.\<close>

fun as_layer :: "'c object \<Rightarrow> any_layer option" where
  "as_layer (Layer_object l) = Some l"
| "as_layer _ = None"

fun as_action :: "'c object \<Rightarrow> action option" where
  "as_action (Action_object x) = Some x"
| "as_action _ = None"

fun as_server :: "'c object \<Rightarrow> target_test_server option" where
  "as_server (Server_object t) = Some t"
| "as_server _ = None"

fun as_conversation :: "'c object \<Rightarrow> ('c \<times> addr list) option" where
  "as_conversation (Conversation_object c q) = Some (c, q)"
| "as_conversation _ = None"

definition read_object :: "('c object \<Rightarrow> 'b option) \<Rightarrow> addr \<Rightarrow> 'c memory \<Rightarrow> 'b result" where
  "read_object as a m =
     (case Option.bind (cells m a) as of
        None \<Rightarrow> Inl (Undefined_behaviour Use_after_free)
      | Some x \<Rightarrow> Inr x)"

definition allocated :: "'c memory \<Rightarrow> addr set" where
  "allocated m = dom (cells m)"

definition fresh_ok :: "'c memory \<Rightarrow> bool" where
  "fresh_ok m \<longleftrightarrow> (\<forall>a \<in> allocated m. a < next_addr m)"

lemma fresh_okD [dest]: "fresh_ok m \<Longrightarrow> cells m a = Some x \<Longrightarrow> a < next_addr m"
  by (auto simp: fresh_ok_def allocated_def)

lemma no_memory_simps [simp]:
  "cells no_memory = Map.empty" "allocated no_memory = {}" "fresh_ok no_memory"
  by (simp_all add: no_memory_def allocated_def fresh_ok_def)

lemma fresh_unused [simp]: "fresh_ok m \<Longrightarrow> cells m (next_addr m) = None"
  by (auto simp: fresh_ok_def allocated_def)

lemma read_object_Inr: "cells m a = Some x \<Longrightarrow> as x = Some y \<Longrightarrow> read_object as a m = Inr y"
  by (simp add: read_object_def)

lemma delete_object_Inr: "cells m a = Some x \<Longrightarrow> delete_object a m = Inr (m\<lparr>cells := (cells m)(a := None)\<rparr>)"
  by (simp add: delete_object_def)

lemma new_object_facts:
  assumes "new_object x m = (a, m')" "fresh_ok m"
  shows "a = next_addr m" "cells m' = (cells m)(a \<mapsto> x)" "cells m a = None" "fresh_ok m'"
  using assms by (auto simp: new_object_def fresh_ok_def allocated_def less_Suc_eq)

section \<open>Deleting several objects\<close>

definition delete_all :: "addr list \<Rightarrow> 'c memory \<Rightarrow> 'c memory result" where
  "delete_all = fold_result delete_object"

lemma delete_all_simps [simp]:
  "delete_all [] m = Inr m" "delete_all (a # as) m = bind (delete_object a m) (delete_all as)"
  by (simp_all add: delete_all_def)

lemma delete_all_append: "delete_all (as @ bs) m = bind (delete_all as m) (delete_all bs)"
  by (simp add: delete_all_def fold_result_append)

text \<open>Distinct live objects are deleted without an error, and nothing else changes.\<close>

lemma delete_all_distinct:
  assumes "distinct as" "set as \<subseteq> allocated m"
  shows "delete_all as m = Inr (m\<lparr>cells := cells m |` (- set as)\<rparr>)"
  using assms
proof (induction as arbitrary: m)
  case Nil
  then show ?case by simp
next
  case (Cons a as)
  let ?m = "m\<lparr>cells := (cells m)(a := None)\<rparr>"
  have "delete_object a m = Inr ?m"
    using Cons.prems(2) by (auto simp: allocated_def intro: delete_object_Inr)
  moreover have "delete_all as ?m = Inr (?m\<lparr>cells := cells ?m |` (- set as)\<rparr>)"
    using Cons.prems by (intro Cons.IH) (auto simp: allocated_def)
  moreover have "cells ?m |` (- set as) = cells m |` (- set (a # as))"
    by (auto simp: restrict_map_def fun_eq_iff)
  ultimately show ?case by simp
qed

text \<open>A destructor that deletes the pointers of a container, some of which are null.\<close>

fun live_pointers :: "addr option list \<Rightarrow> addr list" where
  "live_pointers [] = []"
| "live_pointers (None # ps) = live_pointers ps"
| "live_pointers (Some a # ps) = a # live_pointers ps"

lemma set_live_pointers [simp]: "set (live_pointers ps) = {a. Some a \<in> set ps}"
  by (induction ps rule: live_pointers.induct) auto

lemma delete_nullable_all:
  fixes m :: "'c memory"
  shows "fold_result delete_nullable ps m = delete_all (live_pointers ps) m"
proof (induction ps arbitrary: m rule: live_pointers.induct)
  case (3 a ps)
  then have "fold_result delete_nullable ps = (delete_all (live_pointers ps) :: 'c memory \<Rightarrow> _)" by blast
  then show ?case by simp
qed simp_all

section \<open>Simulation of fallible steps\<close>

text \<open>Two computations fail with the same error or end in related results.\<close>

definition same_outcome :: "('a \<Rightarrow> 'b \<Rightarrow> bool) \<Rightarrow> 'a result \<Rightarrow> 'b result \<Rightarrow> bool" where
  "same_outcome R = rel_sum (=) R"

lemma same_outcome_simps [simp]:
  "same_outcome R (Inl e) (Inl e') \<longleftrightarrow> e = e'" "same_outcome R (Inr x) (Inr y) \<longleftrightarrow> R x y"
  "\<not> same_outcome R (Inl e) (Inr y)" "\<not> same_outcome R (Inr x) (Inl e)"
  by (simp_all add: same_outcome_def)

lemma same_outcome_bind:
  assumes "same_outcome R r r'" "\<And>x y. r = Inr x \<Longrightarrow> r' = Inr y \<Longrightarrow> R x y \<Longrightarrow> same_outcome S (f x) (g y)"
  shows "same_outcome S (bind r f) (bind r' g)"
  using assms by (cases r; cases r') simp_all

lemma same_outcome_bind_right:
  assumes "r = Inr x" "same_outcome S (f x) z"
  shows "same_outcome S (bind r f) z"
  using assms by simp

lemma same_outcome_refl_bind:
  assumes "\<And>x. r = Inr x \<Longrightarrow> same_outcome S (f x) (g x)"
  shows "same_outcome S (bind r f) (bind r g)"
  using assms by (cases r) simp_all

lemma same_outcome_fold:
  assumes "R s t" "\<And>x s t. x \<in> set xs \<Longrightarrow> R s t \<Longrightarrow> same_outcome R (f x s) (g x t)"
  shows "same_outcome R (fold_result f xs s) (fold_result g xs t)"
  using assms
proof (induction xs arbitrary: s t)
  case Nil
  then show ?case by simp
next
  case (Cons x xs)
  show ?case
    unfolding fold_result.simps
  proof (rule same_outcome_bind)
    show "same_outcome R (f x s) (g x t)" using Cons.prems by simp
  next
    fix y z
    assume "R y z"
    with Cons.prems(2) show "same_outcome R (fold_result f xs y) (fold_result g xs z)"
      by (intro Cons.IH) simp_all
  qed
qed

end
