(* ===== verification/Packet_Memory.thy ===== *)
theory Packet_Memory
  imports Memory "HOL-Library.Multiset"
begin

text \<open>
  The layers of a packet as the code holds them: \<open>TransportPacket\<close>
  (src/src/include/transport_packet.h) is a vector of pointers to layers that the packet handler
  creates with \<open>new\<close> (src/src/lib/capture.cc) and that the packet's destructor deletes. The
  dissection below does to memory what \<open>dissect\<close> does to values; the lemmas show that it yields the
  same packet on every frame and that the destructor deletes exactly the layers it created.
\<close>

section \<open>Packets of pointers\<close>

type_synonym packet_pointers = "addr option list"

definition new_packet_pointers :: packet_pointers where
  "new_packet_pointers = replicate (layer_num TRANSPORT) None"

definition addLayer_pointer :: "addr \<Rightarrow> packet_pointers \<Rightarrow> 'c memory \<Rightarrow> packet_pointers result" where
  "addLayer_pointer a pkt m =
     bind (read_object as_layer a m) (\<lambda>l. Inr (pkt[layer_num (getLayerNumber l) - 1 := Some a]))"

text \<open>The destructor.\<close>

definition destroy_packet :: "packet_pointers \<Rightarrow> 'c memory \<Rightarrow> 'c memory result" where
  "destroy_packet pkt m = fold_result delete_nullable pkt m"

text \<open>The packet as a recorder reads it through the pointers.\<close>

fun read_layers :: "packet_pointers \<Rightarrow> 'c memory \<Rightarrow> any_layer option list result" where
  "read_layers [] m = Inr []"
| "read_layers (None # ps) m = bind (read_layers ps m) (\<lambda>ls. Inr (None # ls))"
| "read_layers (Some a # ps) m =
     bind (read_object as_layer a m) (\<lambda>l. bind (read_layers ps m) (\<lambda>ls. Inr (Some l # ls)))"

definition read_packet :: "packet_pointers \<Rightarrow> 'c memory \<Rightarrow> transport_packet result" where
  "read_packet pkt m = bind (read_layers pkt m) (\<lambda>ls. Inr \<lparr>layers = ls\<rparr>)"

section \<open>Dissection\<close>

text \<open>
  The network layer, if the handler does not return early, the packet so far and the memory. The
  packet exists from the start of the handler, so its destructor runs on every way out.
\<close>

definition link_layer_pointers ::
  "8 word \<Rightarrow> pcap_pkthdr \<Rightarrow> byte list \<Rightarrow> 'c memory \<Rightarrow> (addr option \<times> packet_pointers \<times> 'c memory) result" where
  "link_layer_pointers link h bytes m =
     (if link = DLT_NULL then
        bind (read8 bytes 0) (\<lambda>b0.
        bind (if uint b0 = AF_INET then Inr True
              else bind (read8 bytes 3) (\<lambda>b3. Inr (uint b3 = AF_INET))) (\<lambda>inet.
          Inr (if inet then
                 (let (a, m1) = new_object (Layer_object (Net (IpLayer
                      \<lparr>packet_ptr = drop 4 bytes, packet_size = sint (caplen h - 4)\<rparr>))) m
                  in (Some a, new_packet_pointers, m1))
               else (None, new_packet_pointers, m))))
      else if link = DLT_EN10MB then
        (let eth = \<lparr>packet_ptr = bytes, packet_size = sint (caplen h)\<rparr>;
             (e, m1) = new_object (Layer_object (Ethernet eth)) m;
             next_layer = \<lparr>packet_ptr = eth_getData eth, packet_size = eth_getDataSize eth\<rparr>
         in bind (addLayer_pointer e new_packet_pointers m1) (\<lambda>packet.
            bind (eth_getEtherType eth) (\<lambda>t.
              Inr (if t = ETHERTYPE_IP then
                     (let (a, m2) = new_object (Layer_object (Net (IpLayer next_layer))) m1 in (Some a, packet, m2))
                   else if t = ETHERTYPE_IPV6 then
                     (let (a, m2) = new_object (Layer_object (Net (IpV6Layer next_layer))) m1 in (Some a, packet, m2))
                   else (None, packet, m1)))))
      else Inr (None, new_packet_pointers, m))"

definition add_new_layer ::
  "any_layer \<Rightarrow> packet_pointers \<Rightarrow> 'c memory \<Rightarrow> (bool \<times> packet_pointers \<times> 'c memory) result" where
  "add_new_layer l packet m =
     (let (a, m1) = new_object (Layer_object l) m
      in bind (addLayer_pointer a packet m1) (\<lambda>packet1. Inr (True, packet1, m1)))"

definition add_transport_pointers ::
  "layer3 \<Rightarrow> packet_pointers \<Rightarrow> 'c memory \<Rightarrow> (bool \<times> packet_pointers \<times> 'c memory) result" where
  "add_transport_pointers network packet m =
     bind (getNextProtocol network) (\<lambda>proto.
       if proto = IPPROTO_TCP then
         bind (getData3 network) (\<lambda>d. bind (getDataSize3 network) (\<lambda>n.
           add_new_layer (Trans (TcpLayer \<lparr>packet_ptr = d, packet_size = n\<rparr>)) packet m))
       else if proto = IPPROTO_UDP then
         bind (getData3 network) (\<lambda>d. bind (getDataSize3 network) (\<lambda>n.
           add_new_layer (Trans (UdpLayer \<lparr>packet_ptr = d, packet_size = n\<rparr>)) packet m))
       else Inr (False, packet, m))"

text \<open>The flag says that the packet is complete and goes to the store.\<close>

definition dissect_pointers ::
  "8 word \<Rightarrow> pcap_pkthdr \<Rightarrow> byte list \<Rightarrow> 'c memory \<Rightarrow> (bool \<times> packet_pointers \<times> 'c memory) result" where
  "dissect_pointers link h bytes m =
     (if caplen h \<noteq> len h then
        Inl (Runtime_error ''packet not fully captured.  increase snap length on capture'')
      else
        bind (link_layer_pointers link h bytes m) (\<lambda>(network, packet, m1).
          case network of
            None \<Rightarrow> Inr (False, packet, m1)
          | Some a \<Rightarrow>
              bind (addLayer_pointer a packet m1) (\<lambda>packet1.
              bind (read_object as_layer a m1) (\<lambda>l.
              bind (deref (as_layer3 (Some l))) (\<lambda>l3.
                add_transport_pointers l3 packet1 m1)))))"

section \<open>Packets in memory\<close>

text \<open>
  A packet of pointers stands for a packet: every slot is null in both, or points to its layer;
  and the layers are exactly the objects that the memory before the packet did not hold.
\<close>

definition packet_at :: "'c memory \<Rightarrow> 'c memory \<Rightarrow> packet_pointers \<Rightarrow> transport_packet \<Rightarrow> bool" where
  "packet_at before m pkt p \<longleftrightarrow>
     length pkt = 4 \<and> list_all2 (rel_option (\<lambda>a l. cells m a = Some (Layer_object l))) pkt (layers p) \<and>
     distinct (live_pointers pkt) \<and> cells before = cells m |` (- {a. Some a \<in> set pkt}) \<and> fresh_ok m"

lemma packet_at_new: "fresh_ok m \<Longrightarrow> packet_at m m new_packet_pointers new_packet"
  by (simp add: packet_at_def new_packet_pointers_def new_packet_def restrict_map_def numeral_eq_Suc)

lemma packet_at_allocated:
  assumes "packet_at before m pkt p" "Some a \<in> set pkt"
  obtains l where "cells m a = Some (Layer_object l)"
proof -
  obtain i where "i < length pkt" "pkt ! i = Some a" using assms(2) by (auto simp: in_set_conv_nth)
  with assms(1) have "rel_option (\<lambda>a l. cells m a = Some (Layer_object l)) (Some a) (layers p ! i)"
    unfolding packet_at_def by (metis list_all2_nthD)
  with that show thesis by (auto simp: option_rel_Some1)
qed

lemma live_pointers_update:
  "i < length ps \<Longrightarrow> ps ! i = None \<Longrightarrow> mset (live_pointers (ps[i := Some a])) = add_mset a (mset (live_pointers ps))"
proof (induction ps arbitrary: i rule: live_pointers.induct)
  case (2 ps)
  then show ?case by (cases i) simp_all
next
  case (3 b ps)
  then show ?case by (cases i) simp_all
qed simp

text \<open>A new layer goes into its empty slot.\<close>

lemma addLayer_new:
  assumes at: "packet_at before m pkt p" and new: "new_object (Layer_object l) m = (a, m')"
    and empty: "layers p ! (layer_num (getLayerNumber l) - 1) = None"
  shows "\<exists>pkt'. addLayer_pointer a pkt m' = Inr pkt' \<and> packet_at before m' pkt' (addLayer l p)"
proof -
  let ?i = "layer_num (getLayerNumber l) - 1" and ?pkt = "pkt[layer_num (getLayerNumber l) - 1 := Some a]"
  have i: "?i < length pkt" using at by (cases l) (simp_all add: packet_at_def)
  note n = new_object_facts [OF new]
  have fresh: "fresh_ok m" using at by (simp add: packet_at_def)
  have slot: "pkt ! ?i = None"
  proof -
    have "rel_option (\<lambda>a l. cells m a = Some (Layer_object l)) (pkt ! ?i) (layers p ! ?i)"
      using at i unfolding packet_at_def by (blast intro: list_all2_nthD)
    with empty show ?thesis by simp
  qed
  have a: "Some a \<notin> set pkt" using packet_at_allocated [OF at] n(3) fresh by force
  have set: "{b. Some b \<in> set ?pkt} = insert a {b. Some b \<in> set pkt}"
    using live_pointers_update [OF i slot, of a] by (metis set_live_pointers set_mset_add_mset_insert set_mset_mset)
  have "list_all2 (rel_option (\<lambda>a l. cells m' a = Some (Layer_object l))) ?pkt ((layers p)[?i := Some l])"
  proof (rule list_all2_update_cong)
    show "list_all2 (rel_option (\<lambda>a l. cells m' a = Some (Layer_object l))) pkt (layers p)"
      using at a n(2,3) fresh unfolding packet_at_def
      by (auto elim!: list.rel_mono_strong option.rel_mono_strong)
  qed (use n fresh in simp)
  moreover have "distinct (live_pointers ?pkt)"
  proof -
    have "mset (live_pointers ?pkt) = mset (a # live_pointers pkt)"
      using live_pointers_update [OF i slot] by simp
    moreover have "distinct (a # live_pointers pkt)" using at a by (simp add: packet_at_def)
    ultimately show ?thesis by (metis mset_eq_imp_distinct_iff)
  qed
  moreover have "cells before = cells m' |` (- {b. Some b \<in> set ?pkt})"
    unfolding set using at n(2,3) fresh by (auto simp: packet_at_def restrict_map_def fun_eq_iff)
  moreover have "addLayer_pointer a pkt m' = Inr ?pkt"
    using n(2) fresh by (simp add: addLayer_pointer_def read_object_def)
  ultimately show ?thesis
    using at n(4) fresh by (simp add: packet_at_def addLayer_def)
qed

text \<open>A packet of memory is read as the packet it stands for.\<close>

lemma read_layers_at:
  "list_all2 (rel_option (\<lambda>a l. cells m a = Some (Layer_object l))) pkt ls \<Longrightarrow> read_layers pkt m = Inr ls"
proof (induction pkt m arbitrary: ls rule: read_layers.induct)
  case (2 ps m)
  then obtain ls' where "ls = None # ls'" "read_layers ps m = Inr ls'"
    by (auto simp: list_all2_Cons1)
  then show ?case by simp
next
  case (3 a ps m)
  from "3.prems" obtain l ls' where ls: "ls = Some l # ls'" "cells m a = Some (Layer_object l)"
    "list_all2 (rel_option (\<lambda>a l. cells m a = Some (Layer_object l))) ps ls'"
    by (auto simp: list_all2_Cons1 option_rel_Some1)
  then have "read_object as_layer a m = Inr l" by (simp add: read_object_def)
  with "3.IH" ls show ?case by simp
qed simp

lemma read_packet_at: "packet_at before m pkt p \<Longrightarrow> read_packet pkt m = Inr p"
  using read_layers_at [of m pkt "layers p"] by (simp add: packet_at_def read_packet_def)

text \<open>
  The destructor deletes the layers of the packet and nothing else, also where other objects
  changed since the packet was built.
\<close>

lemma destroy_packet_live:
  assumes "distinct (live_pointers pkt)" "{a. Some a \<in> set pkt} \<subseteq> allocated m"
  shows "destroy_packet pkt m = Inr (m\<lparr>cells := cells m |` (- {a. Some a \<in> set pkt})\<rparr>)"
  using delete_all_distinct [of "live_pointers pkt" m] assms
  by (simp add: destroy_packet_def delete_nullable_all)

lemma destroy_packet_at:
  assumes "packet_at before m pkt p"
  shows "\<exists>m'. destroy_packet pkt m = Inr m' \<and> cells m' = cells before"
proof -
  have "{a. Some a \<in> set pkt} \<subseteq> allocated m"
    using packet_at_allocated [OF assms] by (auto simp: allocated_def)
  then show ?thesis using assms by (simp add: destroy_packet_live packet_at_def)
qed

section \<open>Dissection in memory\<close>

definition link_at :: "'c memory \<Rightarrow> addr option \<times> packet_pointers \<times> 'c memory \<Rightarrow> (layer3 \<times> transport_packet) option \<Rightarrow> bool" where
  "link_at before r r' \<longleftrightarrow>
     (case (r, r') of
        ((None, pkt, m), None) \<Rightarrow> (\<exists>p. packet_at before m pkt p)
      | ((Some a, pkt, m), Some (l3, p)) \<Rightarrow>
          (\<exists>m0. packet_at before m0 pkt p \<and> new_object (Layer_object (Net l3)) m0 = (a, m) \<and>
             layers p ! 2 = None \<and> layers p ! 3 = None)
      | _ \<Rightarrow> False)"

definition dissected_at :: "'c memory \<Rightarrow> bool \<times> packet_pointers \<times> 'c memory \<Rightarrow> transport_packet option \<Rightarrow> bool" where
  "dissected_at before r r' \<longleftrightarrow>
     (case (r, r') of
        ((False, pkt, m), None) \<Rightarrow> (\<exists>p. packet_at before m pkt p)
      | ((True, pkt, m), Some p) \<Rightarrow> packet_at before m pkt p
      | _ \<Rightarrow> False)"

lemma link_at_None: "link_at before (None, pkt, m) None \<longleftrightarrow> (\<exists>p. packet_at before m pkt p)"
  by (simp add: link_at_def)

lemma link_at_Some:
  "packet_at before m0 pkt p \<Longrightarrow> layers p ! 2 = None \<Longrightarrow> layers p ! 3 = None \<Longrightarrow>
    link_at before (case new_object (Layer_object (Net l3)) m0 of (a, m) \<Rightarrow> (Some a, pkt, m)) (Some (l3, p))"
  by (auto simp: link_at_def split: prod.split)

lemma new_packet_empty [simp]: "layers new_packet ! 2 = None" "layers new_packet ! 3 = None" "layers new_packet ! Suc 0 = None"
  by (simp_all add: new_packet_def numeral_eq_Suc)

lemma link_layer_same:
  assumes "fresh_ok m"
  shows "same_outcome (link_at m) (link_layer_pointers link h bytes m) (link_layer link h bytes)"
proof -
  note new = packet_at_new [OF assms]
  let ?eth = "\<lparr>packet_ptr = bytes, packet_size = sint (caplen h)\<rparr>"
  consider "link = DLT_NULL" | "link \<noteq> DLT_NULL" "link = DLT_EN10MB" | "link \<noteq> DLT_NULL" "link \<noteq> DLT_EN10MB"
    by blast
  then show ?thesis
  proof cases
    case 1
    then show ?thesis
      using link_at_Some [OF new] new
      by (auto simp: link_layer_pointers_def link_layer_def link_at_None Let_def intro!: same_outcome_refl_bind)
  next
    case 2
    obtain e m1 where e: "new_object (Layer_object (Ethernet ?eth)) m = (e, m1)" by fastforce
    obtain pkt where pkt: "addLayer_pointer e new_packet_pointers m1 = Inr pkt"
      "packet_at m m1 pkt (addLayer (Ethernet ?eth) new_packet)"
      using addLayer_new [OF new e] new_packet_empty(3) by (auto simp: numeral_eq_Suc)
    have "layers (addLayer (Ethernet ?eth) new_packet) ! 2 = None" "layers (addLayer (Ethernet ?eth) new_packet) ! 3 = None"
      by (simp_all add: addLayer_def)
    note eth = link_at_Some [OF pkt(2) this]
    show ?thesis
      using 2 e pkt(1) eth pkt(2)
      by (auto simp: link_layer_pointers_def link_layer_def link_at_None Let_def intro!: same_outcome_refl_bind)
  next
    case 3
    with new show ?thesis by (auto simp: link_layer_pointers_def link_layer_def link_at_None)
  qed
qed

lemma add_new_layer_same:
  assumes "packet_at before m pkt p" "layers p ! 3 = None"
  shows "same_outcome (dissected_at before) (add_new_layer (Trans l4) pkt m) (Inr (Some (addLayer (Trans l4) p)))"
proof -
  obtain a m1 where a: "new_object (Layer_object (Trans l4)) m = (a, m1)" by fastforce
  from addLayer_new [OF assms(1) a] assms(2) a show ?thesis
    by (auto simp: add_new_layer_def dissected_at_def)
qed

lemma add_transport_same:
  assumes "packet_at before m pkt p" "layers p ! 3 = None"
  shows "same_outcome (dissected_at before) (add_transport_pointers l3 pkt m) (add_transport l3 p)"
  using assms(1) add_new_layer_same [OF assms]
  by (auto simp: add_transport_pointers_def add_transport_def dissected_at_def intro!: same_outcome_refl_bind)

lemma dissect_same:
  assumes "fresh_ok m"
  shows "same_outcome (dissected_at m) (dissect_pointers link h bytes m) (dissect link h bytes)"
proof (cases "caplen h = len h")
  case False
  then show ?thesis by (simp add: dissect_pointers_def dissect_def)
next
  case True
  have "same_outcome (dissected_at m)
      (case r of (network, packet, m1) \<Rightarrow>
         (case network of
            None \<Rightarrow> Inr (False, packet, m1)
          | Some a \<Rightarrow>
              bind (addLayer_pointer a packet m1) (\<lambda>packet1.
              bind (read_object as_layer a m1) (\<lambda>l.
              bind (deref (as_layer3 (Some l))) (\<lambda>l3. add_transport_pointers l3 packet1 m1)))))
      (case r' of None \<Rightarrow> Inr None | Some (network, packet) \<Rightarrow> add_transport network (addLayer (Net network) packet))"
    if at: "link_at m r r'" for r r'
  proof (cases r')
    case None
    with at show ?thesis by (auto simp: link_at_def dissected_at_def split: prod.splits option.splits)
  next
    case (Some s)
    then obtain l3 p where s: "r' = Some (l3, p)" by (cases s) auto
    with at obtain a pkt m0 m1 where r: "r = (Some a, pkt, m1)" "packet_at m m0 pkt p"
      "new_object (Layer_object (Net l3)) m0 = (a, m1)" "layers p ! 2 = None" "layers p ! 3 = None"
      by (auto simp: link_at_def split: prod.splits option.splits)
    obtain pkt1 where pkt1: "addLayer_pointer a pkt m1 = Inr pkt1" "packet_at m m1 pkt1 (addLayer (Net l3) p)"
      using addLayer_new [OF r(2,3)] r(4) by (auto simp: numeral_eq_Suc)
    have "read_object as_layer a m1 = Inr (Net l3)"
      using new_object_facts(2) [OF r(3)] r(2) by (simp add: read_object_def packet_at_def)
    then show ?thesis
      using s r(1,5) pkt1 add_transport_same [OF pkt1(2)] by (simp add: addLayer_def)
  qed
  with True link_layer_same [OF assms] show ?thesis
    by (auto simp: dissect_pointers_def dissect_def intro!: same_outcome_bind [where R = "link_at m"])
qed

end
