(* ===== verification/Tcp_States.thy ===== *)
theory Tcp_States
  imports Tcp_Conversation
begin

text \<open>
  The state machine of the TCP recorder (src/src/lib/tcp_conversation.cc) as a step relation: which
  state follows which, and which actions the step appends. The handlers take only these steps,
  whatever the packet is, so what holds of every reachable queue holds of every recording.
\<close>

section \<open>The step relation\<close>

inductive tcp_step :: "tcp_state \<Rightarrow> action list \<Rightarrow> tcp_state \<Rightarrow> bool" where
  ignored: "tcp_step s [] s"
| reset: "tcp_step s [] CLOSED"
| syn: "tcp_step CLOSED [] SYN_SENT"
| syn_ack: "tcp_step SYN_SENT [] SYN_RECEIVED"
| handshake_done: "tcp_step SYN_RECEIVED [new_action CONNECT] ESTABLISHED"
| payload: "act_type a \<in> {SEND, RECV} \<Longrightarrow> act_data a \<noteq> [] \<Longrightarrow> tcp_step ESTABLISHED [a] ESTABLISHED"
| fin: "tcp_step ESTABLISHED [new_action CLOSE] CLOSED"
| payload_fin: "act_type a \<in> {SEND, RECV} \<Longrightarrow> act_data a \<noteq> [] \<Longrightarrow>
    tcp_step ESTABLISHED [a, new_action CLOSE] CLOSED"

inductive_cases tcp_step_closed: "tcp_step CLOSED as s"
inductive_cases tcp_step_into_established: "tcp_step s as ESTABLISHED"

text \<open>The queues and states reachable by so many packets.\<close>

inductive tcp_reach :: "nat \<Rightarrow> action list \<Rightarrow> tcp_state \<Rightarrow> bool" where
  start: "tcp_reach 0 [] CLOSED"
| step: "tcp_reach n q s \<Longrightarrow> tcp_step s as s' \<Longrightarrow> tcp_reach (Suc n) (q @ as) s'"

text \<open>A connection is only established from a completed handshake, and a closed one needs a new one.\<close>

lemma established_from: "tcp_step s as ESTABLISHED \<Longrightarrow> s \<in> {SYN_RECEIVED, ESTABLISHED}"
  by (erule tcp_step_into_established) simp_all

lemma closed_records_nothing: "tcp_step CLOSED as s \<Longrightarrow> as = [] \<and> s \<in> {CLOSED, SYN_SENT}"
  by (erule tcp_step_closed) simp_all

section \<open>The handlers take the steps\<close>

definition takes_step :: "tcp_conversation \<Rightarrow> tcp_conversation \<Rightarrow> bool" where
  "takes_step c c' \<longleftrightarrow>
     (\<exists>as. tcp_step (cap_tcp_state c) as (cap_tcp_state c') \<and> action_queue c' = action_queue c @ as)"

lemma takes_stepI:
  "tcp_step (cap_tcp_state c) as (cap_tcp_state c') \<Longrightarrow> action_queue c' = action_queue c @ as \<Longrightarrow> takes_step c c'"
  by (auto simp: takes_step_def)

lemma takes_step_ignored [intro]: "takes_step c c"
  by (rule takes_stepI [OF ignored]) simp

lemma closeProcess_step:
  "closeProcessCapturePacket l3 tcp c = Inr c' \<Longrightarrow> cap_tcp_state c = CLOSED \<Longrightarrow> takes_step c c'"
  by (auto simp: closeProcessCapturePacket_def result_simps takes_step_def close_socket_def Let_def
      intro: tcp_step.intros split: if_splits)

lemma synSentProcess_step:
  "synSentProcessCapturePacket l3 tcp c = Inr c' \<Longrightarrow> cap_tcp_state c = SYN_SENT \<Longrightarrow> takes_step c c'"
  by (auto simp: synSentProcessCapturePacket_def result_simps takes_step_def
      intro: tcp_step.intros split: if_splits)

lemma synRecvProcess_step:
  "synRecvProcessCapturePacket l3 tcp c = Inr c' \<Longrightarrow> cap_tcp_state c = SYN_RECEIVED \<Longrightarrow> takes_step c c'"
  by (auto simp: synRecvProcessCapturePacket_def result_simps takes_step_def Let_def
      intro: tcp_step.intros split: if_splits)

lemma estProcess_step:
  assumes "estProcessCapturePacket l3 tcp c = Inr c'" "cap_tcp_state c = ESTABLISHED"
  shows "takes_step c c'"
proof -
  obtain size where size: "tcp_getDataSize tcp = Inr size"
    using assms(1) by (auto simp: estProcessCapturePacket_def result_simps)
  have fin_step: "takes_step c c'"
    if "bind (hasFin tcp) (\<lambda>fin. Inr (if fin
          then (let c2 = (c\<lparr>action_queue := action_queue c @ as\<rparr>)\<lparr>cap_tcp_state := CLOSED\<rparr>
                in c2\<lparr>action_queue := action_queue c2 @ [new_action CLOSE]\<rparr>)
          else c\<lparr>action_queue := action_queue c @ as\<rparr>)) = Inr c'"
      and "tcp_step ESTABLISHED as ESTABLISHED" "tcp_step ESTABLISHED (as @ [new_action CLOSE]) CLOSED" for as
    using that assms(2) by (auto simp: takes_step_def result_simps Let_def split: if_splits)
  show ?thesis
  proof (cases "size = 0")
    case True
    have self: "c\<lparr>action_queue := action_queue c @ []\<rparr> = c" by (cases c) simp
    from True size assms(1) show ?thesis
      by (intro fin_step [of "[]"], unfold self)
        (auto simp: estProcessCapturePacket_def intro: tcp_step.intros)
  next
    case False
    with assms(1) size obtain t p a where
      a: "new_action_range (if t then SEND else RECV) p size = Inr a"
      and r: "bind (hasFin tcp) (\<lambda>fin. Inr (if fin
          then (let c2 = (c\<lparr>action_queue := action_queue c @ [a]\<rparr>)\<lparr>cap_tcp_state := CLOSED\<rparr>
                in c2\<lparr>action_queue := action_queue c2 @ [new_action CLOSE]\<rparr>)
          else c\<lparr>action_queue := action_queue c @ [a]\<rparr>)) = Inr c'"
      by (auto simp: estProcessCapturePacket_def bind_eq_Inr)
    have "act_type a \<in> {SEND, RECV}" "act_data a \<noteq> []"
      using new_action_range_data [OF a] False by auto
    then show ?thesis
      by (intro fin_step [OF r]) (auto intro: tcp_step.intros)
  qed
qed

lemma tcp_process_step:
  assumes "tcp_processCapturePacket p c = Inr c'"
  shows "takes_step c c'"
proof -
  obtain t where t: "getLayer p TRANSPORT = Inr t"
    using assms by (auto simp: tcp_processCapturePacket_def result_simps)
  show ?thesis
  proof (cases "as_tcp t")
    case None
    with assms t show ?thesis by (auto simp: tcp_processCapturePacket_def)
  next
    case (Some tcp)
    with assms t obtain rst where rst: "hasRst tcp = Inr rst"
      by (auto simp: tcp_processCapturePacket_def result_simps)
    show ?thesis
    proof (cases rst)
      case True
      with assms t Some rst show ?thesis
        by (auto simp: tcp_processCapturePacket_def close_socket_def Let_def takes_step_def
            intro: tcp_step.intros)
    next
      case False
      with assms t Some rst obtain l3 where "(case cap_tcp_state c of
                   CLOSED \<Rightarrow> closeProcessCapturePacket l3 tcp c
                 | SYN_SENT \<Rightarrow> synSentProcessCapturePacket l3 tcp c
                 | SYN_RECEIVED \<Rightarrow> synRecvProcessCapturePacket l3 tcp c
                 | ESTABLISHED \<Rightarrow> estProcessCapturePacket l3 tcp c) = Inr c'"
        by (auto simp: tcp_processCapturePacket_def result_simps)
      then show ?thesis
        using closeProcess_step synSentProcess_step synRecvProcess_step estProcess_step
        by (cases "cap_tcp_state c") auto
    qed
  qed
qed

lemma tcp_record_reach:
  assumes "tcp_record ps c = Inr c'" "tcp_reach n (action_queue c) (cap_tcp_state c)"
  shows "tcp_reach (n + length ps) (action_queue c') (cap_tcp_state c')"
  using assms
proof (induction ps arbitrary: c n)
  case Nil
  then show ?case by (simp add: tcp_record_def)
next
  case (Cons p ps)
  then obtain c1 where c1: "tcp_processCapturePacket p c = Inr c1" "tcp_record ps c1 = Inr c'"
    by (auto simp: tcp_record_def result_simps)
  obtain as where as: "tcp_step (cap_tcp_state c) as (cap_tcp_state c1)" "action_queue c1 = action_queue c @ as"
    using tcp_process_step [OF c1(1)] by (auto simp: takes_step_def)
  have "tcp_reach (Suc n) (action_queue c1) (cap_tcp_state c1)"
    using tcp_reach.step [OF Cons.prems(2) as(1)] as(2) by simp
  with Cons.IH [OF c1(2) this] show ?case by simp
qed

lemma tcp_from_packet_reach:
  assumes "tcp_from_packet n p target = Inr c" "tcp_record ps c = Inr c'"
  shows "tcp_reach (length ps) (action_queue c') (cap_tcp_state c')"
proof -
  have "action_queue c = []" "cap_tcp_state c = CLOSED"
    using assms(1) by (auto simp: tcp_from_packet_def conversation_from_packet_def result_simps
        packet_conversation.defs tcp_conversation.defs split: option.splits)
  then have "tcp_reach 0 (action_queue c) (cap_tcp_state c)" by (simp add: tcp_reach.start)
  from tcp_record_reach [OF assms(2) this] show ?thesis by simp
qed

section \<open>What holds of every reachable queue\<close>

definition actions_of :: "action_type \<Rightarrow> action list \<Rightarrow> nat" where
  "actions_of t q = count_list (map act_type q) t"

lemma actions_of_simps [simp]:
  "actions_of t [] = 0"
  "actions_of t (a # q) = (if act_type a = t then 1 else 0) + actions_of t q"
  "actions_of t (q @ q') = actions_of t q + actions_of t q'"
  "act_type (new_action t) = t"
  by (simp_all add: actions_of_def new_action_def)

text \<open>How far a handshake has come.\<close>

fun handshake_packets :: "tcp_state \<Rightarrow> nat" where
  "handshake_packets SYN_SENT = 1"
| "handshake_packets SYN_RECEIVED = 2"
| "handshake_packets _ = 0"

lemma reach_grammar:
  "tcp_reach n q s \<Longrightarrow>
    \<exists>open. session_run False (map act_type q) = Some open \<and> (s = ESTABLISHED \<longrightarrow> open)"
proof (induction rule: tcp_reach.induct)
  case start
  then show ?case by (intro exI [of _ False]) simp
next
  case (step n q s as s')
  then obtain op where "session_run False (map act_type q) = Some op" "s = ESTABLISHED \<longrightarrow> op"
    by blast
  with step.hyps(2) show ?case
    by (cases rule: tcp_step.cases) (auto simp: session_run_append)
qed

lemma reach_counts:
  "tcp_reach n q s \<Longrightarrow>
    3 * actions_of CONNECT q + handshake_packets s \<le> n \<and>
    actions_of CLOSE q + (if s = ESTABLISHED then 1 else 0) \<le> actions_of CONNECT q"
proof (induction rule: tcp_reach.induct)
  case start
  then show ?case by simp
next
  case (step n q s as s')
  from step.hyps(2) step.IH show ?case
    by (cases rule: tcp_step.cases) (auto split: if_splits)
qed

lemma reach_data:
  "tcp_reach n q s \<Longrightarrow> \<forall>a \<in> set q. (act_data a \<noteq> []) = (act_type a \<in> {SEND, RECV})"
proof (induction rule: tcp_reach.induct)
  case start
  then show ?case by simp
next
  case (step n q s as s')
  from step.hyps(2) step.IH show ?case
    by (cases rule: tcp_step.cases) (auto simp: new_action_def)
qed

lemmas reachable_facts = reach_grammar reach_counts reach_data

section \<open>Properties\<close>

text \<open>
  C20. Whatever packets are recorded (well formed or not), a conversation built from a packet has a
  replayable queue: data and \<open>CLOSE\<close> only occur while a connection is open, an established
  conversation has an open connection, \<open>SEND\<close> and \<open>RECV\<close> carry data and the others none; every
  recorded connection took three packets of its own, no connection is closed twice, and the recorder
  closes no socket.
\<close>

theorem tcp_queue_replayable:
  assumes "tcp_from_packet n p target = Inr c" "tcp_record ps c = Inr c'"
  shows "(\<exists>open. session_run False (queue_types c') = Some open \<and>
             (cap_tcp_state c' = ESTABLISHED \<longrightarrow> open)) \<and>
    (\<forall>a \<in> set (action_queue c'). (act_data a \<noteq> []) = (act_type a \<in> {SEND, RECV})) \<and>
    3 * actions_of CONNECT (action_queue c') \<le> length ps \<and>
    actions_of CLOSE (action_queue c') \<le> actions_of CONNECT (action_queue c') \<and>
    closed_sockets c' = []"
  using reachable_facts [OF tcp_from_packet_reach [OF assms]]
    tcp_record_inv [OF assms(2) tcp_from_packet_inv [OF assms(1)]]
  by (auto simp: queue_types_def tcp_inv_def split: if_splits)

section \<open>Witnesses\<close>

theorem tcp_queue_replayable_witness:
  "\<exists>c. tcp_record sample_session sample_conversation = Inr c \<and>
    (\<exists>open. session_run False (queue_types c) = Some open) \<and>
    3 * actions_of CONNECT (action_queue c) \<le> 5 \<and> closed_sockets c = []"
proof -
  obtain c where c: "tcp_record sample_session sample_conversation = Inr c"
    using tcp_record_simulates [of sample_conversation sample_session sample_segments
        "[10, 0, 0, 1]" "[10, 0, 0, 2]" "htons 7"] sample_decodes sample_fields
    by (auto simp: endpoints_def)
  moreover have "length sample_session = 5" by (simp add: sample_session_def)
  ultimately show ?thesis using tcp_queue_replayable [OF sample_created c] by auto
qed

end
