(* ===== verification/Store_Memory.thy ===== *)
theory Store_Memory
  imports Packet_Memory Tcp_States
begin

text \<open>
  The store as the code holds it: maps from keys to pointers (src/src/include/conversation_store.h),
  conversations whose queues are deques of pointers to actions (src/src/include/packet_conversation.h),
  and the destructors of both. The operations below do to memory what those of
  \<open>Conversation_Store\<close> do to values; the lemmas show that they simulate them step by step and
  never share, lose or free an object that the store owns.
\<close>

section \<open>Stores of pointers\<close>

type_synonym 'a conversation_memory = "'a packet_conversation_scheme memory"

record pointer_store =
  server_pointers :: "(string \<times> addr option) list"
  conversation_pointers :: "(string \<times> addr) list"

definition new_pointer_store :: pointer_store where
  "new_pointer_store = \<lparr>server_pointers = [], conversation_pointers = []\<rparr>"

fun new_server :: "target_test_server option \<Rightarrow> 'c memory \<Rightarrow> addr option \<times> 'c memory" where
  "new_server None m = (None, m)"
| "new_server (Some t) m = (case new_object (Server_object t) m of (a, m1) \<Rightarrow> (Some a, m1))"

definition addTargetTestServer_pointer ::
  "'c factory \<Rightarrow> string \<Rightarrow> pointer_store \<times> 'c memory \<Rightarrow> (pointer_store \<times> 'c memory) result" where
  "addTargetTestServer_pointer f spec = (\<lambda>(s, m).
     bind (createTargetTestServer f spec) (\<lambda>(key, value).
       case new_server value m of (p, m1) \<Rightarrow>
         Inr (s\<lparr>server_pointers := map_put key p (server_pointers s)\<rparr>, m1)))"

fun read_server :: "addr option \<Rightarrow> 'c memory \<Rightarrow> target_test_server option result" where
  "read_server None m = Inr None"
| "read_server (Some a) m = bind (read_object as_server a m) (\<lambda>t. Inr (Some t))"

definition getConversation_pointer ::
  "'c factory \<Rightarrow> transport_packet \<Rightarrow> pointer_store \<Rightarrow> 'c memory \<Rightarrow> (addr option \<times> pointer_store \<times> 'c memory) result" where
  "getConversation_pointer f packet s m =
     bind (getKey f packet) (\<lambda>conv_key.
       case map_of (conversation_pointers s) conv_key of
         Some a \<Rightarrow> Inr (Some a, s, m)
       | None \<Rightarrow>
           bind (getTargetTestServerKeys f packet) (\<lambda>configured_keys.
             case find_server (server_pointers s) configured_keys of (is_configured, test_server) \<Rightarrow>
               if is_configured \<or> (server_pointers s = [] \<and> conversation_pointers s = []) then
                 bind (read_server test_server m) (\<lambda>t.
                 bind (createConversation f packet t) (\<lambda>c.
                   case new_object (Conversation_object c []) m of (a, m1) \<Rightarrow>
                     Inr (Some a, s\<lparr>conversation_pointers := map_put conv_key a (conversation_pointers s)\<rparr>, m1)))
               else Inr (None, s, m)))"

section \<open>Queues of pointers\<close>

text \<open>
  \<open>action_queue_.push_back(new Action(...))\<close>, for the actions that a handler appends.
\<close>

fun push_new_actions :: "action list \<Rightarrow> addr list \<Rightarrow> 'c memory \<Rightarrow> addr list \<times> 'c memory" where
  "push_new_actions [] q m = (q, m)"
| "push_new_actions (x # xs) q m =
     (case new_object (Action_object x) m of (a, m1) \<Rightarrow> push_new_actions xs (q @ [a]) m1)"

fun read_actions :: "addr list \<Rightarrow> 'c memory \<Rightarrow> action list result" where
  "read_actions [] m = Inr []"
| "read_actions (a # q) m =
     bind (read_object as_action a m) (\<lambda>x. bind (read_actions q m) (\<lambda>xs. Inr (x # xs)))"

definition read_conversation :: "addr \<Rightarrow> 'a conversation_memory \<Rightarrow> 'a packet_conversation_scheme result" where
  "read_conversation a m =
     bind (read_object as_conversation a m) (\<lambda>(c, q).
     bind (read_actions q m) (\<lambda>as. Inr (c\<lparr>action_queue := as\<rparr>)))"

text \<open>
  \<open>conversation->processCapturePacket(packet)\<close> in place. The handlers only ever append to the
  queue; what they append is created with \<open>new\<close>.
\<close>

definition process_pointer ::
  "(transport_packet \<Rightarrow> 'a packet_conversation_scheme \<Rightarrow> 'a packet_conversation_scheme result) \<Rightarrow>
    transport_packet \<Rightarrow> addr \<Rightarrow> 'a conversation_memory \<Rightarrow> 'a conversation_memory result" where
  "process_pointer process packet a m =
     bind (read_object as_conversation a m) (\<lambda>(_, q).
     bind (read_conversation a m) (\<lambda>c.
     bind (process packet c) (\<lambda>c'.
       case push_new_actions (drop (length q) (action_queue c')) q m of (q', m1) \<Rightarrow>
         Inr (update_object a (Conversation_object (c'\<lparr>action_queue := []\<rparr>) q') m1))))"

definition actionFront_pointer :: "addr \<Rightarrow> 'c memory \<Rightarrow> action result" where
  "actionFront_pointer a m =
     bind (read_object as_conversation a m) (\<lambda>(c, q).
       case q of
         [] \<Rightarrow> Inl (Undefined_behaviour Out_of_bounds_read)
       | b # _ \<Rightarrow> read_object as_action b m)"

definition actionPop_pointer :: "addr \<Rightarrow> 'c memory \<Rightarrow> 'c memory result" where
  "actionPop_pointer a m =
     bind (read_object as_conversation a m) (\<lambda>(c, q).
       case q of
         [] \<Rightarrow> Inl (Undefined_behaviour Out_of_bounds_read)
       | b # q' \<Rightarrow> bind (delete_object b m) (\<lambda>m1. Inr (update_object a (Conversation_object c q') m1)))"

section \<open>The packet handler\<close>

definition store_packet_pointer ::
  "'a packet_conversation_scheme factory \<Rightarrow>
    (transport_packet \<Rightarrow> 'a packet_conversation_scheme \<Rightarrow> 'a packet_conversation_scheme result) \<Rightarrow>
    transport_packet \<Rightarrow> pointer_store \<Rightarrow> 'a conversation_memory \<Rightarrow> (pointer_store \<times> 'a conversation_memory) result" where
  "store_packet_pointer f process packet s m =
     bind (getConversation_pointer f packet s m) (\<lambda>(conversation, s1, m1).
       case conversation of
         None \<Rightarrow> Inr (s1, m1)
       | Some a \<Rightarrow> bind (process_pointer process packet a m1) (\<lambda>m2. Inr (s1, m2)))"

definition packetHandler_pointer ::
  "'a packet_conversation_scheme factory \<Rightarrow>
    (transport_packet \<Rightarrow> 'a packet_conversation_scheme \<Rightarrow> 'a packet_conversation_scheme result) \<Rightarrow>
    8 word \<Rightarrow> pcap_pkthdr \<times> byte list \<Rightarrow> pointer_store \<times> 'a conversation_memory \<Rightarrow>
    (pointer_store \<times> 'a conversation_memory) result" where
  "packetHandler_pointer f process link frame = (\<lambda>(s, m).
     bind (dissect_pointers link (fst frame) (snd frame) m) (\<lambda>(complete, pkt, m1).
     bind (if complete then bind (read_packet pkt m1) (\<lambda>packet. store_packet_pointer f process packet s m1)
           else Inr (s, m1)) (\<lambda>(s1, m2).
     bind (destroy_packet pkt m2) (\<lambda>m3. Inr (s1, m3)))))"

section \<open>The destructors\<close>

text \<open>\<open>~PacketConversation\<close> deletes the actions that are left; \<open>delete\<close> runs it and frees the object.\<close>

definition destroy_conversation :: "addr list \<Rightarrow> 'c memory \<Rightarrow> 'c memory result" where
  "destroy_conversation q m = delete_all q m"

definition delete_conversation :: "addr \<Rightarrow> 'c memory \<Rightarrow> 'c memory result" where
  "delete_conversation a m =
     bind (read_object as_conversation a m) (\<lambda>(c, q).
     bind (destroy_conversation q m) (delete_object a))"

text \<open>\<open>~TypedConversationStore\<close> and then \<open>~ConversationStore\<close>, its base class.\<close>

definition destroy_conversations :: "pointer_store \<Rightarrow> 'c memory \<Rightarrow> 'c memory result" where
  "destroy_conversations s m = fold_result (\<lambda>(k, a). delete_conversation a) (conversation_pointers s) m"

definition destroy_servers :: "pointer_store \<Rightarrow> 'c memory \<Rightarrow> 'c memory result" where
  "destroy_servers s m = fold_result (\<lambda>(k, p). delete_nullable p) (server_pointers s) m"

definition destroy_store :: "pointer_store \<Rightarrow> 'c memory \<Rightarrow> 'c memory result" where
  "destroy_store s m = bind (destroy_conversations s m) (destroy_servers s)"

section \<open>Stores in memory\<close>

definition queue_at :: "'c memory \<Rightarrow> addr \<Rightarrow> addr list" where
  "queue_at m a = (case Option.bind (cells m a) as_conversation of None \<Rightarrow> [] | Some (c, q) \<Rightarrow> q)"

definition conversation_at :: "'a conversation_memory \<Rightarrow> addr \<Rightarrow> 'a packet_conversation_scheme \<Rightarrow> bool" where
  "conversation_at m a c \<longleftrightarrow>
     (\<exists>q. cells m a = Some (Conversation_object (c\<lparr>action_queue := []\<rparr>) q) \<and> distinct q \<and>
        map (cells m) q = map (\<lambda>x. Some (Action_object x)) (action_queue c))"

definition server_at :: "'c memory \<Rightarrow> addr option \<Rightarrow> target_test_server option \<Rightarrow> bool" where
  "server_at m = rel_option (\<lambda>a t. cells m a = Some (Server_object t))"

abbreviation find_conversation_pointer :: "pointer_store \<Rightarrow> string \<rightharpoonup> addr" where
  "find_conversation_pointer s \<equiv> map_of (conversation_pointers s)"

abbreviation find_server_pointer :: "pointer_store \<Rightarrow> string \<rightharpoonup> addr option" where
  "find_server_pointer s \<equiv> map_of (server_pointers s)"

text \<open>The objects a store owns, and the rest of the memory.\<close>

definition owned_by :: "pointer_store \<Rightarrow> 'c memory \<Rightarrow> addr set" where
  "owned_by s m =
     {a. Some a \<in> ran (find_server_pointer s)} \<union> ran (find_conversation_pointer s) \<union>
     (\<Union>a \<in> ran (find_conversation_pointer s). set (queue_at m a))"

definition rest_of :: "pointer_store \<Rightarrow> 'c memory \<Rightarrow> addr \<rightharpoonup> 'c object" where
  "rest_of s m = cells m |` (- owned_by s m)"

text \<open>No pointer is stored twice, and no action is in two queues.\<close>

definition unshared :: "pointer_store \<Rightarrow> 'c memory \<Rightarrow> bool" where
  "unshared s m \<longleftrightarrow>
     (\<forall>k l a. find_conversation_pointer s k = Some a \<and> find_conversation_pointer s l = Some a \<longrightarrow> k = l) \<and>
     (\<forall>k l a. find_server_pointer s k = Some (Some a) \<and> find_server_pointer s l = Some (Some a) \<longrightarrow> k = l) \<and>
     (\<forall>a \<in> ran (find_conversation_pointer s). \<forall>b \<in> ran (find_conversation_pointer s).
        a \<noteq> b \<longrightarrow> set (queue_at m a) \<inter> set (queue_at m b) = {})"

definition store_at ::
  "pointer_store \<times> 'a conversation_memory \<Rightarrow> 'a packet_conversation_scheme store \<Rightarrow> bool" where
  "store_at = (\<lambda>(s, m) v.
     map_ok (server_pointers s) \<and> map_ok (conversation_pointers s) \<and>
     map_ok (test_servers v) \<and> map_ok (conversations v) \<and>
     (\<forall>k. rel_option (server_at m) (find_server_pointer s k) (map_of (test_servers v) k)) \<and>
     (\<forall>k. rel_option (conversation_at m) (find_conversation_pointer s k) (map_of (conversations v) k)) \<and>
     unshared s m \<and> fresh_ok m)"

subsection \<open>Facts about stores in memory\<close>

lemma queue_at_conversation: "cells m a = Some (Conversation_object c q) \<Longrightarrow> queue_at m a = q"
  by (simp add: queue_at_def)

lemma conversation_at_queue:
  assumes "conversation_at m a c"
  shows "cells m a = Some (Conversation_object (c\<lparr>action_queue := []\<rparr>) (queue_at m a))" "distinct (queue_at m a)"
    "map (cells m) (queue_at m a) = map (\<lambda>x. Some (Action_object x)) (action_queue c)"
  using assms by (auto simp: conversation_at_def queue_at_conversation)

lemma conversation_at_action:
  assumes "conversation_at m a c" "b \<in> set (queue_at m a)"
  obtains x where "cells m b = Some (Action_object x)"
proof -
  have "cells m b \<in> set (map (cells m) (queue_at m a))" using assms(2) by simp
  then have "cells m b \<in> set (map (\<lambda>x. Some (Action_object x)) (action_queue c))"
    unfolding conversation_at_queue(3) [OF assms(1)] .
  with that show thesis by auto
qed

lemma read_actions_at:
  "map (cells m) q = map (\<lambda>x. Some (Action_object x)) xs \<Longrightarrow> read_actions q m = Inr xs"
proof (induction q arbitrary: xs)
  case (Cons a q)
  then obtain x ys where "xs = x # ys" "cells m a = Some (Action_object x)"
    "map (cells m) q = map (\<lambda>x. Some (Action_object x)) ys"
    by (cases xs) auto
  with Cons.IH [of ys] show ?case by (simp add: read_object_def)
qed simp

lemma read_conversation_at: "conversation_at m a c \<Longrightarrow> read_conversation a m = Inr c"
  using conversation_at_queue [of m a c] read_actions_at [of m "queue_at m a" "action_queue c"]
  by (simp add: read_conversation_def read_object_def)

lemma store_at_find_conversation:
  "store_at (s, m) v \<Longrightarrow> rel_option (conversation_at m) (find_conversation_pointer s k) (map_of (conversations v) k)"
  by (simp add: store_at_def)

lemma store_at_find_server:
  "store_at (s, m) v \<Longrightarrow> rel_option (server_at m) (find_server_pointer s k) (map_of (test_servers v) k)"
  by (simp add: store_at_def)

lemma store_at_conversation:
  assumes "store_at (s, m) v" "a \<in> ran (find_conversation_pointer s)"
  obtains c where "conversation_at m a c"
proof -
  from assms(2) obtain k where "find_conversation_pointer s k = Some a" by (auto simp: ran_def)
  with store_at_find_conversation [OF assms(1), of k] that show thesis by (auto simp: option_rel_Some1)
qed

lemma store_at_server:
  assumes "store_at (s, m) v" "Some a \<in> ran (find_server_pointer s)"
  obtains t where "cells m a = Some (Server_object t)"
proof -
  from assms(2) obtain k where "find_server_pointer s k = Some (Some a)" by (auto simp: ran_def)
  with store_at_find_server [OF assms(1), of k] that show thesis
    by (auto simp: option_rel_Some1 server_at_def)
qed

text \<open>Every object a store owns is live, and its kind says whether it is a server, a conversation or an action.\<close>

lemma owned_by_cases:
  assumes "store_at (s, m) v" "a \<in> owned_by s m"
  obtains (server) t where "Some a \<in> ran (find_server_pointer s)" "cells m a = Some (Server_object t)"
  | (conversation) c q where "a \<in> ran (find_conversation_pointer s)" "cells m a = Some (Conversation_object c q)"
  | (action) b x where "b \<in> ran (find_conversation_pointer s)" "a \<in> set (queue_at m b)" "cells m a = Some (Action_object x)"
proof -
  from assms(2) consider "Some a \<in> ran (find_server_pointer s)" | "a \<in> ran (find_conversation_pointer s)"
    | b where "b \<in> ran (find_conversation_pointer s)" "a \<in> set (queue_at m b)"
    by (auto simp: owned_by_def)
  then show thesis
  proof cases
    case 1
    with server store_at_server [OF assms(1)] show thesis by blast
  next
    case 2
    then obtain c where "conversation_at m a c" by (rule store_at_conversation [OF assms(1)])
    from conversation 2 conversation_at_queue(1) [OF this] show thesis by blast
  next
    case 3
    with action store_at_conversation [OF assms(1)] conversation_at_action show thesis by metis
  qed
qed

lemma owned_by_allocated: "store_at (s, m) v \<Longrightarrow> owned_by s m \<subseteq> allocated m"
  by (auto simp: allocated_def elim!: owned_by_cases)

text \<open>What happens elsewhere in memory does not concern the store.\<close>

lemma queue_at_cong: "cells m' a = cells m a \<Longrightarrow> queue_at m' a = queue_at m a"
  by (simp add: queue_at_def)

lemma conversation_at_cong:
  assumes "conversation_at m a c" "cells m' a = cells m a" "\<And>b. b \<in> set (queue_at m a) \<Longrightarrow> cells m' b = cells m b"
  shows "conversation_at m' a c"
proof -
  have "map (cells m') (queue_at m a) = map (cells m) (queue_at m a)" using assms(3) by simp
  with conversation_at_queue [OF assms(1)] assms(2) show ?thesis by (auto simp: conversation_at_def)
qed

lemma store_at_elsewhere:
  assumes at: "store_at (s, m) v" and same: "\<And>a. a \<in> owned_by s m \<Longrightarrow> cells m' a = cells m a" and "fresh_ok m'"
  shows "store_at (s, m') v" "owned_by s m' = owned_by s m"
proof -
  have convs: "cells m' a = cells m a" "queue_at m' a = queue_at m a"
    "\<And>b. b \<in> set (queue_at m a) \<Longrightarrow> cells m' b = cells m b" if "a \<in> ran (find_conversation_pointer s)" for a
    using same that queue_at_cong by (auto simp: owned_by_def)
  have servers: "cells m' a = cells m a" if "Some a \<in> ran (find_server_pointer s)" for a
    using same that by (auto simp: owned_by_def)
  show "owned_by s m' = owned_by s m" using convs(2) by (simp add: owned_by_def)
  have "rel_option (conversation_at m') (find_conversation_pointer s k) (map_of (conversations v) k)" for k
  proof (rule option.rel_mono_strong [OF store_at_find_conversation [OF at, of k]])
    fix a c
    assume "a \<in> set_option (find_conversation_pointer s k)" and c: "conversation_at m a c"
    then have "a \<in> ran (find_conversation_pointer s)" by (auto simp: ran_def)
    note a = convs [OF this]
    show "conversation_at m' a c" by (rule conversation_at_cong [OF c a(1,3)])
  qed
  moreover have "rel_option (server_at m') (find_server_pointer s k) (map_of (test_servers v) k)" for k
  proof (rule option.rel_mono_strong [OF store_at_find_server [OF at, of k]])
    fix p t
    assume "p \<in> set_option (find_server_pointer s k)" and t: "server_at m p t"
    then have "p \<in> ran (find_server_pointer s)" by (auto simp: ran_def)
    with servers t show "server_at m' p t" by (cases p) (auto simp: server_at_def option_rel_Some1)
  qed
  moreover have "unshared s m'" using at convs(2) by (simp add: store_at_def unshared_def)
  ultimately show "store_at (s, m') v" using at assms(3) by (simp add: store_at_def)
qed

subsection \<open>The effect of the operations on a store in memory\<close>

text \<open>A conversation is changed in place: its queue gains fresh actions and loses deleted ones.\<close>

definition only_queue_changed :: "addr \<Rightarrow> 'c memory \<Rightarrow> 'c memory \<Rightarrow> bool" where
  "only_queue_changed a m m' \<longleftrightarrow>
     (\<forall>b \<in> set (queue_at m' a). b \<in> set (queue_at m a) \<or> cells m b = None) \<and>
     (\<forall>b. b \<notin> set (queue_at m a) \<and> b \<notin> set (queue_at m' a) \<and> b \<noteq> a \<longrightarrow> cells m' b = cells m b) \<and>
     (\<forall>b \<in> set (queue_at m a). b \<notin> set (queue_at m' a) \<longrightarrow> cells m' b = None)"

lemma unshared_queues:
  "unshared s m \<Longrightarrow> a \<in> ran (find_conversation_pointer s) \<Longrightarrow> b \<in> ran (find_conversation_pointer s) \<Longrightarrow>
    a \<noteq> b \<Longrightarrow> set (queue_at m a) \<inter> set (queue_at m b) = {}"
  unfolding unshared_def by blast

lemma unshared_conversation:
  "unshared s m \<Longrightarrow> find_conversation_pointer s k = Some a \<Longrightarrow> find_conversation_pointer s l = Some a \<Longrightarrow> k = l"
  unfolding unshared_def by blast

lemma changed_elsewhere:
  assumes "only_queue_changed a m m'" "conversation_at m a c"
    and "cells m b = Some x" "\<nexists>y. x = Action_object y" "b \<noteq> a"
  shows "cells m' b = cells m b"
  using assms(1,3-5) conversation_at_action [OF assms(2), of b] unfolding only_queue_changed_def
  by (metis option.distinct(1) option.inject)

lemma changed_other_conversation:
  assumes at: "store_at (s, m) v" and a: "a \<in> ran (find_conversation_pointer s)"
    and ch: "only_queue_changed a m m'" and b: "b \<in> ran (find_conversation_pointer s)" "b \<noteq> a"
  shows "cells m' b = cells m b" "queue_at m' b = queue_at m b"
    "\<And>x. x \<in> set (queue_at m b) \<Longrightarrow> cells m' x = cells m x"
proof -
  obtain c where c: "conversation_at m a c" using a by (rule store_at_conversation [OF at])
  obtain d where d: "conversation_at m b d" using b(1) by (rule store_at_conversation [OF at])
  show cell: "cells m' b = cells m b"
    using changed_elsewhere [OF ch c conversation_at_queue(1) [OF d] _ b(2)] by simp
  then show "queue_at m' b = queue_at m b" by (rule queue_at_cong)
  fix x
  assume x: "x \<in> set (queue_at m b)"
  then obtain y where y: "cells m x = Some (Action_object y)" by (rule conversation_at_action [OF d])
  have "unshared s m" using at by (simp add: store_at_def)
  then have "x \<notin> set (queue_at m a)" using unshared_queues [OF _ a b(1)] b(2) x by blast
  moreover have "x \<noteq> a" using y conversation_at_queue(1) [OF c] by auto
  ultimately show "cells m' x = cells m x" using ch y unfolding only_queue_changed_def by fastforce
qed

lemma changed_unshared:
  assumes at: "store_at (s, m) v" and a: "a \<in> ran (find_conversation_pointer s)"
    and ch: "only_queue_changed a m m'"
  shows "unshared s m'"
proof -
  have unsh: "unshared s m" using at by (simp add: store_at_def)
  note other = changed_other_conversation [OF at a ch]
  have *: "set (queue_at m' a) \<inter> set (queue_at m' b) = {}" if b: "b \<in> ran (find_conversation_pointer s)" "b \<noteq> a" for b
  proof -
    obtain d where d: "conversation_at m b d" using b(1) by (rule store_at_conversation [OF at])
    have "set (queue_at m a) \<inter> set (queue_at m b) = {}" using unshared_queues [OF unsh a b(1)] b(2) by simp
    moreover have "x \<in> set (queue_at m a)" if "x \<in> set (queue_at m' a)" "x \<in> set (queue_at m b)" for x
      using ch that conversation_at_action [OF d that(2)] unfolding only_queue_changed_def by fastforce
    ultimately show ?thesis unfolding other(2) [OF b] by blast
  qed
  have "set (queue_at m' b1) \<inter> set (queue_at m' b2) = {}"
    if "b1 \<in> ran (find_conversation_pointer s)" "b2 \<in> ran (find_conversation_pointer s)" "b1 \<noteq> b2" for b1 b2
  proof (cases "b1 = a \<or> b2 = a")
    case True
    then show ?thesis
    proof
      assume "b1 = a"
      with that(3) * [OF that(2)] show ?thesis by (simp only: not_sym)
    next
      assume "b2 = a"
      with that(3) * [OF that(1)] show ?thesis by (simp add: Int_commute)
    qed
  next
    case False
    then have same: "queue_at m' b1 = queue_at m b1" "queue_at m' b2 = queue_at m b2"
      using other(2) that by blast+
    show ?thesis unfolding same by (rule unshared_queues [OF unsh that])
  qed
  with unsh show ?thesis unfolding unshared_def by blast
qed

lemma changed_rest:
  assumes at: "store_at (s, m) v" and a: "a \<in> ran (find_conversation_pointer s)"
    and ch: "only_queue_changed a m m'"
  shows "rest_of s m' = rest_of s m"
proof -
  let ?ptrs = "ran (find_conversation_pointer s)"
  have queues: "(\<Union>b \<in> ?ptrs. set (queue_at m' b)) = set (queue_at m' a) \<union> (\<Union>b \<in> ?ptrs - {a}. set (queue_at m b))"
  proof -
    have "(\<Union>b \<in> ?ptrs. set (queue_at m' b)) = set (queue_at m' a) \<union> (\<Union>b \<in> ?ptrs - {a}. set (queue_at m' b))"
      using a by blast
    also have "(\<Union>b \<in> ?ptrs - {a}. set (queue_at m' b)) = (\<Union>b \<in> ?ptrs - {a}. set (queue_at m b))"
      using changed_other_conversation(2) [OF at a ch] by simp
    finally show ?thesis .
  qed
  show ?thesis
    using a ch unfolding rest_of_def owned_by_def queues restrict_map_def only_queue_changed_def
    by (intro ext) auto
qed

lemma store_at_update:
  assumes at: "store_at (s, m) v" and k: "find_conversation_pointer s k = Some a"
    and ch: "only_queue_changed a m m'" and conv: "conversation_at m' a c" and fresh: "fresh_ok m'"
  shows "store_at (s, m') (v\<lparr>conversations := map_put k c (conversations v)\<rparr>)" "rest_of s m' = rest_of s m"
proof -
  have a: "a \<in> ran (find_conversation_pointer s)" using k by (rule ranI)
  then obtain c0 where c0: "conversation_at m a c0" by (rule store_at_conversation [OF at])
  have unsh: "unshared s m" using at by (simp add: store_at_def)
  have "rel_option (conversation_at m') (find_conversation_pointer s l) (map_of (conversations v) l)" if "l \<noteq> k" for l
  proof (rule option.rel_mono_strong [OF store_at_find_conversation [OF at, of l]])
    fix b d
    assume "b \<in> set_option (find_conversation_pointer s l)" and d: "conversation_at m b d"
    with that unshared_conversation [OF unsh k] have b: "b \<in> ran (find_conversation_pointer s)" "b \<noteq> a"
      by (auto simp: ran_def)
    note o = changed_other_conversation [OF at a ch b]
    show "conversation_at m' b d" by (rule conversation_at_cong [OF d o(1,3)])
  qed
  with k conv have "rel_option (conversation_at m') (find_conversation_pointer s l)
      (map_of (conversations (v\<lparr>conversations := map_put k c (conversations v)\<rparr>)) l)" for l
    by (cases "l = k") simp_all
  moreover have server: "cells m' b = Some (Server_object t)" if "cells m b = Some (Server_object t)" for b t
  proof -
    have "b \<noteq> a" using that conversation_at_queue(1) [OF c0] by auto
    with changed_elsewhere [OF ch c0 that] that show ?thesis by simp
  qed
  have "rel_option (server_at m') (find_server_pointer s l) (map_of (test_servers v) l)" for l
    using store_at_find_server [OF at, of l] server unfolding server_at_def
    by (elim option.rel_mono_strong) auto
  ultimately show "store_at (s, m') (v\<lparr>conversations := map_put k c (conversations v)\<rparr>)"
    using at fresh changed_unshared [OF at a ch] by (simp add: store_at_def map_ok_map_put)
  show "rest_of s m' = rest_of s m" by (rule changed_rest [OF at a ch])
qed

text \<open>A new conversation, and a new server.\<close>

lemma ran_map_of_map_put:
  "ran (map_of (map_put k a xs)) = insert a (ran ((map_of xs)(k := None)))"
  by (auto simp: ran_def split: if_splits)

lemma store_at_new_conversation:
  assumes at: "store_at (s, m) v" and k: "find_conversation_pointer s k = None" and c: "action_queue c = []"
    and new: "new_object (Conversation_object c []) m = (a, m')"
    and s': "s' = s\<lparr>conversation_pointers := map_put k a (conversation_pointers s)\<rparr>"
  shows "store_at (s', m') (v\<lparr>conversations := map_put k c (conversations v)\<rparr>)" "rest_of s' m' = rest_of s m"
    "find_conversation_pointer s' k = Some a"
proof -
  have fresh: "fresh_ok m" using at by (simp add: store_at_def)
  note n = new_object_facts [OF new fresh]
  have unowned: "a \<notin> owned_by s m" using owned_by_allocated [OF at] n(3) by (auto simp: allocated_def)
  have same: "cells m' b = cells m b" if "b \<in> owned_by s m" for b using that unowned n(2) by auto
  note at' = store_at_elsewhere [OF at same n(4)]
  have a: "cells m' a = Some (Conversation_object c [])" "queue_at m' a = []"
    using n(2) by (simp_all add: queue_at_conversation)
  then have conv: "conversation_at m' a c" using c by (simp add: conversation_at_def)
  have find: "find_conversation_pointer s' = (find_conversation_pointer s)(k \<mapsto> a)"
    "find_server_pointer s' = find_server_pointer s"
    by (simp_all add: s')
  have ran: "ran (find_conversation_pointer s') = insert a (ran (find_conversation_pointer s))"
    using k by (simp add: find)
  have notin: "a \<notin> ran (find_conversation_pointer s)" using unowned by (simp add: owned_by_def)
  have "unshared s m'" using at'(1) by (simp add: store_at_def)
  then have "unshared s' m'"
    unfolding unshared_def find(2) ran using notin a(2) by (auto simp: find(1) ran_def)
  moreover have "rel_option (conversation_at m') (find_conversation_pointer s' l)
      (map_of (map_put k c (conversations v)) l)" for l
    using store_at_find_conversation [OF at'(1), of l] conv by (simp add: find)
  ultimately show "store_at (s', m') (v\<lparr>conversations := map_put k c (conversations v)\<rparr>)"
    using at'(1) by (simp add: store_at_def s' map_ok_map_put)
  have "owned_by s' m' = insert a (owned_by s m)"
    using at'(2) a(2) unfolding owned_by_def ran find(2) by auto
  then show "rest_of s' m' = rest_of s m"
    using n(2,3) by (auto simp: rest_of_def restrict_map_def fun_eq_iff)
  show "find_conversation_pointer s' k = Some a" by (simp add: find)
qed

text \<open>
  A specification whose key is taken replaces the pointer to its server; the server object stays
  in memory, owned by nobody.
\<close>

definition replaced_server :: "pointer_store \<Rightarrow> string \<Rightarrow> addr set" where
  "replaced_server s k = {a. find_server_pointer s k = Some (Some a)}"

lemma new_server_facts:
  assumes "new_server t m = (p, m')" "fresh_ok m"
  shows "fresh_ok m'" "server_at m' p t" "\<And>a. p = Some a \<Longrightarrow> cells m a = None"
    "\<And>b. p \<noteq> Some b \<Longrightarrow> cells m' b = cells m b"
proof -
  have "fresh_ok m' \<and> server_at m' p t \<and> (\<forall>a. p = Some a \<longrightarrow> cells m a = None) \<and>
      (\<forall>b. p \<noteq> Some b \<longrightarrow> cells m' b = cells m b)"
  proof (cases t)
    case None
    with assms show ?thesis by (simp add: server_at_def)
  next
    case (Some x)
    obtain a m1 where n: "new_object (Server_object x) m = (a, m1)" by fastforce
    with Some assms(1) have "p = Some a" "m' = m1" by simp_all
    with new_object_facts [OF n assms(2)] Some show ?thesis by (simp add: server_at_def)
  qed
  then show "fresh_ok m'" "server_at m' p t" "\<And>a. p = Some a \<Longrightarrow> cells m a = None"
    "\<And>b. p \<noteq> Some b \<Longrightarrow> cells m' b = cells m b" by simp_all
qed

lemma replaced_server_elsewhere:
  assumes at: "store_at (s, m) v" and a: "a \<in> replaced_server s k"
  shows "a \<notin> ran (find_conversation_pointer s)" "b \<in> ran (find_conversation_pointer s) \<Longrightarrow> a \<notin> set (queue_at m b)"
proof -
  from a have "Some a \<in> ran (find_server_pointer s)" by (auto simp: replaced_server_def intro: ranI)
  then obtain t where t: "cells m a = Some (Server_object t)" by (rule store_at_server [OF at])
  show "a \<notin> ran (find_conversation_pointer s)"
    using t store_at_conversation [OF at] conversation_at_queue(1) by (metis object.distinct(11) option.inject)
  show "a \<notin> set (queue_at m b)" if b: "b \<in> ran (find_conversation_pointer s)"
    using t store_at_conversation [OF at b] conversation_at_action [of m b _ a]
    by (metis object.distinct(7) option.inject)
qed

lemma store_at_new_server:
  assumes at: "store_at (s, m) v" and new: "new_server t m = (p, m')"
    and s': "s' = s\<lparr>server_pointers := map_put k p (server_pointers s)\<rparr>"
  shows "store_at (s', m') (v\<lparr>test_servers := map_put k t (test_servers v)\<rparr>)"
    "rest_of s' m' = cells m |` (- (owned_by s m - replaced_server s k))"
proof -
  have fresh: "fresh_ok m" using at by (simp add: store_at_def)
  note m' = new_server_facts [OF new fresh]
  have same: "cells m' b = cells m b" if "b \<in> owned_by s m" for b
  proof -
    have "p \<noteq> Some b" using that owned_by_allocated [OF at] m'(3) by (auto simp: allocated_def)
    then show ?thesis by (rule m'(4))
  qed
  note at' = store_at_elsewhere [OF at same m'(1)]
  have find: "find_server_pointer s' = (find_server_pointer s)(k \<mapsto> p)"
    "find_conversation_pointer s' = find_conversation_pointer s"
    by (simp_all add: s')
  have unowned: "a \<notin> owned_by s m" if "p = Some a" for a
    using owned_by_allocated [OF at] m'(3) [OF that] by (auto simp: allocated_def)
  have unsh: "unshared s m'" using at'(1) by (simp add: store_at_def)
  have "find_server_pointer s l \<noteq> Some (Some a)" if "p = Some a" for l a
    using unowned [OF that] by (auto simp: owned_by_def intro: ranI)
  then have "unshared s' m'"
    using unsh unfolding unshared_def find by (simp add: fun_upd_def) metis
  moreover have "rel_option (server_at m') (find_server_pointer s' l) (map_of (map_put k t (test_servers v)) l)" for l
    using store_at_find_server [OF at'(1), of l] m'(2) by (simp add: find)
  ultimately show "store_at (s', m') (v\<lparr>test_servers := map_put k t (test_servers v)\<rparr>)"
    using at'(1) by (simp add: store_at_def s' map_ok_map_put)
  have "owned_by s' m' = {a. p = Some a} \<union> (owned_by s m - replaced_server s k)"
  proof -
    have "{a. Some a \<in> ran (find_server_pointer s')} =
        {a. p = Some a} \<union> ({a. Some a \<in> ran (find_server_pointer s)} - replaced_server s k)"
      using unsh unfolding unshared_def replaced_server_def find ran_def by (auto split: if_splits)
    moreover have "replaced_server s k \<inter> ran (find_conversation_pointer s) = {}"
      and "replaced_server s k \<inter> (\<Union>a \<in> ran (find_conversation_pointer s). set (queue_at m a)) = {}"
      using replaced_server_elsewhere [OF at] by blast+
    moreover have "queue_at m' a = queue_at m a" if "a \<in> ran (find_conversation_pointer s)" for a
      using same [of a] that by (intro queue_at_cong) (simp add: owned_by_def)
    ultimately show ?thesis unfolding owned_by_def find(2) by auto
  qed
  then show "rest_of s' m' = cells m |` (- (owned_by s m - replaced_server s k))"
    unfolding rest_of_def using m'(3,4) by (auto simp: restrict_map_def fun_eq_iff)
qed

section \<open>Simulation\<close>

text \<open>
  An operation of the store in memory fails as its value counterpart does, or leads to a store that
  stands for its result, with the rest of the memory unchanged.
\<close>

definition stands_for ::
  "(addr \<rightharpoonup> 'a packet_conversation_scheme object) \<Rightarrow> pointer_store \<times> 'a conversation_memory \<Rightarrow>
    'a packet_conversation_scheme store \<Rightarrow> bool" where
  "stands_for others = (\<lambda>(s, m) v. store_at (s, m) v \<and> rest_of s m = others)"

lemma stands_for_iff: "stands_for others (s, m) v \<longleftrightarrow> store_at (s, m) v \<and> rest_of s m = others"
  by (simp add: stands_for_def)

lemma stands_for_new [simp]: "stands_for Map.empty (new_pointer_store, no_memory) new_store"
  by (simp add: stands_for_def store_at_def new_pointer_store_def new_store_def unshared_def rest_of_def
      restrict_map_def fun_eq_iff)

lemma find_server_same:
  assumes "store_at (s, m) v"
  shows "fst (find_server (server_pointers s) ks) = fst (find_server (test_servers v) ks)"
    "server_at m (snd (find_server (server_pointers s) ks)) (snd (find_server (test_servers v) ks))"
proof -
  have "fst (find_server (server_pointers s) ks) = fst (find_server (test_servers v) ks) \<and>
    server_at m (snd (find_server (server_pointers s) ks)) (snd (find_server (test_servers v) ks))"
  proof (induction ks)
    case Nil
    then show ?case by (simp add: server_at_def)
  next
    case (Cons k ks)
    with store_at_find_server [OF assms, of k] show ?case
      by (cases "find_server_pointer s k") (auto simp: option_rel_Some1)
  qed
  then show "fst (find_server (server_pointers s) ks) = fst (find_server (test_servers v) ks)"
    "server_at m (snd (find_server (server_pointers s) ks)) (snd (find_server (test_servers v) ks))"
    by simp_all
qed

lemma read_server_at: "server_at m p t \<Longrightarrow> read_server p m = Inr t"
  by (cases p; cases t) (simp_all add: server_at_def read_object_def)

lemma rel_option_empty:
  assumes "\<And>k. rel_option R (f k) (g k)"
  shows "f = Map.empty \<longleftrightarrow> g = Map.empty"
proof -
  have "f k = None \<longleftrightarrow> g k = None" for k using assms [of k] by (cases "f k"; cases "g k") simp_all
  then show ?thesis by (simp add: fun_eq_iff)
qed

lemma store_at_empty:
  assumes "store_at (s, m) v"
  shows "server_pointers s = [] \<longleftrightarrow> test_servers v = []" "conversation_pointers s = [] \<longleftrightarrow> conversations v = []"
proof -
  have "find_server_pointer s = Map.empty \<longleftrightarrow> map_of (test_servers v) = Map.empty"
    by (rule rel_option_empty) (rule store_at_find_server [OF assms])
  then show "server_pointers s = [] \<longleftrightarrow> test_servers v = []" by simp
  have "find_conversation_pointer s = Map.empty \<longleftrightarrow> map_of (conversations v) = Map.empty"
    by (rule rel_option_empty) (rule store_at_find_conversation [OF assms])
  then show "conversation_pointers s = [] \<longleftrightarrow> conversations v = []" by simp
qed

definition found_for ::
  "(addr \<rightharpoonup> 'a packet_conversation_scheme object) \<Rightarrow> addr option \<times> pointer_store \<times> 'a conversation_memory \<Rightarrow>
    string option \<times> 'a packet_conversation_scheme store \<Rightarrow> bool" where
  "found_for others = (\<lambda>(r, s, m) (r', v).
     stands_for others (s, m) v \<and> rel_option (\<lambda>a k. find_conversation_pointer s k = Some a) r r')"

text \<open>
  What the store needs of a conversation class: a new conversation has no actions, and processing
  a packet only appends actions.
\<close>

locale appending_recorder =
  fixes factory :: "'a packet_conversation_scheme factory"
    and process :: "transport_packet \<Rightarrow> 'a packet_conversation_scheme \<Rightarrow> 'a packet_conversation_scheme result"
  assumes create_empty: "createConversation factory p t = Inr c \<Longrightarrow> action_queue c = []"
    and process_appends: "process p c = Inr c' \<Longrightarrow> \<exists>as. action_queue c' = action_queue c @ as"
begin

lemma create_same:
  assumes "stands_for others (s, m) v" "find_conversation_pointer s k = None"
  shows "same_outcome (found_for others)
    (bind (createConversation factory p t) (\<lambda>c.
       case new_object (Conversation_object c []) m of (a, m1) \<Rightarrow>
         Inr (Some a, s\<lparr>conversation_pointers := map_put k a (conversation_pointers s)\<rparr>, m1)))
    (bind (createConversation factory p t) (\<lambda>c.
       Inr (Some k, v\<lparr>conversations := map_put k c (conversations v)\<rparr>)))"
proof (rule same_outcome_refl_bind)
  fix c
  assume c: "createConversation factory p t = Inr c"
  have at: "store_at (s, m) v" "rest_of s m = others" using assms(1) by (simp_all add: stands_for_iff)
  obtain a m1 where new: "new_object (Conversation_object c []) m = (a, m1)" by fastforce
  note n = store_at_new_conversation [OF at(1) assms(2) create_empty [OF c] new refl]
  show "same_outcome (found_for others)
    (case new_object (Conversation_object c []) m of (a, m1) \<Rightarrow>
         Inr (Some a, s\<lparr>conversation_pointers := map_put k a (conversation_pointers s)\<rparr>, m1))
    (Inr (Some k, v\<lparr>conversations := map_put k c (conversations v)\<rparr>))"
    using n at(2) new by (simp add: stands_for_iff found_for_def)
qed

lemma getConversation_same:
  assumes "stands_for others (s, m) v"
  shows "same_outcome (found_for others) (getConversation_pointer factory p s m) (getConversation factory p v)"
  unfolding getConversation_pointer_def getConversation_def
proof (rule same_outcome_refl_bind)
  fix k
  have at: "store_at (s, m) v" using assms by (simp add: stands_for_iff)
  note find = store_at_find_conversation [OF at, of k]
  show "same_outcome (found_for others)
    (case find_conversation_pointer s k of
       Some a \<Rightarrow> Inr (Some a, s, m)
     | None \<Rightarrow> bind (getTargetTestServerKeys factory p) (\<lambda>configured_keys.
         case find_server (server_pointers s) configured_keys of (is_configured, test_server) \<Rightarrow>
           if is_configured \<or> (server_pointers s = [] \<and> conversation_pointers s = []) then
             bind (read_server test_server m) (\<lambda>t. bind (createConversation factory p t) (\<lambda>c.
               case new_object (Conversation_object c []) m of (a, m1) \<Rightarrow>
                 Inr (Some a, s\<lparr>conversation_pointers := map_put k a (conversation_pointers s)\<rparr>, m1)))
           else Inr (None, s, m)))
    (if map_contains (conversations v) k then Inr (Some k, v)
     else bind (getTargetTestServerKeys factory p) (\<lambda>configured_keys.
       case find_server (test_servers v) configured_keys of (is_configured, test_server) \<Rightarrow>
         if is_configured \<or> (test_servers v = [] \<and> conversations v = []) then
           bind (createConversation factory p test_server) (\<lambda>c.
             Inr (Some k, v\<lparr>conversations := map_put k c (conversations v)\<rparr>))
         else Inr (None, v)))"
  proof (cases "find_conversation_pointer s k")
    case (Some a)
    with find have "map_contains (conversations v) k" by (auto simp: map_contains_def option_rel_Some1)
    with Some assms show ?thesis by (simp add: found_for_def)
  next
    case None
    with find have "\<not> map_contains (conversations v) k" by (simp add: map_contains_def)
    moreover have "read_server (snd (find_server (server_pointers s) ks)) m = Inr (snd (find_server (test_servers v) ks))"
      and "fst (find_server (server_pointers s) ks) = fst (find_server (test_servers v) ks)" for ks
      using find_server_same [OF at] by (simp_all add: read_server_at)
    moreover have "found_for others (None, s, m) (None, v)" using assms by (simp add: found_for_def)
    ultimately show ?thesis
      using None create_same [OF assms None] store_at_empty [OF at]
      by (auto simp: case_prod_beta intro!: same_outcome_refl_bind)
  qed
qed

end

lemma push_new_actions_fresh:
  assumes "push_new_actions xs q m = (q', m')" "fresh_ok m"
  obtains new where "q' = q @ new" "map (cells m') new = map (\<lambda>x. Some (Action_object x)) xs" "distinct new"
    "\<forall>b \<in> set new. cells m b = None" "\<forall>b. b \<notin> set new \<longrightarrow> cells m' b = cells m b" "fresh_ok m'"
  using assms
proof (induction xs arbitrary: q m thesis)
  case Nil
  then show ?case by simp
next
  case (Cons x xs)
  obtain a m1 where a: "new_object (Action_object x) m = (a, m1)" by fastforce
  note n = new_object_facts [OF a Cons.prems(3)]
  have "push_new_actions xs (q @ [a]) m1 = (q', m')" using Cons.prems(2) a by simp
  then obtain new where new: "q' = (q @ [a]) @ new" "map (cells m') new = map (\<lambda>x. Some (Action_object x)) xs"
    "distinct new" "\<forall>b \<in> set new. cells m1 b = None" "\<forall>b. b \<notin> set new \<longrightarrow> cells m' b = cells m1 b"
    "fresh_ok m'"
    using n(4) by (rule Cons.IH [rotated])
  have a: "a \<notin> set new" using new(4) n(2) by auto
  have "cells m b = None" if "b \<in> set (a # new)" for b
    using that new(4) n(2,3) by (cases "b = a") auto
  moreover have "cells m' b = cells m b" if "b \<notin> set (a # new)" for b
    using that new(5) n(2) by simp
  moreover have "cells m' a = Some (Action_object x)" using a new(5) n(2) by simp
  ultimately show ?case
    using new(1-3,6) a by (intro Cons.prems(1) [of "a # new"]) simp_all
qed

text \<open>Appending new actions to the queue of a stored conversation.\<close>

lemma store_at_appended:
  assumes at: "store_at (s, m) v" and k: "find_conversation_pointer s k = Some a" and conv: "conversation_at m a c"
    and push: "push_new_actions xs (queue_at m a) m = (q', m1)" and c': "action_queue c' = action_queue c @ xs"
  shows "store_at (s, update_object a (Conversation_object (c'\<lparr>action_queue := []\<rparr>) q') m1)
      (v\<lparr>conversations := map_put k c' (conversations v)\<rparr>)"
    "rest_of s (update_object a (Conversation_object (c'\<lparr>action_queue := []\<rparr>) q') m1) = rest_of s m"
proof -
  let ?q = "queue_at m a" and ?m = "update_object a (Conversation_object (c'\<lparr>action_queue := []\<rparr>) q') m1"
  note conv_q = conversation_at_queue [OF conv]
  have "fresh_ok m" using at by (simp add: store_at_def)
  then obtain new where new: "q' = ?q @ new" "map (cells m1) new = map (\<lambda>x. Some (Action_object x)) xs"
    "distinct new" "\<forall>b \<in> set new. cells m b = None" "\<forall>b. b \<notin> set new \<longrightarrow> cells m1 b = cells m b" "fresh_ok m1"
    by (rule push_new_actions_fresh [OF push])
  have a: "a \<notin> set new" using new(4) conv_q(1) by auto
  then have a1: "cells m1 a = cells m a" using new(5) by blast
  have a_q: "a \<notin> set ?q" using conv_q(1) conversation_at_action [OF conv, of a] by auto
  have cells: "cells ?m a = Some (Conversation_object (c'\<lparr>action_queue := []\<rparr>) q')"
    "\<And>b. b \<noteq> a \<Longrightarrow> cells ?m b = cells m1 b"
    by (simp_all add: update_object_def)
  have old: "b \<notin> set new" "cells m1 b = cells m b" if b: "b \<in> set ?q" for b
  proof -
    obtain x where "cells m b = Some (Action_object x)" using b by (rule conversation_at_action [OF conv])
    with new(4) show "b \<notin> set new" by auto
    with new(5) show "cells m1 b = cells m b" by blast
  qed
  have "cells ?m b = cells m b" if "b \<in> set ?q" for b
    using that a_q cells(2) [of b] old(2) by metis
  then have "map (cells ?m) ?q = map (cells m) ?q" by (intro map_cong refl)
  moreover have "map (cells ?m) new = map (cells m1) new"
    using a cells(2) by (intro map_cong refl) metis
  ultimately have "conversation_at ?m a c'"
    using cells(1) new(1-3) old(1) conv_q(2,3) c' by (auto simp: conversation_at_def)
  moreover have "only_queue_changed a m ?m"
    using queue_at_conversation [OF cells(1)] new(1,4,5) cells(2) by (auto simp: only_queue_changed_def)
  moreover have "fresh_ok ?m"
    using new(6) a1 conv_q(1) by (auto simp: fresh_ok_def allocated_def update_object_def)
  ultimately show "store_at (s, ?m) (v\<lparr>conversations := map_put k c' (conversations v)\<rparr>)" "rest_of s ?m = rest_of s m"
    using store_at_update [OF at k] by blast+
qed

text \<open>Popping the first action of a stored conversation.\<close>

lemma store_at_popped:
  assumes at: "store_at (s, m) v" and k: "find_conversation_pointer s k = Some a" and conv: "conversation_at m a c"
    and q: "queue_at m a = b # q" and as: "action_queue c = x # xs"
  defines "m' \<equiv> update_object a (Conversation_object (c\<lparr>action_queue := []\<rparr>) q) (m\<lparr>cells := (cells m)(b := None)\<rparr>)"
  shows "store_at (s, m') (v\<lparr>conversations := map_put k (c\<lparr>action_queue := xs\<rparr>) (conversations v)\<rparr>)"
    "rest_of s m' = rest_of s m"
proof -
  note conv_q = conversation_at_queue [OF conv]
  have fresh: "fresh_ok m" using at by (simp add: store_at_def)
  have ab: "a \<notin> set (b # q)" using conv_q(1) conversation_at_action [OF conv, of a] unfolding q by auto
  have cells: "cells m' a = Some (Conversation_object (c\<lparr>action_queue := []\<rparr>) q)" "cells m' b = None"
    "\<And>d. d \<noteq> a \<Longrightarrow> d \<noteq> b \<Longrightarrow> cells m' d = cells m d"
    using ab by (simp_all add: m'_def update_object_def)
  have "map (cells m') q = map (cells m) q" using ab conv_q(2) unfolding q by (intro map_cong refl cells(3)) auto
  moreover have "map (cells m) q = map (\<lambda>x. Some (Action_object x)) xs" using conv_q(3) unfolding q as by simp
  ultimately have "conversation_at m' a (c\<lparr>action_queue := xs\<rparr>)"
    using cells(1) conv_q(2) unfolding q conversation_at_def by (intro exI [of _ q]) simp
  moreover have "only_queue_changed a m m'"
    using queue_at_conversation [OF cells(1)] q cells by (auto simp: only_queue_changed_def)
  moreover have "fresh_ok m'"
    using fresh conv_q(1) by (auto simp: m'_def fresh_ok_def allocated_def update_object_def)
  ultimately show "store_at (s, m') (v\<lparr>conversations := map_put k (c\<lparr>action_queue := xs\<rparr>) (conversations v)\<rparr>)"
    "rest_of s m' = rest_of s m"
    using store_at_update [OF at k] by blast+
qed

lemma actionPop_same:
  assumes at: "stands_for others (s, m) v" and k: "find_conversation_pointer s k = Some a"
    and c: "map_of (conversations v) k = Some c"
  shows "same_outcome (\<lambda>m' c'. stands_for others (s, m') (v\<lparr>conversations := map_put k c' (conversations v)\<rparr>))
    (actionPop_pointer a m) (actionPop c)" "actionFront_pointer a m = actionFront c"
proof -
  have st: "store_at (s, m) v" "rest_of s m = others" using at by (simp_all add: stands_for_iff)
  have conv: "conversation_at m a c" using store_at_find_conversation [OF st(1), of k] k c by simp
  note conv_q = conversation_at_queue [OF conv]
  have read: "read_object as_conversation a m = Inr (c\<lparr>action_queue := []\<rparr>, queue_at m a)"
    using conv_q(1) by (simp add: read_object_def)
  have "same_outcome (\<lambda>m' c'. stands_for others (s, m') (v\<lparr>conversations := map_put k c' (conversations v)\<rparr>))
    (actionPop_pointer a m) (actionPop c) \<and> actionFront_pointer a m = actionFront c"
  proof (cases "queue_at m a")
    case Nil
    with conv_q(3) have "action_queue c = []" by simp
    with Nil read show ?thesis
      by (simp add: actionPop_pointer_def actionPop_def actionFront_pointer_def actionFront_def)
  next
    case (Cons b q)
    with conv_q(3) obtain x xs where x: "action_queue c = x # xs" "cells m b = Some (Action_object x)"
      by (cases "action_queue c") auto
    from store_at_popped [OF st(1) k conv Cons x(1)] st(2) have
      "stands_for others (s, update_object a (Conversation_object (c\<lparr>action_queue := []\<rparr>) q) (m\<lparr>cells := (cells m)(b := None)\<rparr>))
        (v\<lparr>conversations := map_put k (c\<lparr>action_queue := xs\<rparr>) (conversations v)\<rparr>)"
      by (simp add: stands_for_iff)
    with Cons x read show ?thesis
      by (simp add: actionPop_pointer_def actionPop_def actionFront_pointer_def actionFront_def
          delete_object_def read_object_def)
  qed
  then show "same_outcome (\<lambda>m' c'. stands_for others (s, m') (v\<lparr>conversations := map_put k c' (conversations v)\<rparr>))
    (actionPop_pointer a m) (actionPop c)" "actionFront_pointer a m = actionFront c" by simp_all
qed

text \<open>The layers of a packet come and go beside the store.\<close>

lemma stands_for_packet:
  assumes at: "stands_for others (s, m) v" and pkt: "packet_at m m1 pkt p"
  shows "stands_for (rest_of s m1) (s, m1) v" "rest_of s m1 |` (- {a. Some a \<in> set pkt}) = others"
    "\<And>a. Some a \<in> set pkt \<Longrightarrow> rest_of s m1 a \<noteq> None"
proof -
  have st: "store_at (s, m) v" "rest_of s m = others" using at by (simp_all add: stands_for_iff)
  have m: "cells m = cells m1 |` (- {a. Some a \<in> set pkt})" "fresh_ok m1" using pkt by (simp_all add: packet_at_def)
  have owned: "a \<in> allocated m" if "a \<in> owned_by s m" for a using owned_by_allocated [OF st(1)] that by blast
  have "cells m1 a = cells m a" if "a \<in> owned_by s m" for a
    using owned [OF that] m(1) by (auto simp: allocated_def restrict_map_def split: if_splits)
  note same = store_at_elsewhere [OF st(1) this m(2)]
  show "stands_for (rest_of s m1) (s, m1) v" using same(1) by (simp add: stands_for_iff)
  show "rest_of s m1 |` (- {a. Some a \<in> set pkt}) = others"
    unfolding st(2) [symmetric] rest_of_def m(1) by (simp add: same(2) Int_commute)
  fix a
  assume a: "Some a \<in> set pkt"
  with packet_at_allocated [OF pkt] obtain l where "cells m1 a = Some (Layer_object l)" by blast
  moreover have "a \<notin> owned_by s m1"
    using owned [of a] a m(1) same(2) by (auto simp: allocated_def restrict_map_def)
  ultimately show "rest_of s m1 a \<noteq> None" by (simp add: rest_of_def)
qed

lemma stands_for_destroyed:
  assumes at: "stands_for others (s, m) v" and pkt: "distinct (live_pointers pkt)"
    and live: "\<And>a. Some a \<in> set pkt \<Longrightarrow> others a \<noteq> None"
  shows "\<exists>m'. destroy_packet pkt m = Inr m' \<and> stands_for (others |` (- {a. Some a \<in> set pkt})) (s, m') v"
proof -
  let ?L = "{a. Some a \<in> set pkt}" and ?m = "m\<lparr>cells := cells m |` (- {a. Some a \<in> set pkt})\<rparr>"
  have st: "store_at (s, m) v" "rest_of s m = others" "fresh_ok m" using at by (simp_all add: stands_for_iff store_at_def)
  have out: "a \<notin> owned_by s m \<and> cells m a \<noteq> None" if "a \<in> ?L" for a
    using live [of a] that st(2) by (auto simp: rest_of_def restrict_map_def split: if_splits)
  then have "destroy_packet pkt m = Inr ?m"
    by (intro destroy_packet_live pkt) (auto simp: allocated_def)
  moreover have "cells ?m a = cells m a" if "a \<in> owned_by s m" for a
    using out [of a] that by (auto simp: restrict_map_def)
  moreover have "fresh_ok ?m" using st(3) by (auto simp: fresh_ok_def allocated_def restrict_map_def split: if_splits)
  ultimately show ?thesis
    using store_at_elsewhere [OF st(1), of ?m] st(2)
    by (auto simp: stands_for_iff rest_of_def Int_commute)
qed

context appending_recorder
begin

lemma process_same:
  assumes at: "stands_for others (s, m) v" and k: "find_conversation_pointer s k = Some a"
    and c: "map_of (conversations v) k = Some c"
  shows "same_outcome (\<lambda>m' c'. stands_for others (s, m') (v\<lparr>conversations := map_put k c' (conversations v)\<rparr>))
    (process_pointer process p a m) (process p c)"
proof -
  have st: "store_at (s, m) v" "rest_of s m = others" using at by (simp_all add: stands_for_iff)
  have conv: "conversation_at m a c" using store_at_find_conversation [OF st(1), of k] k c by simp
  have read: "read_object as_conversation a m = Inr (c\<lparr>action_queue := []\<rparr>, queue_at m a)" "read_conversation a m = Inr c"
    using conversation_at_queue(1) [OF conv] read_conversation_at [OF conv] by (simp_all add: read_object_def)
  have len: "length (queue_at m a) = length (action_queue c)"
    using conversation_at_queue(3) [OF conv] by (metis length_map)
  have "stands_for others (s, update_object a (Conversation_object (c'\<lparr>action_queue := []\<rparr>) q') m1)
      (v\<lparr>conversations := map_put k c' (conversations v)\<rparr>)"
    if c': "process p c = Inr c'"
      and push: "push_new_actions (drop (length (queue_at m a)) (action_queue c')) (queue_at m a) m = (q', m1)" for c' q' m1
  proof -
    obtain xs where xs: "action_queue c' = action_queue c @ xs" using process_appends [OF c'] by blast
    with push len have "push_new_actions xs (queue_at m a) m = (q', m1)" by simp
    from store_at_appended [OF st(1) k conv this xs] st(2) show ?thesis by (simp add: stands_for_iff)
  qed
  then show ?thesis
    using read by (cases "process p c") (auto simp: process_pointer_def split: prod.split)
qed

lemma store_packet_same:
  assumes "stands_for others (s, m) v"
  shows "same_outcome (stands_for others) (store_packet_pointer factory process p s m) (store_packet factory process p v)"
  unfolding store_packet_pointer_def store_packet_def
proof (rule same_outcome_bind [OF getConversation_same [OF assms]])
  fix r r'
  assume "found_for others r r'"
  then obtain x s1 m1 y v1 where r: "r = (x, s1, m1)" "r' = (y, v1)" "stands_for others (s1, m1) v1"
    "rel_option (\<lambda>a k. find_conversation_pointer s1 k = Some a) x y"
    by (auto simp: found_for_def split: prod.splits)
  show "same_outcome (stands_for others)
      (case r of (conversation, s1, m1) \<Rightarrow> (case conversation of None \<Rightarrow> Inr (s1, m1)
         | Some a \<Rightarrow> bind (process_pointer process p a m1) (\<lambda>m2. Inr (s1, m2))))
      (case r' of (conv, s') \<Rightarrow> (case conv of None \<Rightarrow> Inr s'
         | Some k \<Rightarrow> (case map_of (conversations s') k of None \<Rightarrow> Inl (Undefined_behaviour Null_dereference)
           | Some c \<Rightarrow> bind (process p c) (\<lambda>c'. Inr (s'\<lparr>conversations := map_put k c' (conversations s')\<rparr>)))))"
  proof (cases x)
    case None
    with r show ?thesis by simp
  next
    case (Some a)
    with r(4) obtain k where k: "y = Some k" "find_conversation_pointer s1 k = Some a" by (auto simp: option_rel_Some1)
    have "store_at (s1, m1) v1" using r(3) by (simp add: stands_for_iff)
    with store_at_find_conversation [of s1 m1 v1 k] k(2) obtain c where c: "map_of (conversations v1) k = Some c"
      by (auto simp: option_rel_Some1)
    show ?thesis
      using Some r(1,2) k(1) c by (simp add: same_outcome_bind [OF process_same [OF r(3) k(2) c]])
  qed
qed

lemma packetHandler_tail:
  assumes at: "stands_for others (s, m) v" and d: "dissected_at m (complete, pkt, m1) r"
  shows "same_outcome (stands_for others)
    (bind (if complete then bind (read_packet pkt m1) (\<lambda>packet. store_packet_pointer factory process packet s m1)
           else Inr (s, m1)) (\<lambda>(s1, m2). bind (destroy_packet pkt m2) (\<lambda>m3. Inr (s1, m3))))
    (bind (case r of None \<Rightarrow> Inr v | Some packet \<Rightarrow> store_packet factory process packet v) Inr)"
proof (rule same_outcome_bind)
  from d obtain p where p: "packet_at m m1 pkt p" "if complete then r = Some p else r = None"
    by (cases complete; cases r) (auto simp: dissected_at_def)
  note s1 = stands_for_packet [OF at p(1)]
  show "same_outcome (stands_for (rest_of s m1))
    (if complete then bind (read_packet pkt m1) (\<lambda>packet. store_packet_pointer factory process packet s m1)
     else Inr (s, m1))
    (case r of None \<Rightarrow> Inr v | Some packet \<Rightarrow> store_packet factory process packet v)"
    using p(2) s1(1) read_packet_at [OF p(1)] store_packet_same [OF s1(1)] by (auto split: if_splits)
  fix u v1
  assume u: "stands_for (rest_of s m1) u v1"
  obtain s1 m2 where u_eq: "u = (s1, m2)" by fastforce
  have "distinct (live_pointers pkt)" using p(1) by (simp add: packet_at_def)
  then obtain m3 where "destroy_packet pkt m2 = Inr m3" "stands_for others (s1, m3) v1"
    using stands_for_destroyed [OF u [unfolded u_eq] _ s1(3)] s1(2) by auto
  then show "same_outcome (stands_for others)
      (case u of (s1, m2) \<Rightarrow> bind (destroy_packet pkt m2) (\<lambda>m3. Inr (s1, m3))) (Inr v1)"
    by (simp add: u_eq)
qed

lemma packetHandler_same:
  assumes "stands_for others (s, m) v"
  shows "same_outcome (\<lambda>u cap. stands_for others u (conversation_store cap) \<and> datalink_type cap = link)
    (packetHandler_pointer factory process link frame (s, m))
    (packetHandler factory process frame \<lparr>conversation_store = v, datalink_type = link\<rparr>)"
proof -
  let ?R = "\<lambda>u cap. stands_for others u (conversation_store cap) \<and> datalink_type cap = link"
  have "fresh_ok m" using assms by (simp add: stands_for_iff store_at_def)
  note d = dissect_same [OF this, of link "fst frame" "snd frame"]
  have handler: "packetHandler factory process frame \<lparr>conversation_store = v, datalink_type = link\<rparr> =
      bind (dissect link (fst frame) (snd frame)) (\<lambda>r.
        bind (bind (case r of None \<Rightarrow> Inr v | Some packet \<Rightarrow> store_packet factory process packet v) Inr)
          (\<lambda>s. Inr \<lparr>conversation_store = s, datalink_type = link\<rparr>))"
    by (auto simp: packetHandler_def bind_def split: sum.split option.split)
  have widen: "same_outcome ?R x (bind y (\<lambda>s. Inr \<lparr>conversation_store = s, datalink_type = link\<rparr>))"
    if "same_outcome (stands_for others) x y" for x y
    using that by (cases x; cases y) simp_all
  show ?thesis
    unfolding packetHandler_pointer_def handler prod.case
    by (rule same_outcome_bind [OF d]) (auto intro!: widen packetHandler_tail [OF assms])
qed

end

lemma conversation_from_packet_empty: "conversation_from_packet n p t = Inr c \<Longrightarrow> action_queue c = []"
  by (auto simp: conversation_from_packet_def elim!: bindE split: option.splits)

lemma tcp_from_packet_empty: "tcp_from_packet n p t = Inr c \<Longrightarrow> action_queue c = []"
  by (auto simp: tcp_from_packet_def packet_conversation.defs elim!: bindE dest: conversation_from_packet_empty)

lemma tcp_process_appends: "tcp_processCapturePacket p c = Inr c' \<Longrightarrow> \<exists>as. action_queue c' = action_queue c @ as"
  by (drule tcp_process_step) (auto simp: takes_step_def)

lemma udp_process_appends: "udp_processCapturePacket p c = Inr c' \<Longrightarrow> \<exists>as. action_queue c' = action_queue c @ as"
  by (auto simp: udp_processCapturePacket_def elim!: bindE split: option.splits)

interpretation tcp_appends: appending_recorder "TcpConversationFactory n" tcp_processCapturePacket for n
  by unfold_locales (auto simp: TcpConversationFactory_def tcp_from_packet_empty tcp_process_appends)

interpretation udp_appends: appending_recorder "UdpConversationFactory n" udp_processCapturePacket for n
  by unfold_locales (auto simp: UdpConversationFactory_def udp_from_packet_def conversation_from_packet_empty udp_process_appends)

end
