(* ===== verification/Store_Destruction.thy ===== *)
theory Store_Destruction
  imports Store_Memory
begin

text \<open>
  What the destructors of the store do at the end of a program
  (src/src/include/conversation_store.h, src/src/include/packet_conversation.h): after any sequence
  of specifications, captured frames and popped actions, every object of the store is deleted
  exactly once.
\<close>

section \<open>Destruction\<close>

lemma delete_conversation_all:
  assumes "cells m a = Some (Conversation_object c q)" "distinct (q @ [a])" "set q \<subseteq> allocated m"
  shows "delete_conversation a m = delete_all (q @ [a]) m"
  using assms by (simp add: delete_conversation_def destroy_conversation_def read_object_def delete_all_append bind_def
      split: sum.split)

lemma delete_conversations_all:
  assumes "distinct (concat (map (\<lambda>a. queue_at m a @ [a]) as))"
    and "\<And>a. a \<in> set as \<Longrightarrow> \<exists>c q. cells m a = Some (Conversation_object c q)"
    and "\<And>a. a \<in> set as \<Longrightarrow> set (queue_at m a) \<subseteq> allocated m"
  shows "fold_result delete_conversation as m = delete_all (concat (map (\<lambda>a. queue_at m a @ [a]) as)) m"
  using assms
proof (induction as arbitrary: m)
  case Nil
  then show ?case by simp
next
  case (Cons a as)
  obtain c q where a: "cells m a = Some (Conversation_object c q)" using Cons.prems(2) by fastforce
  then have q: "queue_at m a = q" by (rule queue_at_conversation)
  have dist: "distinct (q @ [a])" using Cons.prems(1) q by simp
  have alloc: "set (q @ [a]) \<subseteq> allocated m" using Cons.prems(3) [of a] a q by (auto simp: allocated_def)
  let ?m = "m\<lparr>cells := cells m |` (- set (q @ [a]))\<rparr>"
  have first: "delete_all (q @ [a]) m = Inr ?m" by (rule delete_all_distinct [OF dist alloc])
  have out: "b \<notin> set (q @ [a])" "set (queue_at m b) \<inter> set (q @ [a]) = {}" if "b \<in> set as" for b
    using Cons.prems(1) q that by auto
  have same: "cells ?m b = cells m b" if "b \<in> set as" for b using out(1) [OF that] by simp
  then have queues: "map (\<lambda>a. queue_at ?m a @ [a]) as = map (\<lambda>a. queue_at m a @ [a]) as"
    by (auto intro: queue_at_cong)
  have "fold_result delete_conversation as ?m = delete_all (concat (map (\<lambda>a. queue_at ?m a @ [a]) as)) ?m"
  proof (rule Cons.IH)
    show "distinct (concat (map (\<lambda>a. queue_at ?m a @ [a]) as))" unfolding queues using Cons.prems(1) by simp
  next
    fix b
    assume b: "b \<in> set as"
    show "\<exists>c q. cells ?m b = Some (Conversation_object c q)" using same [OF b] Cons.prems(2) b by simp
    have "set (queue_at ?m b) = set (queue_at m b)" using queue_at_cong [OF same [OF b]] by simp
    then show "set (queue_at ?m b) \<subseteq> allocated ?m"
      using out(2) [OF b] Cons.prems(3) [of b] b by (auto simp: allocated_def)
  qed
  moreover have "delete_conversation a m = Inr ?m"
    using delete_conversation_all [OF a dist] alloc first by simp
  ultimately have "fold_result delete_conversation (a # as) m = bind (delete_all (q @ [a]) m)
      (delete_all (concat (map (\<lambda>a. queue_at m a @ [a]) as)))"
    using queues by (simp only: fold_result.simps bind_Inr first)
  also have "\<dots> = delete_all ((q @ [a]) @ concat (map (\<lambda>a. queue_at m a @ [a]) as)) m"
    by (simp only: delete_all_append)
  finally show ?case by (simp add: q)
qed

text \<open>The objects of a store in the order in which its destructors delete them.\<close>

definition owned_list :: "pointer_store \<Rightarrow> 'c memory \<Rightarrow> addr list" where
  "owned_list s m =
     concat (map (\<lambda>a. queue_at m a @ [a]) (map snd (conversation_pointers s))) @
     live_pointers (map snd (server_pointers s))"

lemma distinct_concat_map:
  assumes "distinct xs" "\<And>x. x \<in> set xs \<Longrightarrow> distinct (f x)"
    and "\<And>x y. x \<in> set xs \<Longrightarrow> y \<in> set xs \<Longrightarrow> x \<noteq> y \<Longrightarrow> set (f x) \<inter> set (f y) = {}"
  shows "distinct (concat (map f xs))"
  using assms
proof (induction xs)
  case (Cons x xs)
  have "set (f x) \<inter> (\<Union>y \<in> set xs. set (f y)) = {}" using Cons.prems(1,3) by fastforce
  with Cons show ?case by simp
qed simp

lemma distinct_live_pointers:
  assumes "distinct (map fst xs)" "\<And>k l a. map_of xs k = Some (Some a) \<Longrightarrow> map_of xs l = Some (Some a) \<Longrightarrow> k = l"
  shows "distinct (live_pointers (map snd xs))"
  using assms
proof (induction xs)
  case (Cons x xs)
  obtain k p where x: "x = (k, p)" by fastforce
  have lookup: "l \<noteq> k" "map_of (x # xs) l = Some q" if "(l, q) \<in> set xs" for l q
    using that Cons.prems(1) x by (auto simp: map_of_eq_Some_iff image_iff)
  have "distinct (live_pointers (map snd xs))"
  proof (rule Cons.IH)
    show "distinct (map fst xs)" using Cons.prems(1) by simp
    fix m l b
    assume "map_of xs m = Some (Some b)" "map_of xs l = Some (Some b)"
    then show "m = l" using Cons.prems(2) lookup(2) by (metis map_of_SomeD)
  qed
  moreover have "a \<notin> set (live_pointers (map snd xs))" if "p = Some a" for a
    using that Cons.prems(2) [of k a] lookup x by fastforce
  ultimately show ?case by (cases p) (simp_all add: x)
qed simp

lemma live_pointers_Some [simp]: "live_pointers (map Some as) = as"
  by (induction as) simp_all

lemma distinct_map_snd:
  fixes xs :: "('k \<times> addr) list"
  assumes "distinct (map fst xs)" "\<And>k l a. map_of xs k = Some a \<Longrightarrow> map_of xs l = Some a \<Longrightarrow> k = l"
  shows "distinct (map snd xs)"
proof -
  let ?ys = "map (\<lambda>(k, a). (k, Some a)) xs"
  have "distinct (live_pointers (map snd ?ys))"
    using assms by (intro distinct_live_pointers) (auto simp: map_of_map comp_def case_prod_beta')
  moreover have "map snd ?ys = map Some (map snd xs)" by auto
  ultimately show ?thesis by (simp only: live_pointers_Some)
qed

lemma map_ok_distinct: "map_ok xs \<Longrightarrow> distinct (map fst xs)"
  by (auto simp: map_ok_def strict_sorted_iff)

lemma map_ok_ran: "map_ok xs \<Longrightarrow> set (map snd xs) = ran (map_of xs)"
  by (simp add: ran_distinct map_ok_distinct)

lemma owned_list_ok:
  assumes at: "store_at (s, m) v"
  shows "set (owned_list s m) = owned_by s m" "distinct (owned_list s m)"
proof -
  have ok: "map_ok (server_pointers s)" "map_ok (conversation_pointers s)" "unshared s m"
    using at by (simp_all add: store_at_def)
  note ran = map_ok_ran [OF ok(1)] map_ok_ran [OF ok(2)]
  show "set (owned_list s m) = owned_by s m"
    unfolding owned_list_def owned_by_def ran [symmetric] by auto
  have conv: "distinct (queue_at m a @ [a])" "\<And>b. b \<in> set (queue_at m a) \<Longrightarrow> \<exists>x. cells m b = Some (Action_object x)"
      "\<exists>c q. cells m a = Some (Conversation_object c q)"
    if a: "a \<in> ran (find_conversation_pointer s)" for a
  proof -
    obtain c where c: "conversation_at m a c" using a by (rule store_at_conversation [OF at])
    show "distinct (queue_at m a @ [a])" "\<exists>c q. cells m a = Some (Conversation_object c q)"
      using conversation_at_queue [OF c] conversation_at_action [OF c, of a] by auto
    show "\<exists>x. cells m b = Some (Action_object x)" if "b \<in> set (queue_at m a)" for b
      using conversation_at_action [OF c that] by blast
  qed
  have "distinct (map snd (conversation_pointers s))"
    using distinct_map_snd [OF map_ok_distinct [OF ok(2)]] unshared_conversation [OF ok(3)] by blast
  then have "distinct (concat (map (\<lambda>a. queue_at m a @ [a]) (map snd (conversation_pointers s))))"
  proof (rule distinct_concat_map)
    fix a b
    assume "a \<in> set (map snd (conversation_pointers s))" "b \<in> set (map snd (conversation_pointers s))" "a \<noteq> b"
    then have ab: "a \<in> ran (find_conversation_pointer s)" "b \<in> ran (find_conversation_pointer s)" "a \<noteq> b"
      unfolding ran by blast+
    show "set (queue_at m a @ [a]) \<inter> set (queue_at m b @ [b]) = {}"
      using unshared_queues [OF ok(3) ab] ab(3) conv(2,3) [OF ab(1)] conv(2,3) [OF ab(2)] by fastforce
  qed (use conv(1) ran in blast)
  moreover have "distinct (live_pointers (map snd (server_pointers s)))"
    using ok(3) by (intro distinct_live_pointers map_ok_distinct [OF ok(1)]) (auto simp: unshared_def)
  moreover have "set (concat (map (\<lambda>a. queue_at m a @ [a]) (map snd (conversation_pointers s)))) \<inter>
      {a. Some a \<in> ran (find_server_pointer s)} = {}"
  proof -
    have "x \<notin> {a. Some a \<in> ran (find_server_pointer s)}"
      if a: "a \<in> ran (find_conversation_pointer s)" and x: "x \<in> set (queue_at m a @ [a])" for a x
    proof
      assume "x \<in> {a. Some a \<in> ran (find_server_pointer s)}"
      then obtain t where "cells m x = Some (Server_object t)" by (auto elim: store_at_server [OF at])
      with x conv(2,3) [OF a] show False by force
    qed
    then show ?thesis using ran(2) by auto
  qed
  ultimately show "distinct (owned_list s m)"
    using ran(1) by (simp add: owned_list_def)
qed

lemma fold_result_snd: "fold_result (\<lambda>(k, a). f a) xs = fold_result f (map snd xs)"
proof (induction xs)
  case (Cons x xs)
  obtain k a where "x = (k, a)" by fastforce
  then show ?case by (intro ext) (simp add: Cons.IH)
qed (simp add: fun_eq_iff)

text \<open>The destructors delete exactly the objects of the store.\<close>

lemma store_destroyed:
  fixes m :: "'a conversation_memory"
  assumes "stands_for others (s, m) v"
  shows "\<exists>m'. destroy_store s m = Inr m' \<and> cells m' = others"
proof -
  have at: "store_at (s, m) v" "rest_of s m = others" using assms by (simp_all add: stands_for_iff)
  note owned = owned_list_ok [OF at(1)]
  have alloc: "set (owned_list s m) \<subseteq> allocated m" using owned_by_allocated [OF at(1)] owned(1) by simp
  have conv: "\<exists>c q. cells m a = Some (Conversation_object c q)" if "a \<in> set (map snd (conversation_pointers s))" for a
  proof -
    have "a \<in> ran (find_conversation_pointer s)" using that map_ok_ran [of "conversation_pointers s"] at(1) by (simp add: store_at_def)
    then obtain c where "conversation_at m a c" by (rule store_at_conversation [OF at(1)])
    then show ?thesis using conversation_at_queue(1) by blast
  qed
  have "destroy_conversations s m =
      delete_all (concat (map (\<lambda>a. queue_at m a @ [a]) (map snd (conversation_pointers s)))) m"
    unfolding destroy_conversations_def fold_result_snd
  proof (rule delete_conversations_all)
    show "distinct (concat (map (\<lambda>a. queue_at m a @ [a]) (map snd (conversation_pointers s))))"
      using owned(2) by (simp add: owned_list_def)
    show "set (queue_at m a) \<subseteq> allocated m" if "a \<in> set (map snd (conversation_pointers s))" for a
      using alloc that unfolding owned_list_def by auto
  qed (rule conv)
  moreover have "destroy_servers s = (delete_all (live_pointers (map snd (server_pointers s))) :: 'a conversation_memory \<Rightarrow> _)"
    by (intro ext) (simp add: destroy_servers_def fold_result_snd delete_nullable_all)
  ultimately have "destroy_store s m = delete_all (owned_list s m) m"
    by (simp only: destroy_store_def owned_list_def delete_all_append)
  then show ?thesis
    using delete_all_distinct [OF owned(2) alloc] at(2) owned(1) by (simp add: rest_of_def)
qed

section \<open>Programs\<close>

text \<open>
  What \<open>main\<close> does to a store before its destructor runs: the options of the command line configure
  servers, the frames of the capture are handled, and the clients take actions from the queues. The
  same events act on a store of pointers and on a store of values.
\<close>

datatype store_event = Configure string | Handle "pcap_pkthdr \<times> byte list" | Pop_action string

definition pop_action_pointer :: "string \<Rightarrow> pointer_store \<times> 'c memory \<Rightarrow> (pointer_store \<times> 'c memory) result" where
  "pop_action_pointer k = (\<lambda>(s, m).
     bind (deref (find_conversation_pointer s k)) (\<lambda>a. bind (actionPop_pointer a m) (\<lambda>m'. Inr (s, m'))))"

definition pop_action ::
  "string \<Rightarrow> 'a packet_conversation_scheme store \<Rightarrow> 'a packet_conversation_scheme store result" where
  "pop_action k v =
     bind (deref (map_of (conversations v) k)) (\<lambda>c.
     bind (actionPop c) (\<lambda>c'. Inr (v\<lparr>conversations := map_put k c' (conversations v)\<rparr>)))"

fun event_pointer ::
  "'a packet_conversation_scheme factory \<Rightarrow>
    (transport_packet \<Rightarrow> 'a packet_conversation_scheme \<Rightarrow> 'a packet_conversation_scheme result) \<Rightarrow> 8 word \<Rightarrow>
    store_event \<Rightarrow> pointer_store \<times> 'a conversation_memory \<Rightarrow> (pointer_store \<times> 'a conversation_memory) result" where
  "event_pointer f process link (Configure spec) u = addTargetTestServer_pointer f spec u"
| "event_pointer f process link (Handle frame) u = packetHandler_pointer f process link frame u"
| "event_pointer f process link (Pop_action k) u = pop_action_pointer k u"

fun event_value ::
  "'a packet_conversation_scheme factory \<Rightarrow>
    (transport_packet \<Rightarrow> 'a packet_conversation_scheme \<Rightarrow> 'a packet_conversation_scheme result) \<Rightarrow> 8 word \<Rightarrow>
    store_event \<Rightarrow> 'a packet_conversation_scheme store \<Rightarrow> 'a packet_conversation_scheme store result" where
  "event_value f process link (Configure spec) v = addTargetTestServer f spec v"
| "event_value f process link (Handle frame) v =
     bind (packetHandler f process frame \<lparr>conversation_store = v, datalink_type = link\<rparr>)
       (\<lambda>cap. Inr (conversation_store cap))"
| "event_value f process link (Pop_action k) v = pop_action k v"

text \<open>The keys that the specifications of a run configure.\<close>

fun configured_keys :: "'c factory \<Rightarrow> store_event list \<Rightarrow> string list" where
  "configured_keys f [] = []"
| "configured_keys f (Configure spec # es) =
     (case createTargetTestServer f spec of
        Inl e \<Rightarrow> configured_keys f es
      | Inr (k, t) \<Rightarrow> k # configured_keys f es)"
| "configured_keys f (Handle frame # es) = configured_keys f es"
| "configured_keys f (Pop_action k # es) = configured_keys f es"

definition only_servers :: "(addr \<rightharpoonup> 'c object) \<Rightarrow> bool" where
  "only_servers others \<longleftrightarrow> (\<forall>a x. others a = Some x \<longrightarrow> (\<exists>t. x = Server_object t))"

lemma only_servers_empty [simp]: "only_servers Map.empty"
  by (simp add: only_servers_def)

text \<open>After an event: what the store stands for, what lies beside it, and which keys are configured.\<close>

definition after_events ::
  "string list \<Rightarrow> pointer_store \<Rightarrow> (addr \<rightharpoonup> 'a packet_conversation_scheme object) \<Rightarrow>
    pointer_store \<times> 'a conversation_memory \<Rightarrow> 'a packet_conversation_scheme store \<Rightarrow> bool" where
  "after_events keys s others u v \<longleftrightarrow>
     (\<exists>others'. stands_for others' u v \<and> only_servers others' \<and>
        (\<forall>k. find_server_pointer (fst u) k \<noteq> None \<longrightarrow> find_server_pointer s k \<noteq> None \<or> k \<in> set keys) \<and>
        (distinct keys \<and> (\<forall>k \<in> set keys. find_server_pointer s k = None) \<longrightarrow> others' = others))"

lemma after_eventsI:
  assumes "stands_for others u v" "only_servers others" "server_pointers (fst u) = server_pointers s"
  shows "after_events [] s others u v"
  using assms unfolding after_events_def by (intro exI [of _ others]) simp

lemma after_events_trans:
  assumes "after_events ks s others (s1, m1) w" "stands_for others1 (s1, m1) w" "after_events ls s1 others1 x y"
  shows "after_events (ks @ ls) s others x y"
proof -
  have ks: "\<forall>k. find_server_pointer s1 k \<noteq> None \<longrightarrow> find_server_pointer s k \<noteq> None \<or> k \<in> set ks"
    "distinct ks \<and> (\<forall>k \<in> set ks. find_server_pointer s k = None) \<longrightarrow> others1 = others"
    using assms(1,2) by (auto simp: after_events_def stands_for_iff)
  obtain others2 where ls: "stands_for others2 x y" "only_servers others2"
    "\<forall>k. find_server_pointer (fst x) k \<noteq> None \<longrightarrow> find_server_pointer s1 k \<noteq> None \<or> k \<in> set ls"
    "distinct ls \<and> (\<forall>k \<in> set ls. find_server_pointer s1 k = None) \<longrightarrow> others2 = others1"
    using assms(3) unfolding after_events_def by blast
  have "others2 = others" if d: "distinct (ks @ ls)" and n: "\<forall>k \<in> set (ks @ ls). find_server_pointer s k = None"
  proof -
    have "find_server_pointer s1 k = None" if "k \<in> set ls" for k
    proof -
      have "k \<notin> set ks" "find_server_pointer s k = None" using d n that by auto
      with ks(1) show ?thesis by blast
    qed
    with ks(2) ls(4) d n show ?thesis by simp
  qed
  moreover have "find_server_pointer s k \<noteq> None \<or> k \<in> set (ks @ ls)" if "find_server_pointer (fst x) k \<noteq> None" for k
    using ks(1) ls(3) that unfolding set_append by blast
  ultimately show ?thesis using ls(1,2) unfolding after_events_def by blast
qed

lemma same_outcome_mono:
  "same_outcome R r r' \<Longrightarrow> (\<And>x y. r = Inr x \<Longrightarrow> r' = Inr y \<Longrightarrow> R x y \<Longrightarrow> S x y) \<Longrightarrow> same_outcome S r r'"
  by (cases r; cases r') simp_all

lemma same_outcome_widen:
  "same_outcome R r r' \<Longrightarrow> (\<And>x y. r = Inr x \<Longrightarrow> R x y \<Longrightarrow> S x (f y)) \<Longrightarrow> same_outcome S r (bind r' (\<lambda>y. Inr (f y)))"
  by (cases r; cases r') simp_all

lemma getConversation_pointer_servers:
  "getConversation_pointer f p s m = Inr (r, s', m') \<Longrightarrow> server_pointers s' = server_pointers s"
  by (auto simp: getConversation_pointer_def elim!: bindE split: option.splits prod.splits if_splits)

lemma packetHandler_pointer_servers:
  assumes "packetHandler_pointer f process link frame (s, m) = Inr (s', m')"
  shows "server_pointers s' = server_pointers s"
proof -
  have "server_pointers t = server_pointers s" if "store_packet_pointer f process p s m1 = Inr (t, m2)" for p t m1 m2
    using that getConversation_pointer_servers
    by (fastforce simp: store_packet_pointer_def elim!: bindE split: option.splits)
  with assms show ?thesis
    by (auto simp: packetHandler_pointer_def elim!: bindE split: if_splits)
qed

text \<open>
  From an empty store to its destruction: it succeeds, it leaves nothing but servers that a later
  specification replaced, and nothing at all where no key was configured twice.
\<close>

definition ends_clean ::
  "bool \<Rightarrow> pointer_store \<times> 'a conversation_memory \<Rightarrow> 'a packet_conversation_scheme store \<Rightarrow> bool" where
  "ends_clean no_repetition = (\<lambda>(s, m) v. \<exists>m'. destroy_store s m = Inr m' \<and>
     (\<forall>a x. cells m' a = Some x \<longrightarrow> (\<exists>t. x = Server_object t)) \<and> (no_repetition \<longrightarrow> cells m' = Map.empty))"

context appending_recorder
begin

lemma configure_same:
  assumes "stands_for others (s, m) v" "only_servers others"
  shows "same_outcome (after_events (configured_keys factory [Configure spec]) s others)
    (addTargetTestServer_pointer factory spec (s, m)) (addTargetTestServer factory spec v)"
proof (cases "createTargetTestServer factory spec")
  case (Inl e)
  then show ?thesis by (simp add: addTargetTestServer_pointer_def addTargetTestServer_def)
next
  case (Inr kt)
  obtain k t where kt: "kt = (k, t)" by fastforce
  have at: "store_at (s, m) v" "rest_of s m = others" using assms(1) by (simp_all add: stands_for_iff)
  obtain p m1 where new: "new_server t m = (p, m1)" by fastforce
  let ?s = "s\<lparr>server_pointers := map_put k p (server_pointers s)\<rparr>"
  note n = store_at_new_server [OF at(1) new refl]
  have "only_servers (rest_of ?s m1)"
    unfolding only_servers_def
  proof (intro allI impI)
    fix a x
    assume "rest_of ?s m1 a = Some x"
    then have a: "cells m a = Some x" "a \<notin> owned_by s m \<or> a \<in> replaced_server s k"
      unfolding n(2) by (auto simp: restrict_map_def split: if_splits)
    show "\<exists>t. x = Server_object t"
    proof (cases "a \<in> replaced_server s k")
      case True
      then have "Some a \<in> ran (find_server_pointer s)" by (auto simp: replaced_server_def intro: ranI)
      then obtain t where "cells m a = Some (Server_object t)" by (rule store_at_server [OF at(1)])
      with a(1) show ?thesis by auto
    next
      case False
      with a have "rest_of s m a = Some x" by (simp add: rest_of_def)
      with assms(2) at(2) show ?thesis by (auto simp: only_servers_def)
    qed
  qed
  moreover have "rest_of ?s m1 = others" if "find_server_pointer s k = None"
    using n(2) that at(2) by (simp add: replaced_server_def rest_of_def)
  ultimately show ?thesis
    using Inr kt new n(1)
    by (auto simp: addTargetTestServer_pointer_def addTargetTestServer_def after_events_def stands_for_iff)
qed

lemma event_same:
  assumes "stands_for others (s, m) v" "only_servers others"
  shows "same_outcome (after_events (configured_keys factory [e]) s others)
    (event_pointer factory process link e (s, m)) (event_value factory process link e v)"
proof (cases e)
  case (Configure spec)
  with configure_same [OF assms] show ?thesis by simp
next
  case (Handle frame)
  have "same_outcome (after_events [] s others) (packetHandler_pointer factory process link frame (s, m))
      (bind (packetHandler factory process frame \<lparr>conversation_store = v, datalink_type = link\<rparr>)
        (\<lambda>cap. Inr (conversation_store cap)))"
  proof (rule same_outcome_widen [OF packetHandler_same [OF assms(1), of link frame]])
    fix u cap
    assume u: "packetHandler_pointer factory process link frame (s, m) = Inr u"
      "stands_for others u (conversation_store cap) \<and> datalink_type cap = link"
    have "server_pointers (fst u) = server_pointers s"
      using packetHandler_pointer_servers [of factory process link frame s m "fst u" "snd u"] u(1) by simp
    with u(2) assms(2) show "after_events [] s others u (conversation_store cap)" by (blast intro: after_eventsI)
  qed
  with Handle show ?thesis by simp
next
  case (Pop_action k)
  have at: "store_at (s, m) v" using assms(1) by (simp add: stands_for_iff)
  have "same_outcome (after_events [] s others) (pop_action_pointer k (s, m)) (pop_action k v)"
  proof (cases "find_conversation_pointer s k")
    case None
    with store_at_find_conversation [OF at, of k] show ?thesis by (simp add: pop_action_pointer_def pop_action_def)
  next
    case (Some a)
    with store_at_find_conversation [OF at, of k] obtain c where c: "map_of (conversations v) k = Some c"
      by (auto simp: option_rel_Some1)
    have "same_outcome (after_events [] s others)
        (bind (actionPop_pointer a m) (\<lambda>m'. Inr (s, m')))
        (bind (actionPop c) (\<lambda>c'. Inr (v\<lparr>conversations := map_put k c' (conversations v)\<rparr>)))"
      by (rule same_outcome_bind [OF actionPop_same(1) [OF assms(1) Some c]]) (simp add: after_eventsI assms(2))
    with Some c show ?thesis by (simp add: pop_action_pointer_def pop_action_def)
  qed
  with Pop_action show ?thesis by simp
qed

lemma events_same:
  assumes "stands_for others (s, m) v" "only_servers others"
  shows "same_outcome (after_events (configured_keys factory es) s others)
    (fold_result (event_pointer factory process link) es (s, m)) (fold_result (event_value factory process link) es v)"
  using assms
proof (induction es arbitrary: others s m v)
  case Nil
  then show ?case by (simp add: after_eventsI)
next
  case (Cons e es)
  show ?case
    unfolding fold_result.simps
  proof (rule same_outcome_bind [OF event_same [OF Cons.prems]])
    fix u w
    assume u: "after_events (configured_keys factory [e]) s others u w"
    obtain s1 m1 where u_eq: "u = (s1, m1)" by fastforce
    from u obtain others1 where o: "stands_for others1 (s1, m1) w" "only_servers others1"
      by (auto simp: after_events_def u_eq)
    have keys: "configured_keys factory (e # es) = configured_keys factory [e] @ configured_keys factory es"
      by (cases e) (auto split: sum.splits)
    show "same_outcome (after_events (configured_keys factory (e # es)) s others)
        (fold_result (event_pointer factory process link) es u) (fold_result (event_value factory process link) es w)"
      unfolding u_eq
    proof (rule same_outcome_mono [OF Cons.IH [OF o(1,2)]])
      fix x y
      assume "after_events (configured_keys factory es) s1 others1 x y"
      then show "after_events (configured_keys factory (e # es)) s others x y"
        unfolding keys by (rule after_events_trans [OF u [unfolded u_eq] o(1)])
    qed
  qed
qed

lemma run_destroyed:
  "same_outcome (ends_clean (distinct (configured_keys factory es)))
    (fold_result (event_pointer factory process link) es (new_pointer_store, no_memory))
    (fold_result (event_value factory process link) es new_store)"
proof (rule same_outcome_mono [OF events_same [OF stands_for_new only_servers_empty]])
  fix u v
  assume "after_events (configured_keys factory es) new_pointer_store Map.empty u v"
  then obtain others where o: "stands_for others (fst u, snd u) v" "only_servers others"
    "distinct (configured_keys factory es) \<longrightarrow> others = Map.empty"
    by (auto simp: after_events_def new_pointer_store_def)
  from store_destroyed [OF o(1)] o(2,3) show "ends_clean (distinct (configured_keys factory es)) u v"
    by (auto simp: ends_clean_def only_servers_def split: prod.split)
qed

end

section \<open>Properties\<close>

text \<open>
  C7. The memory of a program is handled safely. Take any sequence of client specifications, captured
  frames and actions taken by a client, for TCP or for UDP, and run it on the objects that the
  code allocates: it fails exactly where the model on values fails, and with the same error. Where
  it does not fail, every layer of every packet is gone, and destroying the store deletes each
  object it still owns exactly once, with no object deleted twice or used after it was deleted.
  What is left in memory then are only servers whose specification was replaced by a later one for
  the same client; with different keys nothing is left.
\<close>

theorem store_memory_safe:
  "same_outcome (ends_clean (distinct (configured_keys (TcpConversationFactory n) es)))
      (fold_result (event_pointer (TcpConversationFactory n) tcp_processCapturePacket link) es (new_pointer_store, no_memory))
      (fold_result (event_value (TcpConversationFactory n) tcp_processCapturePacket link) es new_store) \<and>
   same_outcome (ends_clean (distinct (configured_keys (UdpConversationFactory n) es)))
      (fold_result (event_pointer (UdpConversationFactory n) udp_processCapturePacket link) es (new_pointer_store, no_memory))
      (fold_result (event_value (UdpConversationFactory n) udp_processCapturePacket link) es new_store)"
  by (intro conjI tcp_appends.run_destroyed udp_appends.run_destroyed)

text \<open>
  Repeated specifications leak: a second one for the same client replaces the pointer to the server
  of the first, which no destructor reaches any more.
\<close>

theorem repeated_specification_leaks:
  assumes "createTargetTestServer f spec1 = Inr (k, Some t)" "createTargetTestServer f spec2 = Inr (k, u)"
  shows "\<exists>s m m' a. fold_result (event_pointer f process link) [Configure spec1, Configure spec2]
      (new_pointer_store, no_memory) = Inr (s, m) \<and>
    destroy_store s m = Inr m' \<and> cells m' a = Some (Server_object t)"
proof (cases u)
  case None
  with assms show ?thesis
    by (auto simp: addTargetTestServer_pointer_def new_object_def new_pointer_store_def no_memory_def
        destroy_store_def destroy_conversations_def destroy_servers_def)
next
  case (Some x)
  with assms show ?thesis
    by (auto simp: addTargetTestServer_pointer_def new_object_def new_pointer_store_def no_memory_def
        destroy_store_def destroy_conversations_def destroy_servers_def delete_object_def intro!: exI [of _ "0 :: addr"])
qed

section \<open>Witnesses\<close>

text \<open>
  A configured server, a datagram of its client and the answer, captured on the loopback interface
  (IPv4 headers without options); the client of the replay takes the first action.
\<close>

definition loopback_frame :: "byte \<Rightarrow> byte \<Rightarrow> byte \<Rightarrow> byte \<Rightarrow> byte list \<Rightarrow> byte list" where
  "loopback_frame s sport d dport payload =
     [2, 0, 0, 0] @ [0x45, 0, 0, of_nat (28 + length payload), 0, 0, 0, 0, 64, 17, 0, 0, 10, 0, 0, s, 10, 0, 0, d] @
     [0, sport, 0, dport, 0, of_nat (8 + length payload), 0, 0] @ payload"

definition sample_events :: "store_event list" where
  "sample_events =
     Configure ''10.0.0.1:7:127.0.0.1:53'' #
     map (\<lambda>bs. Handle (full_header bs, bs)) [loopback_frame 1 7 2 53 [81], loopback_frame 2 53 1 7 [82, 83]] @
     [Pop_action ''0a000001:1792:0a000002:13568'']"

lemma sample_events_run:
  "case fold_result (event_value (UdpConversationFactory sample_inet6) udp_processCapturePacket 0) sample_events new_store of
     Inl e \<Rightarrow> False
   | Inr v \<Rightarrow> map (length \<circ> action_queue \<circ> snd) (conversations v) = [1] \<and> length (test_servers v) = 1"
  "distinct (configured_keys (UdpConversationFactory sample_inet6) sample_events)"
  by code_simp+

theorem store_memory_safe_witness:
  "\<exists>s m m'. fold_result (event_pointer (UdpConversationFactory sample_inet6) udp_processCapturePacket 0) sample_events
      (new_pointer_store, no_memory) = Inr (s, m) \<and> destroy_store s m = Inr m' \<and> cells m' = Map.empty"
proof -
  obtain v where "fold_result (event_value (UdpConversationFactory sample_inet6) udp_processCapturePacket 0) sample_events new_store = Inr v"
    using sample_events_run(1) by (auto split: sum.splits)
  with store_memory_safe [of sample_inet6 sample_events 0] sample_events_run(2) obtain u where
    u: "fold_result (event_pointer (UdpConversationFactory sample_inet6) udp_processCapturePacket 0) sample_events
      (new_pointer_store, no_memory) = Inr u" "ends_clean True u v"
    by (cases "fold_result (event_pointer (UdpConversationFactory sample_inet6) udp_processCapturePacket 0) sample_events
      (new_pointer_store, no_memory)") auto
  then show ?thesis by (cases u) (auto simp: ends_clean_def)
qed

theorem repeated_specification_leaks_witness:
  "\<exists>s m m' a. fold_result (event_pointer (TcpConversationFactory sample_inet6) tcp_processCapturePacket 1)
      [Configure ''10.0.0.1:80:1.2.3.4:5'', Configure ''10.0.0.1:80:1.2.3.4:6''] (new_pointer_store, no_memory) = Inr (s, m) \<and>
    destroy_store s m = Inr m' \<and> cells m' a = Some (Server_object \<lparr>test_addr = ''1.2.3.4'', test_port = 5\<rparr>)"
proof (rule repeated_specification_leaks)
  show "createTargetTestServer (TcpConversationFactory sample_inet6) ''10.0.0.1:80:1.2.3.4:5'' =
      Inr (''10.0.0.1:20480'', Some \<lparr>test_addr = ''1.2.3.4'', test_port = 5\<rparr>)"
    by code_simp
  show "createTargetTestServer (TcpConversationFactory sample_inet6) ''10.0.0.1:80:1.2.3.4:6'' =
      Inr (''10.0.0.1:20480'', Some \<lparr>test_addr = ''1.2.3.4'', test_port = 6\<rparr>)"
    by code_simp
qed

end
