(* ===== verification/Base64.thy ===== *)
theory Base64
  imports Base64_Tables Inet
begin

text \<open>
  src/src/include/base64.h: \<open>encode_into\<close> and \<open>decode_into\<close> for \<open>std::string\<close>, with the table
  lookups, the input pointer and the output buffer of the code. Every read of the input and every
  write of the output is checked against its bounds. The reference encoder and decoder state the
  format by arithmetic on the sextets.
\<close>

section \<open>Pointers\<close>

text \<open>\<open>*bytes++\<close>: the byte and the advanced pointer.\<close>

definition next_byte :: "byte list \<Rightarrow> (byte \<times> byte list) result" where
  "next_byte p = (case p of [] \<Rightarrow> Inl (Undefined_behaviour Out_of_bounds_read) | b # r \<Rightarrow> Inr (b, r))"

text \<open>
  The output string is allocated at its final size with a fill character and written from the
  front through \<open>*curr++\<close>: the bytes written so far and the size of the allocation.
\<close>

record out_buffer =
  written :: string
  capacity :: nat

definition emit :: "char \<Rightarrow> out_buffer \<Rightarrow> out_buffer result" where
  "emit c b =
     (if length (written b) < capacity b then Inr (b\<lparr>written := written b @ [c]\<rparr>)
      else Inl (Undefined_behaviour Out_of_bounds_write))"

definition buffer_contents :: "char \<Rightarrow> out_buffer \<Rightarrow> string" where
  "buffer_contents fill b = written b @ replicate (capacity b - length (written b)) fill"

lemma emit_all:
  "length (written b) + length cs \<le> capacity b \<Longrightarrow>
    fold_result emit cs b = Inr (b\<lparr>written := written b @ cs\<rparr>)"
proof (induction cs arbitrary: b)
  case Nil
  then show ?case by simp
next
  case (Cons c cs)
  then have "emit c b = Inr (b\<lparr>written := written b @ [c]\<rparr>)" by (simp add: emit_def)
  with Cons.IH [of "b\<lparr>written := written b @ [c]\<rparr>"] Cons.prems show ?case by simp
qed

section \<open>Encoding\<close>

definition enc0 :: "byte \<Rightarrow> char" where "enc0 i = encode_table_0 ! unat i"
definition enc1 :: "byte \<Rightarrow> char" where "enc1 i = encode_table_1 ! unat i"

definition encode_group :: "byte \<Rightarrow> byte \<Rightarrow> byte \<Rightarrow> string" where
  "encode_group t1 t2 t3 =
     [enc0 t1, enc1 (push_bit 4 (t1 AND 0x03) OR (drop_bit 4 t2 AND 0x0F)),
      enc1 (push_bit 2 (t2 AND 0x0F) OR (drop_bit 6 t3 AND 0x03)), enc1 t3]"

fun encode_loop :: "nat \<Rightarrow> byte list \<times> out_buffer \<Rightarrow> (byte list \<times> out_buffer) result" where
  "encode_loop 0 s = Inr s"
| "encode_loop (Suc i) (bytes, out) =
     bind (next_byte bytes) (\<lambda>(t1, bytes1).
     bind (next_byte bytes1) (\<lambda>(t2, bytes2).
     bind (next_byte bytes2) (\<lambda>(t3, bytes3).
     bind (fold_result emit (encode_group t1 t2 t3) out) (\<lambda>out1.
       encode_loop i (bytes3, out1)))))"

definition encode_tail :: "nat \<Rightarrow> byte list \<Rightarrow> out_buffer \<Rightarrow> out_buffer result" where
  "encode_tail k bytes out =
     (if k = 0 then Inr out
      else if k = 1 then
        bind (read8 bytes 0) (\<lambda>t1.
          fold_result emit [enc0 t1, enc1 (push_bit 4 (t1 AND 0x03))] out)
      else if k = 2 then
        bind (read8 bytes 0) (\<lambda>t1. bind (read8 bytes 1) (\<lambda>t2.
          fold_result emit [enc0 t1, enc1 (push_bit 4 (t1 AND 0x03) OR (drop_bit 4 t2 AND 0x0F)),
                            enc1 (push_bit 2 (t2 AND 0x0F))] out))
      else Inl (Runtime_error ''Invalid base64 encoded data''))"

definition to_base64 :: "string \<Rightarrow> string result" where
  "to_base64 data =
     (let binarytextsize = length data;
          encodedsize = (binarytextsize div 3 + (if 0 < binarytextsize mod 3 then 1 else 0)) * 4;
          bytes = map byte_of_char data
      in bind (encode_loop (binarytextsize div 3) (bytes, \<lparr>written = [], capacity = encodedsize\<rparr>))
           (\<lambda>(bytes, out).
         bind (encode_tail (binarytextsize mod 3) bytes out) (\<lambda>out.
           Inr (buffer_contents CHR ''='' out))))"

section \<open>Decoding\<close>

text \<open>\<open>bit_cast\<close> of a 32-bit word to its four bytes in the host's order.\<close>

definition temp_bytes :: "byte_order \<Rightarrow> 32 word \<Rightarrow> byte list" where
  "temp_bytes host w =
     (let bytes = [ucast w, ucast (drop_bit 8 w), ucast (drop_bit 16 w), ucast (drop_bit 24 w)]
      in case host of Little_Endian \<Rightarrow> bytes | Big_Endian \<Rightarrow> rev bytes)"

abbreviation invalid_character :: error where
  "invalid_character \<equiv> Runtime_error ''Invalid base64 encoded data - Invalid character''"

text \<open>The combined table entries of a group, checked, and the output bytes it yields.\<close>

definition group_bytes :: "byte_order \<Rightarrow> 32 word \<Rightarrow> nat \<Rightarrow> string result" where
  "group_bytes host temp k =
     (if bad_char \<le> temp then Inl invalid_character
      else Inr (map (\<lambda>i. char_of_byte (temp_bytes host temp ! decidx host i)) [0..<k]))"

fun decode_loop :: "byte_order \<Rightarrow> nat \<Rightarrow> byte list \<times> out_buffer \<Rightarrow> (byte list \<times> out_buffer) result" where
  "decode_loop host 0 s = Inr s"
| "decode_loop host (Suc i) (bytes, out) =
     bind (next_byte bytes) (\<lambda>(t1, bytes1).
     bind (next_byte bytes1) (\<lambda>(t2, bytes2).
     bind (next_byte bytes2) (\<lambda>(t3, bytes3).
     bind (next_byte bytes3) (\<lambda>(t4, bytes4).
     bind (group_bytes host (decode_table host 0 ! unat t1 OR decode_table host 1 ! unat t2 OR
                        decode_table host 2 ! unat t3 OR decode_table host 3 ! unat t4) 3) (\<lambda>cs.
     bind (fold_result emit cs out) (\<lambda>out1. decode_loop host i (bytes4, out1)))))))"

definition decode_tail :: "byte_order \<Rightarrow> nat \<Rightarrow> byte list \<Rightarrow> out_buffer \<Rightarrow> out_buffer result" where
  "decode_tail host numPadding bytes out =
     (if numPadding = 0 then Inr out
      else if numPadding = 1 then
        bind (next_byte bytes) (\<lambda>(t1, bytes1).
        bind (next_byte bytes1) (\<lambda>(t2, bytes2).
        bind (next_byte bytes2) (\<lambda>(t3, bytes3).
        bind (group_bytes host (decode_table host 0 ! unat t1 OR decode_table host 1 ! unat t2 OR
                           decode_table host 2 ! unat t3) 2) (\<lambda>cs. fold_result emit cs out))))
      else if numPadding = 2 then
        bind (next_byte bytes) (\<lambda>(t1, bytes1).
        bind (next_byte bytes1) (\<lambda>(t2, bytes2).
        bind (group_bytes host (decode_table host 0 ! unat t1 OR decode_table host 1 ! unat t2) 1) (\<lambda>cs.
          fold_result emit cs out)))
      else Inl (Runtime_error ''Invalid base64 encoded data - Invalid padding number''))"

definition decode_text :: "byte_order \<Rightarrow> string \<Rightarrow> string result" where
  "decode_text host base64Text =
     (if base64Text = [] then Inr []
      else
        bind (throw_if (length base64Text mod 4 \<noteq> 0)
               (Runtime_error ''Invalid base64 encoded data - Size not divisible by 4'')) (\<lambda>_.
        let numPadding = count_list (take 4 (rev base64Text)) CHR ''=''
        in bind (throw_if (2 < numPadding)
                  (Runtime_error ''Invalid base64 encoded data - Found more than 2 padding signs'')) (\<lambda>_.
           bind (decode_loop host (length base64Text div 4 - (if numPadding \<noteq> 0 then 1 else 0))
                  (map byte_of_char base64Text,
                   \<lparr>written = [], capacity = length base64Text * 3 div 4 - numPadding\<rparr>)) (\<lambda>(bytes, out).
           bind (decode_tail host numPadding bytes out) (\<lambda>out.
             Inr (buffer_contents CHR ''.'' out))))))"

text \<open>The header as the hosts of the program compile it.\<close>

definition from_base64 :: "string \<Rightarrow> string result" where
  "from_base64 = decode_text Little_Endian"

section \<open>The reference\<close>

text \<open>The three bytes that four sextets stand for.\<close>

fun quad_bytes :: "nat list \<Rightarrow> string" where
  "quad_bytes [u, v, w, x] =
     [char_of (4 * u + v div 16), char_of (16 * (v mod 16) + w div 4), char_of (64 * (w mod 4) + x)]"
| "quad_bytes _ = []"

fun sextets :: "string \<Rightarrow> nat list option" where
  "sextets [] = Some []"
| "sextets (c # cs) =
     (case sextet c of None \<Rightarrow> None | Some v \<Rightarrow> map_option ((#) v) (sextets cs))"

text \<open>A group of two, three or four characters stands for one, two or three bytes.\<close>

definition decode_group :: "string \<Rightarrow> string option" where
  "decode_group cs =
     map_option (\<lambda>vs. take (length cs - 1) (quad_bytes (vs @ replicate (4 - length cs) 0))) (sextets cs)"

fun ref_decode :: "string \<Rightarrow> string option" where
  "ref_decode [] = Some []"
| "ref_decode (a # b # c # d # r) =
     (if r = [] \<and> d = CHR ''='' then decode_group (if c = CHR ''='' then [a, b] else [a, b, c])
      else case decode_group [a, b, c, d] of None \<Rightarrow> None | Some s \<Rightarrow> map_option ((@) s) (ref_decode r))"
| "ref_decode _ = None"

definition ref_group :: "nat \<Rightarrow> nat \<Rightarrow> nat \<Rightarrow> string" where
  "ref_group x y z =
     map b64_char [x div 4, 16 * (x mod 4) + y div 16, 4 * (y mod 16) + z div 64, z mod 64]"

fun ref_encode :: "string \<Rightarrow> string" where
  "ref_encode [] = []"
| "ref_encode [x] = take 2 (ref_group (of_char x) 0 0) @ ''==''"
| "ref_encode [x, y] = take 3 (ref_group (of_char x) (of_char y) 0) @ ''=''"
| "ref_encode (x # y # z # r) = ref_group (of_char x) (of_char y) (of_char z) @ ref_encode r"

section \<open>A group of table entries\<close>

lemma or_add:
  fixes x y :: nat
  assumes "y < 2 ^ k"
  shows "2 ^ k * x OR y = 2 ^ k * x + y"
proof -
  have "bit (2 ^ k * x) n \<Longrightarrow> \<not> bit y n" for n
  proof
    assume "bit (2 ^ k * x) n" "bit y n"
    then have "bit (push_bit k x) n" "bit (take_bit k y) n"
      using assms by (simp_all add: push_bit_eq_mult ac_simps take_bit_nat_eq_self)
    then show False by (auto simp: bit_simps)
  qed
  then show ?thesis by (metis disjunctive_add)
qed

lemma place_or_little:
  assumes "u < 64" "v < 64" "w < 64" "x < 64"
  shows "place Little_Endian 0 u OR place Little_Endian 1 v OR place Little_Endian 2 w OR place Little_Endian 3 x =
    (4 * u + v div 16) + 256 * (16 * (v mod 16) + w div 4) + 65536 * (64 * (w mod 4) + x)"
proof -
  have p1: "place Little_Endian 1 v = 2 ^ 12 * (v mod 16) OR v div 16"
    using assms or_add [of "v div 16" 12 "v mod 16"] by simp
  have p2: "place Little_Endian 2 w = 2 ^ 22 * (w mod 4) OR 256 * (w div 4)"
    using assms or_add [of "256 * (w div 4)" 22 "w mod 4"] by simp
  have b0: "4 * u OR v div 16 = 4 * u + v div 16"
    using assms or_add [of "v div 16" 2 u] by simp
  have b1: "2 ^ 12 * (v mod 16) OR 256 * (w div 4) = 256 * (16 * (v mod 16) + w div 4)"
    using assms or_add [of "256 * (w div 4)" 12 "v mod 16"] by simp
  have b2: "2 ^ 22 * (w mod 4) OR 65536 * x = 65536 * (64 * (w mod 4) + x)"
    using assms or_add [of "65536 * x" 22 "w mod 4"] by simp
  have "place Little_Endian 0 u OR place Little_Endian 1 v OR place Little_Endian 2 w OR place Little_Endian 3 x =
      (2 ^ 22 * (w mod 4) OR 65536 * x) OR ((2 ^ 12 * (v mod 16) OR 256 * (w div 4)) OR (4 * u OR v div 16))"
    unfolding p1 p2 by (simp add: or.assoc or.commute or.left_commute)
  also have "\<dots> = 65536 * (64 * (w mod 4) + x) OR (256 * (16 * (v mod 16) + w div 4) OR (4 * u + v div 16))"
    unfolding b0 b1 b2 ..
  also have "256 * (16 * (v mod 16) + w div 4) OR (4 * u + v div 16) =
      256 * (16 * (v mod 16) + w div 4) + (4 * u + v div 16)"
    using assms or_add [of "4 * u + v div 16" 8 "16 * (v mod 16) + w div 4"] by simp
  also have "65536 * (64 * (w mod 4) + x) OR (256 * (16 * (v mod 16) + w div 4) + (4 * u + v div 16)) =
      65536 * (64 * (w mod 4) + x) + (256 * (16 * (v mod 16) + w div 4) + (4 * u + v div 16))"
  proof -
    have "v mod 16 < 16" "w div 4 < 16" "v div 16 < 4" using assms by simp_all
    then have "256 * (16 * (v mod 16) + w div 4) + (4 * u + v div 16) < 2 ^ 16"
      using assms(1) by simp
    from or_add [OF this, of "64 * (w mod 4) + x"] show ?thesis by simp
  qed
  finally show ?thesis by simp
qed

lemma place_or_big:
  assumes "u < 64" "v < 64" "w < 64" "x < 64"
  shows "place Big_Endian 0 u OR place Big_Endian 1 v OR place Big_Endian 2 w OR place Big_Endian 3 x =
    262144 * u + 4096 * v + 64 * w + x"
proof -
  have "64 * w OR x = 64 * w + x" "4096 * v OR (64 * w + x) = 4096 * v + (64 * w + x)"
    "262144 * u OR (4096 * v + (64 * w + x)) = 262144 * u + (4096 * v + (64 * w + x))"
    using assms or_add [of x 6 w] or_add [of "64 * w + x" 12 v] or_add [of "4096 * v + (64 * w + x)" 18 u]
    by simp_all
  then show ?thesis by (simp add: or.assoc)
qed

lemma group_bytes_of_nat:
  assumes "N < 2 ^ 24"
  shows "map (\<lambda>i. char_of_byte (temp_bytes host (of_nat N) ! decidx host i)) [0..<3] =
    (case host of
       Little_Endian \<Rightarrow> [char_of N, char_of (N div 256), char_of (N div 65536)]
     | Big_Endian \<Rightarrow> [char_of (N div 65536), char_of (N div 256), char_of N])"
proof -
  have u: "unat (of_nat N :: 32 word) = N" using assms by (simp add: unat_of_nat)
  have "char_of_byte (ucast (drop_bit k (of_nat N :: 32 word))) = char_of (N div 2 ^ k)" for k
  proof -
    have "unat (ucast (drop_bit k (of_nat N :: 32 word)) :: byte) = N div 2 ^ k mod 256"
      using unat_drop_bit_eq [of k "of_nat N :: 32 word"]
      by (simp only: unsigned_ucast_eq u drop_bit_eq_div) (simp add: take_bit_eq_mod)
    then show ?thesis by (simp add: char_of_byte_def)
  qed
  from this [of 0] this [of 8] this [of 16] show ?thesis
    by (cases host) (simp_all add: temp_bytes_def decidx_def upt_rec)
qed

text \<open>The value a group's table entries combine to.\<close>

definition entries :: "byte_order \<Rightarrow> string \<Rightarrow> 32 word" where
  "entries host cs = foldr (\<lambda>(k, c) w. entry host k c OR w) (enumerate 0 cs) 0"

lemma three_bytes:
  fixes b0 b1 b2 :: nat
  assumes "b0 < 256" "b1 < 256" "b2 < 256" "N = b0 + 256 * b1 + 65536 * b2"
  shows "N < 2 ^ 24 \<and> [char_of N, char_of (N div 256), char_of (N div 65536)] =
    ([char_of b0, char_of b1, char_of b2] :: string)"
proof -
  have N': "N = b0 + (b1 + b2 * 256) * 256" using assms(4) by simp
  have d: "N div 256 = b1 + b2 * 256" using assms(1) unfolding N' by simp
  have "N div 65536 = N div 256 div 256" by (simp add: div_mult2_eq [symmetric])
  then have "N div 65536 = b2" using assms(2) d by simp
  moreover have "N mod 256 = b0 mod 256" by (simp only: N' mod_mult_self1)
  moreover have "(N div 256) mod 256 = b1 mod 256" unfolding d by simp
  moreover have "N < 2 ^ 24" using assms by simp
  ultimately show ?thesis by (metis char_of_mod_256)
qed

lemma quad_value:
  assumes "u < 64" "v < 64" "w < 64" "x < 64"
    and "N = place host 0 u OR place host 1 v OR place host 2 w OR place host 3 x"
  shows "N < 2 ^ 24 \<and>
    map (\<lambda>i. char_of_byte (temp_bytes host (of_nat N) ! decidx host i)) [0..<3] = quad_bytes [u, v, w, x]"
proof -
  define b0 b1 b2 where
    "b0 = 4 * u + v div 16" and "b1 = 16 * (v mod 16) + w div 4" and "b2 = 64 * (w mod 4) + x"
  have "v mod 16 < 16" "w div 4 < 16" "v div 16 < 4" "w mod 4 < 4" using assms(2,3) by simp_all
  then have b: "b0 < 256" "b1 < 256" "b2 < 256"
    using assms(1,4) by (simp_all add: b0_def b1_def b2_def)
  have q: "quad_bytes [u, v, w, x] = [char_of b0, char_of b1, char_of b2]"
    by (simp add: b0_def b1_def b2_def)
  show ?thesis
  proof (cases host)
    case Little_Endian
    then have "N = b0 + 256 * b1 + 65536 * b2"
      using place_or_little [OF assms(1-4)] assms(5) by (simp add: b0_def b1_def b2_def)
    from three_bytes [OF b this] show ?thesis
      unfolding q using group_bytes_of_nat [of N host] Little_Endian by simp
  next
    case Big_Endian
    obtain v1 v0 where v: "v div 16 = v1" "v mod 16 = v0" "v = 16 * v1 + v0"
      using mult_div_mod_eq [of 16 v] by metis
    obtain w1 w0 where w: "w div 4 = w1" "w mod 4 = w0" "w = 4 * w1 + w0"
      using mult_div_mod_eq [of 4 w] by metis
    have "262144 * u + 4096 * v + 64 * w + x = b2 + 256 * b1 + 65536 * b0"
      unfolding b0_def b1_def b2_def v(1,2) w(1,2) by (simp add: v(3) w(3))
    then have "N = b2 + 256 * b1 + 65536 * b0"
      using Big_Endian place_or_big [OF assms(1-4)] assms(5) by simp
    from three_bytes [OF b(3,2,1) this] show ?thesis
      unfolding q using group_bytes_of_nat [of N host] Big_Endian by simp
  qed
qed

lemma entries_bad:
  assumes "\<exists>c \<in> set cs. sextet c = None"
  shows "bad_char \<le> foldr (\<lambda>(k, c) w. entry host k c OR w) (enumerate j cs) w"
  using assms
proof (induction cs arbitrary: j)
  case Nil
  then show ?case by simp
next
  case (Cons c cs)
  show ?case
  proof (cases "sextet c")
    case None
    then show ?thesis by (simp add: entry_def le_word_or2)
  next
    case (Some v)
    with Cons have "bad_char \<le> foldr (\<lambda>(k, c) w. entry host k c OR w) (enumerate (Suc j) cs) w" by auto
    then show ?thesis by (auto intro: order_trans [OF _ le_word_or1])
  qed
qed

lemma sextets_eq_None: "sextets cs = None \<longleftrightarrow> (\<exists>c \<in> set cs. sextet c = None)"
  by (induction cs) (auto split: option.splits)

lemma entries_places:
  assumes "sextets cs = Some vs"
  shows "foldr (\<lambda>(k, c) w. entry host k c OR w) (enumerate j cs) 0 =
    of_nat (foldr (\<lambda>(k, v) w. place host k v OR w) (enumerate j vs) 0)"
  using assms
proof (induction cs arbitrary: j vs)
  case Nil
  then show ?case by simp
next
  case (Cons c cs)
  then obtain v vs' where "sextet c = Some v" "sextets cs = Some vs'" "vs = v # vs'"
    by (auto split: option.splits)
  with Cons.IH [of vs' "Suc j"] show ?case by (simp add: entry_def of_nat_or_eq)
qed

lemma sextets_length: "sextets cs = Some vs \<Longrightarrow> length vs = length cs \<and> (\<forall>v \<in> set vs. v < 64)"
  by (induction cs arbitrary: vs) (auto simp: sextet_less split: option.splits)

lemma length_4E:
  assumes "length xs = 4"
  obtains a b c d where "xs = [a, b, c, d]"
  using assms that by (auto simp: length_Suc_conv numeral_eq_Suc)

lemma prefix_4E:
  assumes "4 \<le> length xs"
  obtains a b c d r where "xs = a # b # c # d # r"
  using assms that by (auto simp: Suc_le_length_iff numeral_eq_Suc)

text \<open>The core of the decoder: what the table entries of a group mean.\<close>

lemma group_bytes_entries:
  assumes "length cs \<in> {2, 3, 4}"
  shows "group_bytes host (entries host cs) (length cs - 1) =
    (case decode_group cs of None \<Rightarrow> Inl invalid_character | Some s \<Rightarrow> Inr s)"
proof (cases "sextets cs")
  case None
  then have "bad_char \<le> entries host cs"
    using entries_bad [of cs host 0 0] by (simp add: entries_def sextets_eq_None)
  with None show ?thesis by (simp add: group_bytes_def decode_group_def)
next
  case (Some vs)
  define zs where "zs = vs @ replicate (4 - length cs) 0"
  have len: "length vs = length cs" "\<forall>v \<in> set vs. v < 64" using sextets_length [OF Some] by auto
  then have "length zs = 4" "\<forall>v \<in> set zs. v < 64" using assms by (auto simp: zs_def)
  then obtain u v w x where zs: "zs = [u, v, w, x]" "u < 64" "v < 64" "w < 64" "x < 64"
    by (auto elim!: length_4E)
  define N where "N = place host 0 u OR place host 1 v OR place host 2 w OR place host 3 x"
  have q: "N < 2 ^ 24" "map (\<lambda>i. char_of_byte (temp_bytes host (of_nat N) ! decidx host i)) [0..<3] = quad_bytes zs"
    using quad_value [OF zs(2-5) N_def] zs(1) by auto
  have "entries host cs = of_nat (foldr (\<lambda>(k, v) w. place host k v OR w) (enumerate 0 vs) 0)"
    unfolding entries_def by (rule entries_places [OF Some])
  also have "foldr (\<lambda>(k, v) w. place host k v OR w) (enumerate 0 vs) 0 = N"
  proof -
    have vs: "vs = take (length cs) [u, v, w, x]" "drop (length cs) [u, v, w, x] = replicate (4 - length cs) 0"
      using len(1) unfolding zs(1) [symmetric] zs_def by simp_all
    have zero: "place host 2 0 = 0" "place host 3 0 = 0" "place host (Suc (Suc 0)) 0 = 0"
      "place host (Suc (Suc (Suc 0))) 0 = 0"
      by (cases host; simp)+
    from assms consider "length cs = 2" | "length cs = 3" | "length cs = 4" by blast
    then show ?thesis
      using vs by cases (simp_all add: N_def zero numeral_eq_Suc)
  qed
  finally have e: "entries host cs = of_nat N" .
  have "unat (of_nat N :: 32 word) = N" using q(1) by (simp add: unat_of_nat)
  then have small: "\<not> bad_char \<le> entries host cs"
    using q(1) unfolding e by (simp add: word_le_nat_alt bad_char_def)
  have "map (\<lambda>i. char_of_byte (temp_bytes host (entries host cs) ! decidx host i)) [0..<length cs - 1] =
      take (length cs - 1) (map (\<lambda>i. char_of_byte (temp_bytes host (of_nat N) ! decidx host i)) [0..<3])"
    using assms unfolding e by (auto simp: take_map upt_rec)
  also have "\<dots> = take (length cs - 1) (quad_bytes zs)"
    unfolding q(2) ..
  finally show ?thesis
    using small Some by (simp add: group_bytes_def decode_group_def zs_def)
qed

section \<open>The decoder refines the reference\<close>

lemma byte_table [simp]:
  "k < 4 \<Longrightarrow> decode_table host k ! of_char c = entry host k c"
  using nth_decode_runs [of "of_char c" host k] by (simp add: decode_table_runs)

lemma entries_simps:
  "entries host [a, b] = entry host 0 a OR entry host 1 b"
  "entries host [a, b, c] = entry host 0 a OR entry host 1 b OR entry host 2 c"
  "entries host [a, b, c, d] = entry host 0 a OR entry host 1 b OR entry host 2 c OR entry host 3 d"
  by (simp_all add: entries_def numeral_eq_Suc)

lemma decode_group_length:
  "decode_group cs = Some s \<Longrightarrow> length cs \<in> {2, 3, 4} \<Longrightarrow> length s = length cs - 1"
proof -
  assume "decode_group cs = Some s" and len: "length cs \<in> {2, 3, 4}"
  then obtain vs where "sextets cs = Some vs"
    and s: "s = take (length cs - 1) (quad_bytes (vs @ replicate (4 - length cs) 0))"
    by (auto simp: decode_group_def)
  then have "length (vs @ replicate (4 - length cs) 0) = 4"
    using sextets_length [of cs vs] len by auto
  then obtain a b c d where "vs @ replicate (4 - length cs) 0 = [a, b, c, d]"
    by (rule length_4E)
  with s len show ?thesis by auto
qed

text \<open>The reference for the full groups alone, one step of the loop each.\<close>

fun ref_groups :: "nat \<Rightarrow> string \<Rightarrow> string option" where
  "ref_groups 0 cs = Some []"
| "ref_groups (Suc i) (a # b # c # d # r) =
     (case decode_group [a, b, c, d] of None \<Rightarrow> None | Some s \<Rightarrow> map_option ((@) s) (ref_groups i r))"
| "ref_groups (Suc i) _ = None"

lemma decode_loop_step:
  "decode_loop host (Suc i) (map byte_of_char (a # b # c # d # r), out) =
    (case decode_group [a, b, c, d] of
       None \<Rightarrow> Inl invalid_character
     | Some s \<Rightarrow> bind (fold_result emit s out) (\<lambda>out1. decode_loop host i (map byte_of_char r, out1)))"
proof -
  have "group_bytes host (entries host [a, b, c, d]) 3 =
      (case decode_group [a, b, c, d] of None \<Rightarrow> Inl invalid_character | Some s \<Rightarrow> Inr s)"
    using group_bytes_entries [of "[a, b, c, d]" host] by (simp add: numeral_eq_Suc)
  then show ?thesis
    by (cases "decode_group [a, b, c, d]") (simp_all add: next_byte_def entries_simps)
qed

lemma decode_loop_groups:
  assumes "4 * i \<le> length cs" "length (written out) + 3 * i \<le> capacity out"
  shows "decode_loop host i (map byte_of_char cs, out) =
    (case ref_groups i cs of
       None \<Rightarrow> Inl invalid_character
     | Some s \<Rightarrow> Inr (map byte_of_char (drop (4 * i) cs), out\<lparr>written := written out @ s\<rparr>)) \<and>
    (\<forall>s. ref_groups i cs = Some s \<longrightarrow> length s = 3 * i)"
  using assms
proof (induction i arbitrary: cs out)
  case 0
  then show ?case by simp
next
  case (Suc i)
  then have "4 \<le> length cs" by simp
  then obtain a b c d r where cs: "cs = a # b # c # d # r" by (rule prefix_4E)
  show ?case
  proof (cases "decode_group [a, b, c, d]")
    case None
    then show ?thesis
      unfolding cs decode_loop_step by simp
  next
    case (Some s)
    have len: "length s = 3" using decode_group_length [OF Some] by simp
    let ?out = "out\<lparr>written := written out @ s\<rparr>"
    have e: "fold_result emit s out = Inr ?out"
      using len Suc.prems(2) by (intro emit_all) simp
    have "4 * i \<le> length r" "length (written ?out) + 3 * i \<le> capacity ?out"
      using Suc.prems len cs by simp_all
    note IH = Suc.IH [OF this]
    have step: "decode_loop host (Suc i) (map byte_of_char cs, out) = decode_loop host i (map byte_of_char r, ?out)"
      unfolding cs decode_loop_step Some by (simp add: e)
    have rest: "drop (4 * Suc i) cs = drop (4 * i) r"
      unfolding cs mult_Suc_right by (simp add: numeral_eq_Suc)
    show ?thesis
      unfolding step rest using IH len Some by (cases "ref_groups i r") (simp_all add: cs)
  qed
qed

lemma decode_tail_groups:
  "decode_tail host 1 (map byte_of_char [a, b, c, d]) out =
    (case decode_group [a, b, c] of None \<Rightarrow> Inl invalid_character | Some s \<Rightarrow> fold_result emit s out)"
  "decode_tail host 2 (map byte_of_char [a, b, c, d]) out =
    (case decode_group [a, b] of None \<Rightarrow> Inl invalid_character | Some s \<Rightarrow> fold_result emit s out)"
proof -
  have "group_bytes host (entries host [a, b, c]) 2 =
      (case decode_group [a, b, c] of None \<Rightarrow> Inl invalid_character | Some s \<Rightarrow> Inr s)"
    "group_bytes host (entries host [a, b]) 1 =
      (case decode_group [a, b] of None \<Rightarrow> Inl invalid_character | Some s \<Rightarrow> Inr s)"
    using group_bytes_entries [of "[a, b, c]" host] group_bytes_entries [of "[a, b]" host]
    by (simp_all add: numeral_eq_Suc)
  then show
    "decode_tail host 1 (map byte_of_char [a, b, c, d]) out =
      (case decode_group [a, b, c] of None \<Rightarrow> Inl invalid_character | Some s \<Rightarrow> fold_result emit s out)"
    "decode_tail host 2 (map byte_of_char [a, b, c, d]) out =
      (case decode_group [a, b] of None \<Rightarrow> Inl invalid_character | Some s \<Rightarrow> fold_result emit s out)"
    by (cases "decode_group [a, b, c]"; cases "decode_group [a, b]";
        simp add: decode_tail_def next_byte_def entries_simps)+
qed

definition last_group :: "char \<Rightarrow> char \<Rightarrow> char \<Rightarrow> char \<Rightarrow> string option" where
  "last_group a b c d =
     decode_group (if d = CHR ''='' then if c = CHR ''='' then [a, b] else [a, b, c] else [a, b, c, d])"

lemma map_option_append_Nil [simp]: "map_option ((@) []) x = x"
  by (cases x) auto

lemma append_append_fun: "(@) (x @ y) = (\<lambda>z. x @ y @ z)"
  by (rule ext) simp

lemma ref_decode_split:
  "length cs = 4 * m \<Longrightarrow>
    ref_decode (cs @ [a, b, c, d]) =
      (case ref_groups m cs of None \<Rightarrow> None | Some s \<Rightarrow> map_option ((@) s) (last_group a b c d))"
proof (induction m arbitrary: cs)
  case 0
  then show ?case by (simp add: last_group_def split: option.split)
next
  case (Suc m)
  then have "4 \<le> length cs" by simp
  then obtain p q u v r where cs: "cs = p # q # u # v # r" by (rule prefix_4E)
  with Suc.prems have "length r = 4 * m" by simp
  with Suc.IH [of r] show ?case
    unfolding cs by (simp add: option.map_comp comp_def append_append_fun split: option.split)
qed

lemma ref_groups_snoc:
  "length cs = 4 * m \<Longrightarrow>
    ref_groups (Suc m) (cs @ [a, b, c, d]) =
      (case ref_groups m cs of None \<Rightarrow> None | Some s \<Rightarrow> map_option ((@) s) (decode_group [a, b, c, d]))"
proof (induction m arbitrary: cs)
  case 0
  then show ?case by (simp split: option.split)
next
  case (Suc m)
  then have "4 \<le> length cs" by simp
  then obtain p q u v r where cs: "cs = p # q # u # v # r" by (rule prefix_4E)
  with Suc.prems have "length r = 4 * m" by simp
  with Suc.IH [of r] show ?case
    unfolding cs by (simp add: option.map_comp comp_def append_append_fun split: option.split)
qed

lemma ref_groups_prefix: "4 * m \<le> length cs \<Longrightarrow> ref_groups m (cs @ xs) = ref_groups m cs"
proof (induction m arbitrary: cs)
  case 0
  then show ?case by simp
next
  case (Suc m)
  then have "4 \<le> length cs" by simp
  then obtain p q u v r where cs: "cs = p # q # u # v # r" by (rule prefix_4E)
  with Suc.prems have "4 * m \<le> length r" by simp
  with Suc.IH [of r] show ?case unfolding cs by (cases "decode_group [p, q, u, v]") simp_all
qed

lemma decode_group_padding: "CHR ''='' \<in> set cs \<Longrightarrow> decode_group cs = None"
  using sextets_eq_None [of cs] by (force simp: decode_group_def)

text \<open>
  The code counts padding characters among the last four without looking where they stand; a
  misplaced one is caught by the tables.
\<close>

lemma last_group_padding:
  assumes "count_list [d, c, b, a] CHR ''='' = k"
  shows "last_group a b c d = (if k \<le> 2 then decode_group (take (4 - k) [a, b, c, d]) else None)"
proof -
  have bad: "CHR ''='' \<in> {a, b} \<Longrightarrow> last_group a b c d = None"
    by (auto simp: last_group_def intro!: decode_group_padding)
  have k: "k = (if a = CHR ''='' then 1 else 0) + (if b = CHR ''='' then 1 else 0) +
      (if c = CHR ''='' then 1 else 0) + (if d = CHR ''='' then 1 else 0)"
    unfolding assms [symmetric]
    by (cases "d = CHR ''=''"; cases "c = CHR ''=''"; cases "b = CHR ''=''"; simp)
  show ?thesis
  proof (cases "CHR ''='' \<in> {a, b}")
    case True
    then have "k \<le> 2 \<Longrightarrow> CHR ''='' \<in> set (take (4 - k) [a, b, c, d])"
      using k by (auto split: if_splits)
    then have "k \<le> 2 \<Longrightarrow> decode_group (take (4 - k) [a, b, c, d]) = None"
      using decode_group_padding by blast
    with bad [OF True] show ?thesis by simp
  next
    case False
    then have ab: "a \<noteq> CHR ''=''" "b \<noteq> CHR ''=''" by auto
    show ?thesis
    proof (cases "c = CHR ''='' \<and> d \<noteq> CHR ''=''")
      case True
      have "decode_group [a, b, CHR ''='', d] = None" "decode_group [a, b, CHR ''=''] = None"
        by (rule decode_group_padding, simp)+
      with True ab k show ?thesis by (simp add: last_group_def)
    next
      case other: False
      with ab k show ?thesis by (auto simp: last_group_def)
    qed
  qed
qed

text \<open>A padded last group, for one or two padding signs.\<close>

lemma decode_tail_padded:
  assumes "pad = 1 \<or> pad = 2"
  shows "decode_tail host pad (map byte_of_char [a, b, c, d]) out =
      (case decode_group (take (4 - pad) [a, b, c, d]) of
         None \<Rightarrow> Inl invalid_character | Some s \<Rightarrow> fold_result emit s out)"
    "decode_group (take (4 - pad) [a, b, c, d]) = Some s \<Longrightarrow> length s = 3 - pad"
proof -
  show "decode_tail host pad (map byte_of_char [a, b, c, d]) out =
      (case decode_group (take (4 - pad) [a, b, c, d]) of
         None \<Rightarrow> Inl invalid_character | Some s \<Rightarrow> fold_result emit s out)"
    using assms by (elim disjE) (simp_all only: decode_tail_groups, simp_all)
  show "length s = 3 - pad" if "decode_group (take (4 - pad) [a, b, c, d]) = Some s"
    using decode_group_length [OF that] assms by (elim disjE) simp_all
qed

text \<open>All groups but the last and then the last one, into the output buffer of the decoder.\<close>

lemma decode_groups_padded:
  assumes "length cs = 4 * m" "pad = 1 \<or> pad = 2" "capacity out = 3 * Suc m - pad" "written out = []"
  shows "bind (decode_loop host m (map byte_of_char (cs @ [a, b, c, d]), out)) (\<lambda>(bytes, out).
      bind (decode_tail host pad bytes out) (\<lambda>out. Inr (buffer_contents CHR ''.'' out))) =
    (case ref_groups m cs of
       None \<Rightarrow> Inl invalid_character
     | Some s \<Rightarrow>
         (case decode_group (take (4 - pad) [a, b, c, d]) of
            None \<Rightarrow> Inl invalid_character
          | Some s' \<Rightarrow> Inr (s @ s')))"
proof -
  have grp: "ref_groups m (cs @ [a, b, c, d]) = ref_groups m cs" "drop (4 * m) (cs @ [a, b, c, d]) = [a, b, c, d]"
    using assms(1) ref_groups_prefix [of m cs] by simp_all
  have loop: "decode_loop host m (map byte_of_char (cs @ [a, b, c, d]), out) =
      (case ref_groups m cs of None \<Rightarrow> Inl invalid_character
       | Some s \<Rightarrow> Inr (map byte_of_char [a, b, c, d], out\<lparr>written := written out @ s\<rparr>)) \<and>
      (\<forall>s. ref_groups m cs = Some s \<longrightarrow> length s = 3 * m)"
    using assms decode_loop_groups [of m "cs @ [a, b, c, d]" out host] unfolding grp by auto
  note tail = decode_tail_padded [OF assms(2)]
  show ?thesis
  proof (cases "ref_groups m cs")
    case None
    with loop show ?thesis by simp
  next
    case (Some s)
    show ?thesis
    proof (cases "decode_group (take (4 - pad) [a, b, c, d])")
      case None
      with loop Some tail(1) show ?thesis by simp
    next
      case tl: (Some s')
      have len: "length (s @ s') = capacity out" using tail(2) [OF tl] loop Some assms(2,3) by auto
      then have "fold_result emit s' (out\<lparr>written := s\<rparr>) = Inr (out\<lparr>written := s @ s'\<rparr>)"
        using emit_all [of "out\<lparr>written := s\<rparr>" s'] by simp
      with loop Some tail(1) tl len assms(4) show ?thesis by (simp add: buffer_contents_def)
    qed
  qed
qed

lemma decode_text_groups:
  assumes "length cs = 4 * m"
  shows "case ref_decode (cs @ [a, b, c, d]) of
      Some s \<Rightarrow> decode_text host (cs @ [a, b, c, d]) = Inr s
    | None \<Rightarrow> \<exists>msg. decode_text host (cs @ [a, b, c, d]) = Inl (Runtime_error msg)"
proof -
  define t where "t = cs @ [a, b, c, d]"
  define pad where "pad = count_list [d, c, b, a] CHR ''=''"
  let ?out = "\<lparr>written = [], capacity = 3 * Suc m - pad\<rparr>"
  have last4: "take 4 (rev t) = [d, c, b, a]" by (simp add: t_def)
  have len: "length t div 4 = Suc m" "length t mod 4 = 0" "length t * 3 div 4 = 3 * Suc m" "t \<noteq> []"
    using assms by (simp_all add: t_def)
  note code = decode_text_def [of host t, unfolded last4 len Let_def, folded pad_def]
  note ref = ref_decode_split [OF assms, of a b c d, folded t_def, unfolded
      last_group_padding [OF pad_def [symmetric]]]
  consider "2 < pad" | "pad = 0" | "pad = 1 \<or> pad = 2" by linarith
  then show ?thesis
  proof cases
    case 1
    with code len(4) have "decode_text host t = Inl (Runtime_error ''Invalid base64 encoded data - Found more than 2 padding signs'')"
      by simp
    with 1 show ?thesis
      unfolding t_def [symmetric] ref by (simp split: option.split)
  next
    case 2
    have "decode_loop host (Suc m) (map byte_of_char t, ?out) =
      (case ref_groups (Suc m) t of None \<Rightarrow> Inl invalid_character
       | Some s \<Rightarrow> Inr (map byte_of_char (drop (4 * Suc m) t), ?out\<lparr>written := written ?out @ s\<rparr>)) \<and>
      (\<forall>s. ref_groups (Suc m) t = Some s \<longrightarrow> length s = 3 * Suc m)"
      using assms 2 by (intro decode_loop_groups) (simp_all add: t_def)
    with ref_groups_snoc [OF assms, of a b c d, folded t_def] 2 code len(4) show ?thesis
      unfolding t_def [symmetric] ref
      by (cases "ref_groups m cs"; cases "decode_group [a, b, c, d]")
        (simp_all add: buffer_contents_def decode_tail_def)
  next
    case 3
    then have "decode_text host t =
        bind (decode_loop host m (map byte_of_char t, ?out)) (\<lambda>(bytes, out).
        bind (decode_tail host pad bytes out) (\<lambda>out. Inr (buffer_contents CHR ''.'' out)))"
      using code len(4) by auto
    also have "\<dots> = (case ref_groups m cs of
       None \<Rightarrow> Inl invalid_character
     | Some s \<Rightarrow> (case decode_group (take (4 - pad) [a, b, c, d]) of
            None \<Rightarrow> Inl invalid_character
          | Some s' \<Rightarrow> Inr (s @ s')))"
      unfolding t_def by (rule decode_groups_padded [OF assms 3]) simp_all
    finally show ?thesis
      using 3 unfolding t_def [symmetric] ref by (auto split: option.split)
  qed
qed

lemma ref_decode_length: "ref_decode t = Some s \<Longrightarrow> length t mod 4 = 0"
  by (induction t arbitrary: s rule: ref_decode.induct) (auto split: if_splits option.splits)

lemma decode_text_refines:
  "case ref_decode t of
     Some s \<Rightarrow> decode_text host t = Inr s
   | None \<Rightarrow> \<exists>msg. decode_text host t = Inl (Runtime_error msg)"
proof (cases "length t mod 4 = 0 \<and> t \<noteq> []")
  case True
  then have "4 \<le> length (rev t)" by (cases "length t < 4") auto
  then obtain a b c d r where "rev t = a # b # c # d # r" by (rule prefix_4E)
  then have t: "t = rev r @ [d, c, b, a]" by (metis rev_rev_ident rev.simps append.assoc append_Cons append_Nil)
  with True have "length (rev r) mod 4 = 0" by simp
  then obtain m where "length (rev r) = 4 * m" by (auto simp: mod_eq_0_iff_dvd dvd_def)
  from decode_text_groups [OF this] show ?thesis unfolding t .
next
  case False
  then show ?thesis
    using ref_decode_length [of t] by (cases "ref_decode t"; cases "t = []") (auto simp: decode_text_def)
qed

section \<open>The encoder refines the reference\<close>

lemma nth_concat_replicate:
  "0 < k \<Longrightarrow> n < k * length xs \<Longrightarrow> concat (map (replicate k) xs) ! n = xs ! (n div k)"
proof (induction xs arbitrary: n)
  case Nil
  then show ?case by simp
next
  case (Cons x xs)
  show ?case
  proof (cases "n < k")
    case True
    then show ?thesis by (simp add: nth_append)
  next
    case False
    then have "n div k = Suc ((n - k) div k)" using Cons.prems(1) by (simp add: le_div_geq)
    with False Cons.IH [of "n - k"] Cons.prems show ?thesis by (simp add: nth_append)
  qed
qed

lemma nth_replicate_concat:
  "n < k * length xs \<Longrightarrow> concat (replicate k xs) ! n = xs ! (n mod length xs)"
proof (induction k arbitrary: n)
  case 0
  then show ?case by simp
next
  case (Suc k)
  then show ?case by (cases "n < length xs") (simp_all add: nth_append le_mod_geq)
qed

lemma alphabet_length: "length alphabet = 64"
  by code_simp

lemma enc0_char: "enc0 t = b64_char (unat t div 4)"
proof -
  have "unat t < 4 * length alphabet" using unsigned_less [of t, where 'a = nat] by (simp add: alphabet_length)
  then have "enc0 t = alphabet ! (unat t div 4)"
    unfolding enc0_def encode_tables by (intro nth_concat_replicate) simp_all
  moreover have "unat t div 4 < 64" using unsigned_less [of t, where 'a = nat] by simp
  ultimately show ?thesis by (simp add: b64_char_def)
qed

lemma enc1_char: "enc1 t = b64_char (unat t)"
proof -
  have "unat t < 4 * length alphabet" using unsigned_less [of t, where 'a = nat] by (simp add: alphabet_length)
  then have "enc1 t = alphabet ! (unat t mod length alphabet)"
    unfolding enc1_def encode_tables by (rule nth_replicate_concat)
  then show ?thesis by (simp add: b64_char_def alphabet_length)
qed

lemma nat_and_mask: "n AND 3 = n mod 4" "n AND 15 = n mod 16" for n :: nat
  using take_bit_eq_mask [of 2 n] take_bit_eq_mask [of 4 n]
  by (simp_all add: take_bit_eq_mod mask_eq_exp_minus_1)

lemma sextet_index:
  "unat (push_bit 4 (s AND 0x03) OR (drop_bit 4 t AND 0x0F)) = 16 * (unat s mod 4) + unat t div 16"
  "unat (push_bit 2 (s AND 0x0F) OR (drop_bit 6 t AND 0x03)) = 4 * (unat s mod 16) + unat t div 64"
  "unat (push_bit 4 (s AND 0x03)) = 16 * (unat s mod 4)"
  "unat (push_bit 2 (s AND 0x0F)) = 4 * (unat s mod 16)" for s t :: byte
proof -
  have t: "unat t div 16 < 16" "unat t div 64 < 4" using unsigned_less [of t, where 'a = nat] by simp_all
  have m: "16 * (unat s mod 4) < 256" "4 * (unat s mod 16) < 256"
    using mod_less_divisor [of 4 "unat s"] mod_less_divisor [of 16 "unat s"] by linarith+
  have numerals: "unat (0x03 :: byte) = 3" "unat (0x0F :: byte) = 15" by simp_all
  show p: "unat (push_bit 4 (s AND 0x03)) = 16 * (unat s mod 4)"
    "unat (push_bit 2 (s AND 0x0F)) = 4 * (unat s mod 16)"
    unfolding unsigned_push_bit_eq unsigned_and_eq numerals nat_and_mask
    unfolding push_bit_eq_mult take_bit_eq_mod
    using m by (simp_all add: mult.commute)
  show "unat (push_bit 4 (s AND 0x03) OR (drop_bit 4 t AND 0x0F)) = 16 * (unat s mod 4) + unat t div 16"
    unfolding unsigned_or_eq p unsigned_and_eq numerals nat_and_mask unat_drop_bit_eq
    unfolding drop_bit_eq_div
    using or_add [of "unat t div 16" 4 "unat s mod 4"] t by simp
  show "unat (push_bit 2 (s AND 0x0F) OR (drop_bit 6 t AND 0x03)) = 4 * (unat s mod 16) + unat t div 64"
    unfolding unsigned_or_eq p unsigned_and_eq numerals nat_and_mask unat_drop_bit_eq
    unfolding drop_bit_eq_div
    using or_add [of "unat t div 64" 2 "unat s mod 16"] t by simp
qed

lemma encode_group_ref:
  "encode_group (byte_of_char x) (byte_of_char y) (byte_of_char z) =
   ref_group (of_char x) (of_char y) (of_char z)"
  unfolding encode_group_def enc0_char enc1_char sextet_index unat_byte_of_char ref_group_def
  by (simp add: b64_char_def)

lemma encode_loop_ref:
  "encode_loop (length cs div 3) (map byte_of_char cs, out) =
     (case fold_result emit (ref_encode (take (3 * (length cs div 3)) cs)) out of
        Inl e \<Rightarrow> Inl e
      | Inr out1 \<Rightarrow> Inr (map byte_of_char (drop (3 * (length cs div 3)) cs), out1))"
proof (induction cs arbitrary: out rule: ref_encode.induct)
  case (4 x y z r)
  have len: "length (x # y # z # r) div 3 = Suc (length r div 3)" by simp
  have parts: "take (3 * Suc k) (x # y # z # r) = x # y # z # take (3 * k) r"
    "drop (3 * Suc k) (x # y # z # r) = drop (3 * k) r" for k
    by (simp_all add: numeral_eq_Suc)
  show ?case
    unfolding len parts using 4
    by (cases "fold_result emit (ref_group (of_char x) (of_char y) (of_char z)) out")
      (simp_all add: next_byte_def encode_group_ref fold_result_append)
qed simp_all

lemma ref_encode_length: "length (ref_encode cs) = (length cs div 3 + (if 0 < length cs mod 3 then 1 else 0)) * 4"
proof (induction cs rule: ref_encode.induct)
  case (4 x y z r)
  have "length (x # y # z # r) div 3 = Suc (length r div 3)" by simp
  with 4 show ?case by (simp add: ref_group_def)
qed (simp_all add: ref_group_def)

lemma ref_encode_append: "length xs = 3 * m \<Longrightarrow> ref_encode (xs @ ys) = ref_encode xs @ ref_encode ys"
proof (induction m arbitrary: xs)
  case 0
  then show ?case by simp
next
  case (Suc m)
  then obtain x y z r where xs: "xs = x # y # z # r"
    by (cases xs rule: ref_encode.cases) auto
  with Suc.prems have "length r = 3 * m" by simp
  from Suc.IH [OF this] show ?case by (simp add: xs)
qed

text \<open>The characters of the last, incomplete group without its padding.\<close>

fun tail_body :: "string \<Rightarrow> string" where
  "tail_body [x] = take 2 (ref_group (of_char x) 0 0)"
| "tail_body [x, y] = take 3 (ref_group (of_char x) (of_char y) 0)"
| "tail_body _ = []"

lemma short_list:
  fixes ys :: string
  assumes "length ys < 3"
  obtains "ys = []" | x where "ys = [x]" | x y where "ys = [x, y]"
  using assms by (cases ys rule: tail_body.cases) auto

lemma ref_encode_short:
  "length ys < 3 \<Longrightarrow> ref_encode ys = tail_body ys @ replicate (length (ref_encode ys) - length (tail_body ys)) CHR ''=''"
  by (cases ys rule: tail_body.cases) (simp_all add: ref_group_def)

lemma encode_tail_body:
  assumes "length ys < 3" "length (written out) + length (tail_body ys) \<le> capacity out"
  shows "encode_tail (length ys) (map byte_of_char ys) out = Inr (out\<lparr>written := written out @ tail_body ys\<rparr>)"
proof -
  have one: "[enc0 (byte_of_char x), enc1 (push_bit 4 (byte_of_char x AND 0x03))] = tail_body [x]" for x
    unfolding enc0_char enc1_char sextet_index unat_byte_of_char by (simp add: ref_group_def)
  have two: "[enc0 (byte_of_char x), enc1 (push_bit 4 (byte_of_char x AND 0x03) OR (drop_bit 4 (byte_of_char y) AND 0x0F)),
         enc1 (push_bit 2 (byte_of_char y AND 0x0F))] = tail_body [x, y]" for x y
    unfolding enc0_char enc1_char sextet_index unat_byte_of_char by (simp add: ref_group_def)
  note e = emit_all [OF assms(2)]
  have run: "encode_tail 1 [s] out = fold_result emit [enc0 s, enc1 (push_bit 4 (s AND 0x03))] out"
    "encode_tail 2 [s, t] out = fold_result emit
      [enc0 s, enc1 (push_bit 4 (s AND 0x03) OR (drop_bit 4 t AND 0x0F)), enc1 (push_bit 2 (t AND 0x0F))] out"
    for s t
    by (simp_all add: encode_tail_def)
  from assms(1) show ?thesis
  proof (cases rule: short_list)
    case 1
    then show ?thesis by (simp add: encode_tail_def)
  next
    case (2 x)
    have "encode_tail 1 [byte_of_char x] out = fold_result emit (tail_body [x]) out"
      unfolding run one ..
    with e 2 show ?thesis by (simp del: tail_body.simps)
  next
    case (3 x y)
    have "encode_tail 2 [byte_of_char x, byte_of_char y] out = fold_result emit (tail_body [x, y]) out"
      unfolding run two ..
    with e 3 show ?thesis by (simp add: numeral_2_eq_2 del: tail_body.simps)
  qed
qed

lemma to_base64_refines: "to_base64 data = Inr (ref_encode data)"
proof -
  define q where "q = length data div 3"
  define xs ys where "xs = take (3 * q) data" and "ys = drop (3 * q) data"
  have split: "data = xs @ ys" by (simp add: xs_def ys_def)
  have lx: "length xs = 3 * q" and ly: "length ys = length data mod 3"
    by (simp_all add: xs_def ys_def q_def minus_div_mult_eq_mod [symmetric] ac_simps)
  let ?out = "\<lparr>written = [], capacity = (q + (if 0 < length data mod 3 then 1 else 0)) * 4\<rparr>"
  have cap: "capacity ?out = length (ref_encode data)" by (simp add: ref_encode_length q_def)
  have parts: "ref_encode data = ref_encode xs @ ref_encode ys"
    unfolding split by (rule ref_encode_append [OF lx])
  have short: "length ys < 3" by (simp add: ly)
  note body = ref_encode_short [OF short]
  have len: "length (ref_encode ys) = length (tail_body ys) + (length (ref_encode ys) - length (tail_body ys))"
    using arg_cong [OF body, of length] by simp
  have "fold_result emit (ref_encode xs) ?out = Inr (?out\<lparr>written := ref_encode xs\<rparr>)"
    using emit_all [of ?out "ref_encode xs"] cap parts by simp
  then have loop: "encode_loop q (map byte_of_char data, ?out) =
      Inr (map byte_of_char ys, ?out\<lparr>written := ref_encode xs\<rparr>)"
    using encode_loop_ref [of data ?out] by (simp add: q_def xs_def ys_def)
  have "length (written (?out\<lparr>written := ref_encode xs\<rparr>)) + length (tail_body ys) \<le>
      capacity (?out\<lparr>written := ref_encode xs\<rparr>)"
    using cap parts len by simp
  from encode_tail_body [OF short this]
  have tail: "encode_tail (length data mod 3) (map byte_of_char ys) (?out\<lparr>written := ref_encode xs\<rparr>) =
      Inr (?out\<lparr>written := ref_encode xs @ tail_body ys\<rparr>)"
    by (simp add: ly)
  have "capacity ?out - length (ref_encode xs @ tail_body ys) =
      length (ref_encode ys) - length (tail_body ys)"
    using cap parts by simp
  then have "buffer_contents CHR ''='' (?out\<lparr>written := ref_encode xs @ tail_body ys\<rparr>) =
      ref_encode xs @ tail_body ys @ replicate (length (ref_encode ys) - length (tail_body ys)) CHR ''=''"
    by (simp add: buffer_contents_def)
  also have "\<dots> = ref_encode data" unfolding parts using body by simp
  finally show ?thesis
    using loop tail by (simp add: to_base64_def Let_def q_def)
qed

section \<open>Round trip\<close>

lemma quad_ref:
  assumes "x < 256" "y < 256" "z < 256"
  shows "quad_bytes [x div 4 mod 64, (16 * (x mod 4) + y div 16) mod 64, (4 * (y mod 16) + z div 64) mod 64, z mod 64] =
    [char_of x, char_of y, char_of z]"
proof -
  have v: "y div 16 < 16" "z div 64 < 4" "x div 4 < 64" using assms by simp_all
  then have m: "(16 * (x mod 4) + y div 16) mod 64 = 16 * (x mod 4) + y div 16"
    "(4 * (y mod 16) + z div 64) mod 64 = 4 * (y mod 16) + z div 64" "x div 4 mod 64 = x div 4"
    using mod_less_divisor [of 4 x] mod_less_divisor [of 16 y] by (intro mod_less; linarith)+
  have "4 * (x div 4) + (16 * (x mod 4) + y div 16) div 16 = x"
    "16 * ((16 * (x mod 4) + y div 16) mod 16) + (4 * (y mod 16) + z div 64) div 4 = y"
    "64 * ((4 * (y mod 16) + z div 64) mod 4) + z mod 64 = z"
    using v by simp_all
  then show ?thesis by (simp only: m quad_bytes.simps)
qed

lemma decode_ref_group:
  "decode_group (ref_group (of_char x) (of_char y) (of_char z)) = Some [x, y, z]"
  "decode_group (take 3 (ref_group (of_char x) (of_char y) 0)) = Some [x, y]"
  "decode_group (take 2 (ref_group (of_char x) 0 0)) = Some [x]"
proof -
  have b: "(of_char c :: nat) < 256" for c :: char by simp
  note q = quad_ref [OF b b b, of x y z] quad_ref [OF b b, of 0 x y] quad_ref [OF b, of 0 0 x]
  show "decode_group (ref_group (of_char x) (of_char y) (of_char z)) = Some [x, y, z]"
    "decode_group (take 3 (ref_group (of_char x) (of_char y) 0)) = Some [x, y]"
    "decode_group (take 2 (ref_group (of_char x) 0 0)) = Some [x]"
    using q by (simp_all add: decode_group_def ref_group_def replicate_numeral del: quad_bytes.simps)
qed

lemma b64_char_padding [simp]: "b64_char v \<noteq> CHR ''=''"
  using sextet_b64_char [of v] by (metis option.distinct(1) sextet_padding)

lemma ref_round_trip: "ref_decode (ref_encode cs) = Some cs"
proof (induction cs rule: ref_encode.induct)
  case (2 x)
  from decode_ref_group(3) [of x] show ?case by (simp add: ref_group_def)
next
  case (3 x y)
  from decode_ref_group(2) [of x y] show ?case by (simp add: ref_group_def)
next
  case (4 x y z r)
  from decode_ref_group(1) [of x y z] 4 show ?case by (simp add: ref_group_def)
qed simp

section \<open>Properties\<close>

text \<open>
  C39. The encoder is the reference encoder: for every string the table-driven loop returns the
  padded Base64 text of its bytes, reads no byte outside the input and writes none outside the
  allocated string.
\<close>

theorem base64_encodes_reference: "to_base64 data = Inr (ref_encode data)"
  by (rule to_base64_refines)

text \<open>
  C17. For either byte order of the host, whose tables, word layout and indices differ, the decoder
  accepts exactly the well-formed texts (groups of four alphabet characters, the last with at most
  two padding characters at its end) and returns the reference decoder's bytes; every other text is
  rejected by an exception, never by an access outside a buffer.
\<close>

theorem base64_decodes_reference:
  "(decode_text host t = Inr data \<longleftrightarrow> ref_decode t = Some data) \<and>
   (ref_decode t = None \<longleftrightarrow> (\<exists>msg. decode_text host t = Inl (Runtime_error msg)))"
  using decode_text_refines [of host t] by (auto split: option.splits)

text \<open>C18. Encoding and decoding round trip: every string is restored.\<close>

theorem base64_round_trip: "bind (to_base64 data) from_base64 = Inr data"
  using decode_text_refines [of Little_Endian "ref_encode data"]
  by (simp add: from_base64_def to_base64_refines ref_round_trip)

end
