(* ===== verification/Serializer_Write.thy ===== *)
theory Serializer_Write
  imports Properties Base64 Tcp_Conversation
begin

text \<open>
  The writing half of src/src/lib/conversation_serializer.cc: the script a conversation is dumped
  to. A script is a header of named values, then one block per action: a comment line as
  separator, the action's name, its attributes, and its data between two tags.
\<close>

section \<open>Names\<close>

definition ACTION_CONNECT :: string where [simp]: "ACTION_CONNECT = ''CONNECT''"
definition ACTION_SEND :: string where [simp]: "ACTION_SEND = ''SEND''"
definition ACTION_RECV :: string where [simp]: "ACTION_RECV = ''RECV''"
definition ACTION_CLOSE :: string where [simp]: "ACTION_CLOSE = ''CLOSE''"

definition TEST_ADDRESS_PROP :: string where "TEST_ADDRESS_PROP = ''TestAddress''"
definition TEST_PORT_PROP :: string where "TEST_PORT_PROP = ''TestPort''"
definition ENCODING_PROP :: string where "ENCODING_PROP = ''Encoding''"
definition PROTOCOL_PROP :: string where "PROTOCOL_PROP = ''Protocol''"
definition BASE64_ENCODING :: string where "BASE64_ENCODING = ''BASE64''"

definition data_start_tag :: string where "data_start_tag = ''<#DATA_START#>''"
definition data_end_tag :: string where "data_end_tag = ''<#DATA_END#>''"
definition subPrefix :: string where "subPrefix = ''${''"
definition subSuffix :: string where "subSuffix = ''}''"

abbreviation newline :: char where "newline \<equiv> CHR ''\<newline>''"

fun action_type_to_string :: "action_type \<Rightarrow> string" where
  "action_type_to_string CONNECT = ''CONNECT''"
| "action_type_to_string SEND = ''SEND''"
| "action_type_to_string RECV = ''RECV''"
| "action_type_to_string CLOSE = ''CLOSE''"

definition string_to_action_type :: "string \<Rightarrow> action_type result" where
  "string_to_action_type type =
     (if type = ACTION_CONNECT then Inr CONNECT
      else if type = ACTION_SEND then Inr SEND
      else if type = ACTION_RECV then Inr RECV
      else if type = ACTION_CLOSE then Inr CLOSE
      else Inl (Runtime_error (''invalid action type '' @ type)))"

lemma action_type_string [simp]: "string_to_action_type (action_type_to_string t) = Inr t"
  by (cases t) (simp_all add: string_to_action_type_def)

section \<open>The header\<close>

text \<open>
  The address is translated but never stored: only the protocol and the port are written.
  \<open>inet_ntop\<close> cannot fail for the two families, since the buffer is large enough for both.
\<close>

definition write_headers ::
  "(properties \<Rightarrow> properties) \<Rightarrow> string \<Rightarrow> 'a packet_conversation_scheme \<Rightarrow> string result" where
  "write_headers visit protocol c =
     (let props = props_put PROTOCOL_PROP protocol props_clear
      in if getAddressFamily c = AF_INET \<or> getAddressFamily c = AF_INET6 then
           (let port_str = to_string (unat (ntohs (sa_port (getTestSockAddr c))));
                props = props_put TEST_PORT_PROP port_str props
            in Inr (props_write visit props))
         else Inl (Runtime_error ''Unsupported address family''))"

section \<open>An action\<close>

text \<open>
  The scan for unprintable bytes: \<open>for (int i = data_size - 1; i >= 0 && i > data_size - 50; i--)\<close>.
  \<open>data_size\<close> is a 64-bit \<open>size_t\<close>, so \<open>i\<close> is compared as an unsigned number and the bound wraps
  around where fewer than 50 bytes are recorded. The counter here is \<open>i + 1\<close>.
\<close>

fun is_binary_loop :: "string \<Rightarrow> nat \<Rightarrow> bool" where
  "is_binary_loop d 0 = False"
| "is_binary_loop d (Suc i) =
     (if (of_nat (length d) - 50 :: 64 word) < of_nat i then
        (if \<not> isprint (d ! i) \<and> \<not> isspace (d ! i) then True else is_binary_loop d i)
      else False)"

definition is_binary :: "string \<Rightarrow> bool" where
  "is_binary d = is_binary_loop d (length d)"

definition write_action :: "(properties \<Rightarrow> properties) \<Rightarrow> action \<Rightarrow> string result" where
  "write_action visit a =
     bind (if is_binary (act_data a) then
             bind (to_base64 (act_data a)) (\<lambda>encoded.
               Inr (props_write visit (props_put ENCODING_PROP BASE64_ENCODING props_clear) @
                    data_start_tag @ [newline] @ encoded))
           else Inr (data_start_tag @ [newline] @ act_data a)) (\<lambda>body.
       Inr (action_type_to_string (act_type a) @ [newline] @ body @ data_end_tag @ [newline]))"

definition separator :: string where
  "separator = replicate 30 (CHR ''#'')"

fun write_actions :: "(properties \<Rightarrow> properties) \<Rightarrow> action list \<Rightarrow> string result" where
  "write_actions visit [] = Inr []"
| "write_actions visit (a # as) =
     bind (write_action visit a) (\<lambda>s.
     bind (write_actions visit as) (\<lambda>r.
       Inr ([newline] @ separator @ [newline, newline] @ s @ r)))"

definition write_script ::
  "(properties \<Rightarrow> properties) \<Rightarrow> string \<Rightarrow> 'a packet_conversation_scheme \<Rightarrow> string result" where
  "write_script visit protocol c =
     bind (write_headers visit protocol c) (\<lambda>h.
     bind (write_actions visit (getActionQueue c)) (\<lambda>s. Inr (h @ s)))"

section \<open>What is detected as binary\<close>

definition unprintable :: "char \<Rightarrow> bool" where
  "unprintable c \<longleftrightarrow> \<not> isprint c \<and> \<not> isspace c"

lemma is_binary_loop_tail:
  assumes "length d < 2 ^ 31" "n \<le> length d"
  shows "is_binary_loop d n \<longleftrightarrow>
    (50 \<le> length d \<and> (\<exists>i < n. length d - 50 < i \<and> unprintable (d ! i)))"
  using assms(2)
proof (induction n)
  case 0
  then show ?case by simp
next
  case (Suc n)
  have u: "unat (of_nat k :: 64 word) = k" if "k < 2 ^ 64" for k
    using that by (simp add: unat_of_nat)
  have bound: "(of_nat (length d) - 50 :: 64 word) < of_nat n \<longleftrightarrow> 50 \<le> length d \<and> length d - 50 < n"
  proof (cases "50 \<le> length d")
    case True
    have e: "(of_nat (length d) - 50 :: 64 word) = of_nat (length d - 50)"
      using True by (simp add: of_nat_diff)
    have "length d - 50 < 2 ^ 64" "n < 2 ^ 64" using assms(1) Suc.prems by simp_all
    with True show ?thesis unfolding e word_less_nat_alt by (simp only: u simp_thms)
  next
    case False
    have e: "(of_nat (length d) - 50 :: 64 word) = of_nat (2 ^ 64 + length d - 50)"
      using False by (simp add: of_nat_diff)
    have "2 ^ 64 + length d - 50 < 2 ^ 64" "n < 2 ^ 64 + length d - 50"
      using False Suc.prems assms(1) by simp_all
    moreover from this have "n < 2 ^ 64" by linarith
    ultimately have "\<not> (of_nat (length d) - 50 :: 64 word) < of_nat n"
      unfolding e word_less_nat_alt by (simp only: u not_less less_imp_le)
    with False show ?thesis by simp
  qed
  show ?case
  proof (cases "50 \<le> length d \<and> length d - 50 < n")
    case True
    with Suc bound show ?thesis
      by (auto simp: unprintable_def less_Suc_eq)
  next
    case False
    with bound show ?thesis by (auto simp: less_Suc_eq)
  qed
qed

lemma is_binary_tail:
  "length d < 2 ^ 31 \<Longrightarrow>
    is_binary d \<longleftrightarrow> 50 \<le> length d \<and> (\<exists>c \<in> set (drop (length d - 49) d). unprintable c)"
proof -
  have "(\<exists>i < length d. length d - 50 < i \<and> unprintable (d ! i)) \<longleftrightarrow>
      (\<exists>c \<in> set (drop (length d - 49) d). unprintable c)" if long: "50 \<le> length d"
  proof
    assume "\<exists>i < length d. length d - 50 < i \<and> unprintable (d ! i)"
    then obtain i where "i < length d" "length d - 49 \<le> i" "unprintable (d ! i)" by auto
    then show "\<exists>c \<in> set (drop (length d - 49) d). unprintable c"
      by (intro bexI [of _ "d ! i"]) (auto simp: in_set_conv_nth intro!: exI [of _ "i - (length d - 49)"])
  next
    assume "\<exists>c \<in> set (drop (length d - 49) d). unprintable c"
    then obtain j where "j < 49" "unprintable (d ! (length d - 49 + j))"
      using long by (force simp: in_set_conv_nth)
    then show "\<exists>i < length d. length d - 50 < i \<and> unprintable (d ! i)"
      using long by (intro exI [of _ "length d - 49 + j"]) auto
  qed
  moreover assume "length d < 2 ^ 31"
  ultimately show ?thesis
    unfolding is_binary_def by (auto simp: is_binary_loop_tail)
qed

section \<open>Properties\<close>

text \<open>
  A written table reads back: whatever the order in which the container visits its entries,
  putting the written lines into an empty table restores every key and value.
\<close>

theorem properties_round_trip:
  assumes "props_ok p" "\<forall>e \<in> set p. entry_ok e" "mset (visit p) = mset p"
  shows "map_of (put_lines (map props_line (visit p)) props_clear) = map_of p"
proof -
  have "set (visit p) = set p" using assms(3) by (rule mset_eq_setD)
  then have "\<forall>e \<in> set (visit p). entry_ok e" using assms(2) by simp
  moreover have "mset (rev (visit p)) = mset p" using assms(3) by simp
  ultimately show ?thesis
    using map_of_visit [OF assms(1), of "rev (visit p)"]
    by (simp add: put_lines_entries props_clear_def)
qed

text \<open>
  Only data of at least 50 bytes with an unprintable byte among the last 49 is written as
  Base64: shorter binary data, and data whose unprintable bytes come earlier, is written as text.
\<close>

theorem binary_detection:
  assumes "length (act_data a) < 2 ^ 31"
  shows "is_binary (act_data a) \<longleftrightarrow>
    50 \<le> length (act_data a) \<and> (\<exists>c \<in> set (drop (length (act_data a) - 49) (act_data a)). unprintable c)"
  by (rule is_binary_tail [OF assms])

section \<open>Witnesses\<close>

theorem properties_round_trip_witness:
  "map_of (put_lines (map props_line (rev [(''Protocol'', ''TCP''), (''TestPort'', ''80'')])) props_clear) =
    map_of [(''Protocol'', ''TCP''), (''TestPort'', ''80'')]"
  by (rule properties_round_trip [where visit = rev])
    (simp_all add: props_ok_def entry_ok_def trimmed_def isspace_def delimiter_def)

theorem binary_detection_witness:
  "\<not> is_binary [CHR 0x00, CHR 0x01] \<and> is_binary (replicate 60 (CHR 0x01))"
proof -
  have "unprintable CHR 0x01" by code_simp
  then show ?thesis
    using binary_detection [of "new_action_data SEND [CHR 0x00, CHR 0x01]"]
      binary_detection [of "new_action_data SEND (replicate 60 (CHR 0x01))"]
    by (simp add: new_action_data_def)
qed

end
