(* ===== verification/Serializer_Data.thy ===== *)
theory Serializer_Data
  imports Serializer_Write
begin

text \<open>
  \<open>ConversationSerializer::read_action_data\<close> of src/src/lib/conversation_serializer.cc: the
  chunked reader that looks for the end tag, with its fixed character buffer. A buffer cell that
  was never written is \<open>None\<close>; reading one is undefined. the size of the buffer is \<open>BUFSIZ\<close>, a
  parameter here. Two operations of the loop are undefined for short chunks: the range that is
  inserted ends before it begins where the window is shorter than the end tag, and the \<open>memcpy\<close> of the
  last characters to the front of the buffer overlaps where it is shorter than two end tags.
\<close>

section \<open>Reading from a stream\<close>

definition good :: "istream \<Rightarrow> bool" where
  "good st \<longleftrightarrow> \<not> eofbit st \<and> \<not> failbit st"

definition peek :: "istream \<Rightarrow> char option \<times> istream" where
  "peek st =
     (if \<not> good st then (None, st\<lparr>failbit := True\<rparr>)
      else case rest st of [] \<Rightarrow> (None, st\<lparr>eofbit := True\<rparr>) | c # _ \<Rightarrow> (Some c, st))"

text \<open>\<open>input.get()\<close>: one character.\<close>

definition get_char :: "istream \<Rightarrow> char option \<times> istream" where
  "get_char st =
     (if \<not> good st then (None, st\<lparr>failbit := True\<rparr>)
      else case rest st of
             [] \<Rightarrow> (None, st\<lparr>eofbit := True, failbit := True\<rparr>)
           | c # r \<Rightarrow> (Some c, st\<lparr>rest := r\<rparr>))"

text \<open>
  \<open>input.get(ptr, size, delim)\<close>: at most \<open>size - 1\<close> characters, up to the delimiter, which stays
  in the stream.
\<close>

definition get_n :: "nat \<Rightarrow> char \<Rightarrow> istream \<Rightarrow> string \<times> istream" where
  "get_n n delim st =
     (if \<not> good st then ([], st\<lparr>failbit := True\<rparr>)
      else
        let cs = take n (takeWhile (\<lambda>c. c \<noteq> delim) (rest st));
            r = drop (length cs) (rest st)
        in (cs, st\<lparr>rest := r, eofbit := (length cs < n \<and> r = []), failbit := (cs = [])\<rparr>))"

section \<open>The buffer\<close>

type_synonym buffer = "char option list"

definition buf_store :: "buffer \<Rightarrow> nat \<Rightarrow> string \<Rightarrow> buffer" where
  "buf_store b off cs = take off b @ map Some cs @ drop (off + length cs) b"

definition buf_read :: "buffer \<Rightarrow> nat \<Rightarrow> nat \<Rightarrow> string result" where
  "buf_read b off n =
     (if length b < off + n then Inl (Undefined_behaviour Out_of_bounds_read)
      else if None \<in> set (take n (drop off b)) then Inl (Undefined_behaviour Uninitialised_read)
      else Inr (map the (take n (drop off b))))"

definition end_tag_len :: nat where "end_tag_len = length data_end_tag"
definition delim :: char where "delim = CHR ''>''"

section \<open>The loop\<close>

text \<open>
  One iteration up to the look at the delimiter: the data so far, the buffer, whether to look at
  the next character, the stream.
\<close>

definition fill_step ::
  "string \<Rightarrow> buffer \<Rightarrow> nat \<Rightarrow> nat \<Rightarrow> istream \<Rightarrow> (string \<times> buffer \<times> bool \<times> istream) result" where
  "fill_step d buf off sz st =
     (case peek st of (c, st1) \<Rightarrow>
        if c = Some delim then Inr (d, buf, True, st1)
        else
          case get_n (sz - 1) delim st1 of (cs, st2) \<Rightarrow>
            let nread = length cs; buf1 = buf_store buf off (cs @ [CHR 0x00])
            in if nread = 0 then Inl (Runtime_error ''Failed to process file'')
               else if off + nread < end_tag_len then Inl (Undefined_behaviour Invalid_range)
               else
                 bind (buf_read buf1 0 (off + nread - end_tag_len)) (\<lambda>pre.
                 bind (buf_read buf1 (off + nread - end_tag_len) end_tag_len) (\<lambda>tail.
                   if off + nread < 2 * end_tag_len then Inl (Undefined_behaviour Overlapping_copy) else
                   Inr (d @ pre, buf_store buf1 0 tail, nread \<noteq> sz - 1, st2))))"

text \<open>
  The look at the delimiter: the last character of the data where the window holds the end tag.
  At the end of the file \<open>get\<close> yields \<open>EOF\<close>, stored as a character. The comparison reads the
  window as a C string.
\<close>

definition check_step :: "buffer \<Rightarrow> istream \<Rightarrow> (char option \<times> buffer \<times> istream) result" where
  "check_step buf st =
     (case get_char st of (c, st1) \<Rightarrow>
        let buf1 = buf_store buf end_tag_len [case c of None \<Rightarrow> CHR 0xFF | Some x \<Rightarrow> x, CHR 0x00]
        in bind (buf_read buf1 1 end_tag_len) (\<lambda>w.
             if takeWhile (\<lambda>x. x \<noteq> CHR 0x00) w = data_end_tag then
               bind (buf_read buf1 0 1) (\<lambda>x. Inr (Some (hd x), buf1, st1))
             else Inr (None, buf1, st1)))"

lemma rest_peek: "peek st = (c, st1) \<Longrightarrow> rest st1 = rest st"
  by (auto simp: peek_def split: if_splits list.splits)

lemma peek_Some: "peek st = (Some c, st1) \<longleftrightarrow> good st \<and> st1 = st \<and> (\<exists>r. rest st = c # r)"
  by (cases "good st"; cases "rest st") (auto simp: peek_def)

lemma get_n_rest: "get_n n d st = (cs, st1) \<Longrightarrow> rest st1 = drop (length cs) (rest st)"
  by (cases "good st") (auto simp: get_n_def Let_def)

lemma get_n_length:
  assumes "get_n n d st = (cs, st1)"
  shows "length cs \<le> length (rest st)"
proof -
  have "length (take n (takeWhile (\<lambda>c. c \<noteq> d) (rest st))) \<le> length (rest st)"
    by (simp add: length_takeWhile_le min.coboundedI1)
  with assms show ?thesis by (cases "good st") (auto simp: get_n_def Let_def)
qed

lemma fill_step_cases:
  assumes "fill_step d buf off sz st = Inr (d', buf', check, st')"
  obtains (delim) "good st" "\<exists>r. rest st = delim # r" "d' = d" "buf' = buf" "check" "st' = st"
  | (chunk) cs st1 where "get_n (sz - 1) delim st1 = (cs, st')" "rest st1 = rest st" "cs \<noteq> []"
proof -
  obtain c st1 where p: "peek st = (c, st1)" by fastforce
  show thesis
  proof (cases "c = Some delim")
    case True
    with assms p delim show ?thesis by (simp add: fill_step_def peek_Some)
  next
    case False
    obtain cs st2 where g: "get_n (sz - 1) delim st1 = (cs, st2)" by fastforce
    have "cs \<noteq> []" using assms p False g by (cases cs) (simp_all add: fill_step_def Let_def)
    moreover have "st' = st2"
      using assms p False g \<open>cs \<noteq> []\<close>
      by (simp add: fill_step_def Let_def split: if_splits) (elim bindE, simp split: if_splits)
    ultimately show ?thesis using chunk g rest_peek [OF p] by simp
  qed
qed

lemma fill_step_rest:
  assumes "fill_step d buf off sz st = Inr (d', buf', check, st')"
  shows "length (rest st') < length (rest st) \<or> check \<and> st' = st \<and> good st \<and> rest st \<noteq> []"
  using assms
proof (cases rule: fill_step_cases)
  case delim
  then show ?thesis by auto
next
  case (chunk cs st1)
  then show ?thesis using get_n_rest [OF chunk(1)] get_n_length [OF chunk(1)] by (cases cs) auto
qed

lemma check_step_rest:
  assumes "check_step buf st = Inr (r, buf', st')"
  shows "length (rest st') \<le> length (rest st) \<and>
    (good st \<and> rest st \<noteq> [] \<longrightarrow> length (rest st') < length (rest st))"
  using assms
  by (auto simp: check_step_def get_char_def result_simps Let_def split: if_splits list.splits)

function read_data_loop ::
  "nat \<Rightarrow> string \<Rightarrow> buffer \<Rightarrow> nat \<Rightarrow> nat \<Rightarrow> istream \<Rightarrow> (string \<times> istream) result" where
  "read_data_loop bufsiz d buf off sz st =
     bind (fill_step d buf off sz st) (\<lambda>(d1, buf1, check, st1).
     bind (if check then check_step buf1 st1 else Inr (None, buf1, st1)) (\<lambda>(found, buf2, st2).
       case found of
         Some c \<Rightarrow> Inr (d1 @ [c], st2)
       | None \<Rightarrow>
           let off' = (if check then end_tag_len + 1 else end_tag_len)
           in if eofbit st2 then Inr (d1, st2)
              else read_data_loop bufsiz d1 buf2 off' (bufsiz - off') st2))"
  by pat_completeness auto
termination
proof (relation "measure (\<lambda>(_, _, _, _, _, st). length (rest st))", goal_cases)
  case (2 bufsiz d buf off sz st v d1 v1 buf1 v2 check st1 w found v3 buf2 st2 off')
  then have f: "fill_step d buf off sz st = Inr (d1, buf1, check, st1)" by simp
  show ?case
  proof (cases check)
    case True
    with 2 have "check_step buf1 st1 = Inr (None, buf2, st2)" by simp
    from check_step_rest [OF this] fill_step_rest [OF f] show ?thesis by auto
  next
    case False
    with 2 have "st2 = st1" by (metis Inr_inject prod.inject)
    with False fill_step_rest [OF f] show ?thesis by simp
  qed
qed simp

declare read_data_loop.simps [simp del]

definition read_action_data :: "nat \<Rightarrow> istream \<Rightarrow> (string \<times> istream) result" where
  "read_action_data bufsiz st = read_data_loop bufsiz [] (replicate (bufsiz + 1) None) 0 bufsiz st"

section \<open>Reading data back\<close>

text \<open>
  The chunks that the reader takes of a text, from a window of \<open>off\<close> characters on: up to the next
  delimiter or to the end of the buffer, and each must leave a window of two end tags at least. Behind a
  delimiter the window has one character more than the tag.
\<close>

function copies_apart :: "nat \<Rightarrow> nat \<Rightarrow> string \<Rightarrow> bool" where
  "copies_apart bufsiz off [] = True"
| "copies_apart bufsiz off (c # r) =
     (if c = delim then copies_apart bufsiz (end_tag_len + 1) r
      else
        let n = min (bufsiz - off - 1) (length (takeWhile (\<lambda>x. x \<noteq> delim) (c # r)))
        in 2 * end_tag_len \<le> off + n \<and> copies_apart bufsiz end_tag_len (drop (n - 1) r))"
  by pat_completeness auto
termination
  by (relation "measure (\<lambda>(_, _, t). length t)") auto

text \<open>
  Data that the reader restores: it does not begin with a delimiter, no copy overlaps, no two delimiters
  are adjacent, and the end tag does not occur earlier.
\<close>

definition payload_ok :: "nat \<Rightarrow> string \<Rightarrow> bool" where
  "payload_ok bufsiz d \<longleftrightarrow>
     hd (d @ data_end_tag) \<noteq> delim \<and>
     copies_apart bufsiz 0 (d @ data_end_tag) \<and>
     \<not> sublist [delim, delim] (d @ data_end_tag) \<and>
     \<not> sublist data_end_tag (butlast (d @ data_end_tag))"

lemma tag_simps [simp]: "end_tag_len = 12" "length data_end_tag = 12" "last data_end_tag = delim"
  "data_end_tag \<noteq> []" "CHR 0x00 \<notin> set data_end_tag"
  by (simp_all add: end_tag_len_def data_end_tag_def delim_def)

lemma c_string_tag: "length v = 12 \<Longrightarrow> takeWhile (\<lambda>x. x \<noteq> CHR 0x00) v = data_end_tag \<longleftrightarrow> v = data_end_tag"
proof
  assume "length v = 12" "takeWhile (\<lambda>x. x \<noteq> CHR 0x00) v = data_end_tag"
  then have "length (takeWhile (\<lambda>x. x \<noteq> CHR 0x00) v) = length v" by simp
  then show "v = data_end_tag"
    by (metis \<open>takeWhile (\<lambda>x. x \<noteq> CHR 0x00) v = data_end_tag\<close> takeWhile_eq_take take_all order_refl)
next
  assume "v = data_end_tag"
  then show "takeWhile (\<lambda>x. x \<noteq> CHR 0x00) v = data_end_tag"
    by (auto simp: takeWhile_eq_all_conv)
qed

lemma take_buf_store:
  "off \<le> length b \<Longrightarrow> take (off + length cs) (buf_store b off cs) = take off b @ map Some cs"
  by (simp add: buf_store_def)

lemma length_buf_store: "off + length cs \<le> length b \<Longrightarrow> length (buf_store b off cs) = length b"
  by (simp add: buf_store_def)

lemma buf_read_prefix:
  assumes "take n b = map Some w" "length w = n" "off + k \<le> n"
  shows "buf_read b off k = Inr (take k (drop off w))"
proof -
  have len: "n \<le> length b" using assms(1,2) by (metis length_map length_take min.absorb_iff2 nat_le_linear)
  have "take k (drop off b) = take k (drop off (take n b))"
    using assms(3) by (simp add: drop_take min_def)
  then have "take k (drop off b) = map Some (take k (drop off w))"
    by (simp add: assms(1) drop_map take_map)
  with len assms(3) show ?thesis by (auto simp: buf_read_def)
qed

lemma check_step_window:
  assumes "good st" "rest st = delim # r" "take 12 buf = map Some w" "length w = 12" "14 \<le> length buf"
  shows "\<exists>b'. check_step buf st =
      Inr (if tl w @ [delim] = data_end_tag then Some (hd w) else None, b', st\<lparr>rest := r\<rparr>) \<and>
    length b' = length buf \<and> take 13 b' = map Some (w @ [delim])"
proof -
  let ?b = "buf_store buf 12 [delim, CHR 0x00]"
  have "take (12 + length [delim, CHR 0x00]) ?b = map Some (w @ [delim, CHR 0x00])"
    using assms(3,5) by (subst take_buf_store) simp_all
  then have t14: "take 14 ?b = map Some (w @ [delim, CHR 0x00])" by simp
  then have "take 13 (take 14 ?b) = take 13 (map Some (w @ [delim, CHR 0x00]))" by simp
  then have t13: "take 13 ?b = map Some (w @ [delim])" using assms(4) by simp
  obtain c v where w: "w = c # v" "length v = 11" using assms(4) by (cases w) auto
  have "buf_read ?b 1 12 = Inr (tl w @ [delim])" "buf_read ?b 0 1 = Inr [c]"
    using buf_read_prefix [OF t13, of 1 12] buf_read_prefix [OF t13, of 0 1] assms(4) w by simp_all
  then have "check_step buf st =
      Inr (if tl w @ [delim] = data_end_tag then Some (hd w) else None, ?b, st\<lparr>rest := r\<rparr>)"
    using assms(1,2) w c_string_tag [of "tl w @ [delim]"]
    by (simp add: check_step_def get_char_def Let_def)
  moreover have "length ?b = length buf" using assms(5) by (simp add: length_buf_store)
  ultimately show ?thesis using t13 by blast
qed

lemma payload_okD:
  assumes "payload_ok bufsiz d" "C @ R = d @ data_end_tag" "R \<noteq> []"
  shows "\<not> suffix data_end_tag C" "C \<noteq> [] \<Longrightarrow> last C = delim \<Longrightarrow> hd R \<noteq> delim" "last R = delim"
proof -
  show "\<not> suffix data_end_tag C"
  proof
    assume "suffix data_end_tag C"
    moreover have "prefix C (butlast (d @ data_end_tag))"
      using assms(2,3) by (metis butlast_append prefixI)
    ultimately have "sublist data_end_tag (butlast (d @ data_end_tag))"
      by (meson prefix_imp_sublist suffix_imp_sublist sublist_order.order.trans)
    with assms(1) show False by (simp add: payload_ok_def)
  qed
  show "last R = delim" using assms(2,3) by (metis last_append tag_simps(3,4))
  assume "C \<noteq> []" "last C = delim"
  show "hd R \<noteq> delim"
  proof
    assume "hd R = delim"
    then have "d @ data_end_tag = butlast C @ [delim, delim] @ tl R"
      using assms(2,3) \<open>C \<noteq> []\<close> \<open>last C = delim\<close>
      by (metis append.assoc append_Cons append_Nil append_butlast_last_id list.collapse)
    then have "sublist [delim, delim] (d @ data_end_tag)" by (metis sublist_appendI)
    with assms(1) show False by (simp add: payload_ok_def)
  qed
qed

lemma check_step_data:
  assumes "payload_ok bufsiz d" "D @ w @ delim # R = d @ data_end_tag"
    and "good st" "rest st = delim # R @ tail" "take 12 buf = map Some w" "length w = 12" "14 \<le> length buf"
  obtains (found) b' where "R = []" "check_step buf st = Inr (Some (hd w), b', st\<lparr>rest := tail\<rparr>)"
      "D @ [hd w] = d"
  | (more) b' where "R \<noteq> []" "check_step buf st = Inr (None, b', st\<lparr>rest := R @ tail\<rparr>)"
      "length b' = length buf" "take 13 b' = map Some (w @ [delim])"
proof -
  obtain b' where b': "check_step buf st =
      Inr (if tl w @ [delim] = data_end_tag then Some (hd w) else None, b', st\<lparr>rest := R @ tail\<rparr>)"
    "length b' = length buf" "take 13 b' = map Some (w @ [delim])"
    using check_step_window [OF assms(3,4,5,6,7)] by blast
  obtain c v where w: "w = c # v" using assms(6) by (cases w) auto
  show thesis
  proof (cases "R = []")
    case True
    then have eq: "(D @ [c]) @ (v @ [delim]) = d @ data_end_tag" using assms(2) w by simp
    have "length (v @ [delim]) = length data_end_tag" using assms(6) w by simp
    then have "D @ [c] = d" "v @ [delim] = data_end_tag" using eq append_eq_append_conv by blast+
    with b' w True found show ?thesis by simp
  next
    case False
    have "\<not> suffix data_end_tag (D @ w @ [delim])"
      using payload_okD(1) [OF assms(1), of "D @ w @ [delim]" R] assms(2) False by simp
    moreover have "D @ w @ [delim] = (D @ [c]) @ tl w @ [delim]" using w by simp
    ultimately have "tl w @ [delim] \<noteq> data_end_tag" by (metis suffixI)
    with b' False more show ?thesis by simp
  qed
qed

lemma get_n_chunk:
  assumes "good st" "rest st = R @ tail" "delim \<in> set R"
  shows "get_n n delim st =
    (let cs = take n (takeWhile (\<lambda>c. c \<noteq> delim) R)
     in (cs, st\<lparr>rest := drop (length cs) R @ tail, failbit := (cs = [])\<rparr>)) \<and>
    drop (length (take n (takeWhile (\<lambda>c. c \<noteq> delim) R))) R \<noteq> []"
proof -
  define cs where "cs = take n (takeWhile (\<lambda>c. c \<noteq> delim) R)"
  have tw: "take n (takeWhile (\<lambda>c. c \<noteq> delim) (rest st)) = cs"
    using assms(2,3) by (auto simp: cs_def intro: takeWhile_append1)
  have "takeWhile (\<lambda>c. c \<noteq> delim) R \<noteq> R" using assms(3) by (auto simp: takeWhile_eq_all_conv)
  then have "length (takeWhile (\<lambda>c. c \<noteq> delim) R) < length R"
    by (metis length_takeWhile_le le_neq_implies_less takeWhile_eq_take take_all order_refl)
  moreover have "length cs \<le> length (takeWhile (\<lambda>c. c \<noteq> delim) R)" by (simp add: cs_def)
  ultimately have "length cs < length R" by (rule le_less_trans [rotated])
  then have r: "drop (length cs) R \<noteq> []" "drop (length cs) (rest st) = drop (length cs) R @ tail"
    "\<not> length (rest st) \<le> length cs"
    using assms(2) by simp_all
  moreover have "st\<lparr>rest := x, eofbit := False\<rparr> = st\<lparr>rest := x\<rparr>" for x
    using assms(1) by (cases st) (simp add: good_def)
  ultimately have "get_n n delim st = (cs, st\<lparr>rest := drop (length cs) R @ tail, failbit := (cs = [])\<rparr>)"
    using assms(1) unfolding get_n_def tw by (simp add: Let_def)
  with r(1) show ?thesis unfolding cs_def Let_def by blast
qed

lemma chunk_prefix: "prefix (take n (takeWhile P R)) R"
  by (metis append.assoc append_take_drop_id prefixI takeWhile_dropWhile_id)

text \<open>One chunk: the window moves to the end of what was read.\<close>

lemma fill_step_chunk:
  assumes "good st" "rest st = R @ tail" "delim \<in> set R" "hd R \<noteq> delim"
    and "take off buf = map Some w" "length w = off" "length buf = bufsiz + 1"
    and "off + 2 \<le> bufsiz"
    and "copies_apart bufsiz off R"
  obtains cs R' D' w' buf' where "R = cs @ R'" "cs \<noteq> []" "R' \<noteq> []"
    "fill_step D buf off (bufsiz - off) st =
       Inr (D @ D', buf', length cs \<noteq> bufsiz - off - 1, st\<lparr>rest := R' @ tail\<rparr>)"
    "D' @ w' = w @ cs" "length w' = 12" "take 12 buf' = map Some w'" "length buf' = length buf"
    "length cs \<noteq> bufsiz - off - 1 \<longrightarrow> hd R' = delim" "copies_apart bufsiz 12 R'"
proof -
  define cs R' where "cs = take (bufsiz - off - 1) (takeWhile (\<lambda>c. c \<noteq> delim) R)"
    and "R' = drop (length cs) R"
  have R: "R = cs @ R'"
    using chunk_prefix [of "bufsiz - off - 1" "\<lambda>c. c \<noteq> delim" R]
    unfolding R'_def cs_def by (metis append_eq_conv_conj prefix_def)
  have "R \<noteq> []" using assms(3) by auto
  then have "takeWhile (\<lambda>c. c \<noteq> delim) R \<noteq> []" using assms(4) by (cases R) auto
  then have cs: "cs \<noteq> []" using assms(8) by (cases "bufsiz - off - 1") (auto simp: cs_def)
  obtain c r where "rest st = c # r" "c \<noteq> delim" using assms(2,4) \<open>R \<noteq> []\<close> by (cases R) auto
  then have peek: "peek st = (Some c, st)" "Some c \<noteq> Some delim" using assms(1) by (auto simp: peek_def)
  have g: "get_n (bufsiz - off - 1) delim st = (cs, st\<lparr>rest := R' @ tail\<rparr>)" and R': "R' \<noteq> []"
  proof -
    note g = get_n_chunk [OF assms(1,2,3), of "bufsiz - off - 1", folded cs_def, folded R'_def]
    have "st\<lparr>rest := R' @ tail, failbit := False\<rparr> = st\<lparr>rest := R' @ tail\<rparr>"
      using assms(1) by (cases st) (simp add: good_def)
    with g cs show "get_n (bufsiz - off - 1) delim st = (cs, st\<lparr>rest := R' @ tail\<rparr>)"
      unfolding R'_def by (simp add: Let_def)
    from g show "R' \<noteq> []" by simp
  qed
  have ncs: "length cs = min (bufsiz - off - 1) (length (takeWhile (\<lambda>c. c \<noteq> delim) R))"
    by (simp add: cs_def min.commute)
  have apart: "24 \<le> off + length cs" "copies_apart bufsiz 12 R'"
  proof -
    obtain c r where c: "R = c # r" "c \<noteq> delim" using \<open>R \<noteq> []\<close> assms(4) by (cases R) auto
    then have "24 \<le> off + length cs \<and> copies_apart bufsiz 12 (drop (length cs - 1) r)"
      using assms(9) ncs by (simp add: Let_def)
    moreover have "R' = drop (length cs - 1) r" using cs c(1) by (cases cs) (simp_all add: R'_def)
    ultimately show "24 \<le> off + length cs" "copies_apart bufsiz 12 R'" by simp_all
  qed
  let ?b = "buf_store buf off (cs @ [CHR 0x00])" and ?n = "off + length cs"
  have fit: "off + length (cs @ [CHR 0x00]) \<le> length buf"
    using ncs assms(7,8) by simp
  have "take (off + length (cs @ [CHR 0x00])) ?b = take off buf @ map Some (cs @ [CHR 0x00])"
    using fit by (intro take_buf_store) simp
  then have "take ?n (take (off + length (cs @ [CHR 0x00])) ?b) = take ?n (map Some ((w @ cs) @ [CHR 0x00]))"
    using assms(5) by simp
  then have pre: "take ?n ?b = map Some (w @ cs)" using assms(6) by simp
  define D' w' where "D' = take (?n - 12) (w @ cs)" and "w' = drop (?n - 12) (w @ cs)"
  have n12: "12 \<le> ?n" using apart(1) by simp
  have reads: "buf_read ?b 0 (?n - 12) = Inr D'" "buf_read ?b (?n - 12) 12 = Inr w'"
    using buf_read_prefix [OF pre, of 0 "?n - 12"] buf_read_prefix [OF pre, of "?n - 12" 12] assms(6) n12
    by (simp_all add: D'_def w'_def)
  let ?b' = "buf_store ?b 0 w'"
  have lens: "length w' = 12" "length ?b = length buf"
    using assms(6) n12 length_buf_store [OF fit] by (simp_all add: w'_def)
  moreover have "12 \<le> length ?b" using fit n12 lens by simp
  ultimately have b': "take 12 ?b' = map Some w'" "length ?b' = length buf"
    using take_buf_store [of 0 ?b w'] length_buf_store [of 0 w' ?b] by simp_all
  have step: "fill_step D buf off (bufsiz - off) st =
      Inr (D @ D', ?b', length cs \<noteq> bufsiz - off - 1, st\<lparr>rest := R' @ tail\<rparr>)"
    using peek g cs n12 apart(1) reads by (simp add: fill_step_def Let_def)
  have stop: "length cs \<noteq> bufsiz - off - 1 \<longrightarrow> hd R' = delim"
  proof
    assume "length cs \<noteq> bufsiz - off - 1"
    then have "cs = takeWhile (\<lambda>c. c \<noteq> delim) R" using ncs by (simp add: cs_def)
    then have "R' = dropWhile (\<lambda>c. c \<noteq> delim) R"
      by (metis R'_def append_eq_conv_conj takeWhile_dropWhile_id)
    with R' show "hd R' = delim" using hd_dropWhile [of "\<lambda>c. c \<noteq> delim" R] by auto
  qed
  have "D' @ w' = w @ cs" unfolding D'_def w'_def by (rule append_take_drop_id)
  from that [OF R cs R' step this lens(1) b' stop apart(2)] show thesis .
qed

text \<open>
  In the middle of the data the window never ends with a delimiter that the next character repeats.
\<close>

lemma window_before_delimiter:
  assumes "payload_ok bufsiz d" "D @ w @ delim # R1 = d @ data_end_tag" "length w = off"
    and "off = 0 \<and> D = [] \<or> off = 12 \<or> off = 13 \<and> last w = delim"
  shows "off = 12"
proof -
  have "off \<noteq> 13"
  proof
    assume "off = 13"
    then have w: "w \<noteq> []" "last w = delim" using assms(3,4) by auto
    then have "last (D @ w) = delim" by simp
    with w payload_okD(2) [OF assms(1), of "D @ w" "delim # R1"] assms(2) show False by simp
  qed
  moreover have "off \<noteq> 0"
  proof
    assume "off = 0"
    then have "d @ data_end_tag = delim # R1" using assms(2-4) by simp
    with assms(1) show False by (simp add: payload_ok_def)
  qed
  ultimately show ?thesis using assms(4) by blast
qed

text \<open>
  After a chunk that ended at a delimiter the end tag is looked for: it is found at the end of the
  data, and otherwise the loop goes on behind the delimiter.
\<close>

lemma read_data_loop_delimiter:
  assumes "payload_ok bufsiz d" "30 \<le> bufsiz" "good st"
    and fill: "fill_step D buf off (bufsiz - off) st = Inr (D1, buf1, True, st\<lparr>rest := delim # R1 @ tail\<rparr>)"
    and split: "D1 @ w1 @ delim # R1 = d @ data_end_tag"
    and w1: "take 12 buf1 = map Some w1" "length w1 = 12" "length buf1 = bufsiz + 1"
    and more: "\<And>b'. R1 \<noteq> [] \<Longrightarrow> take 13 b' = map Some (w1 @ [delim]) \<Longrightarrow> length b' = bufsiz + 1 \<Longrightarrow>
      read_data_loop bufsiz D1 b' 13 (bufsiz - 13) (st\<lparr>rest := R1 @ tail\<rparr>) = Inr (d, st\<lparr>rest := tail\<rparr>)"
  shows "read_data_loop bufsiz D buf off (bufsiz - off) st = Inr (d, st\<lparr>rest := tail\<rparr>)"
proof -
  note loop = read_data_loop.simps [of bufsiz D buf off "bufsiz - off" st]
  have st: "good (st\<lparr>rest := delim # R1 @ tail\<rparr>)" "rest (st\<lparr>rest := delim # R1 @ tail\<rparr>) = delim # R1 @ tail"
    "14 \<le> length buf1"
    using assms(2,3) w1(3) by (simp_all add: good_def)
  from assms(1) split st(1,2) w1(1,2) st(3) show ?thesis
  proof (cases rule: check_step_data)
    case (found b')
    with loop fill show ?thesis by simp
  next
    case goes_on: (more b')
    with loop fill more [of b'] w1(3) assms(3) show ?thesis by (simp add: good_def)
  qed
qed

text \<open>The whole loop, from any state in the middle of the data.\<close>

lemma read_data_loop_payload:
  assumes "payload_ok bufsiz d" "30 \<le> bufsiz"
    and "good st" "rest st = R @ tail" "R \<noteq> []" "D @ w @ R = d @ data_end_tag"
    and "take off buf = map Some w" "length w = off" "length buf = bufsiz + 1"
    and "off = 0 \<and> D = [] \<or> off = 12 \<or> off = 13 \<and> last w = delim" "copies_apart bufsiz off R"
  shows "read_data_loop bufsiz D buf off (bufsiz - off) st = Inr (d, st\<lparr>rest := tail\<rparr>)"
  using assms(3-)
proof (induction "length R" arbitrary: R D w off buf st rule: less_induct)
  case less
  have mem: "delim \<in> set R"
    using payload_okD(3) [OF assms(1), of "D @ w" R] less.prems(3,4) last_in_set by fastforce
  note loop = read_data_loop.simps [of bufsiz D buf off "bufsiz - off" st]
  have after: "read_data_loop bufsiz D buf off (bufsiz - off) st = Inr (d, st\<lparr>rest := tail\<rparr>)"
    if fill: "fill_step D buf off (bufsiz - off) st = Inr (D1, buf1, True, st\<lparr>rest := delim # R1 @ tail\<rparr>)"
      and split: "D1 @ w1 @ delim # R1 = d @ data_end_tag"
      and w1: "take 12 buf1 = map Some w1" "length w1 = 12" "length buf1 = bufsiz + 1"
      and shorter: "length R1 < length R" and apart: "copies_apart bufsiz 13 R1" for D1 buf1 R1 w1
  proof (rule read_data_loop_delimiter [OF assms(1,2) less.prems(1) fill split w1])
    fix b'
    assume "R1 \<noteq> []" "take 13 b' = map Some (w1 @ [delim])" "length b' = bufsiz + 1"
    then show "read_data_loop bufsiz D1 b' 13 (bufsiz - 13) (st\<lparr>rest := R1 @ tail\<rparr>) = Inr (d, st\<lparr>rest := tail\<rparr>)"
      using less.hyps [OF shorter, of "st\<lparr>rest := R1 @ tail\<rparr>" D1 "w1 @ [delim]" 13 b'] less.prems(1) split w1 apart
      by (simp add: good_def)
  qed
  show ?case
  proof (cases "hd R = delim")
    case True
    then obtain R1 where R: "R = delim # R1" using less.prems(3) by (cases R) auto
    have off: "off = 12" by (rule window_before_delimiter [OF assms(1) less.prems(4) [unfolded R] less.prems(6,8)])
    have "st = st\<lparr>rest := delim # R1 @ tail\<rparr>" using less.prems(2) R by simp
    then have fill: "fill_step D buf off (bufsiz - off) st = Inr (D, buf, True, st\<lparr>rest := delim # R1 @ tail\<rparr>)"
      using less.prems(1,2) R by (simp add: fill_step_def peek_def)
    show ?thesis
      using less.prems(4,5,6,9) R off by (intro after [OF fill _ _ _ less.prems(7), of w]) simp_all
  next
    case False
    have "off + 2 \<le> bufsiz" using less.prems(8) assms(2) by auto
    then obtain cs R' D' w' buf' where c: "R = cs @ R'" "cs \<noteq> []" "R' \<noteq> []"
      "fill_step D buf off (bufsiz - off) st =
         Inr (D @ D', buf', length cs \<noteq> bufsiz - off - 1, st\<lparr>rest := R' @ tail\<rparr>)"
      "D' @ w' = w @ cs" "length w' = 12" "take 12 buf' = map Some w'" "length buf' = length buf"
      "length cs \<noteq> bufsiz - off - 1 \<longrightarrow> hd R' = delim" "copies_apart bufsiz 12 R'"
      by (rule fill_step_chunk [OF less.prems(1,2) mem False less.prems(5,6,7) _
            less.prems(9)])
    have split: "(D @ D') @ w' @ R' = d @ data_end_tag"
      using c(1,5) less.prems(4) by (metis append.assoc)
    show ?thesis
    proof (cases "length cs \<noteq> bufsiz - off - 1")
      case True
      then obtain R1 where R1: "R' = delim # R1" using c(3,9) by (cases R') auto
      have "fill_step D buf off (bufsiz - off) st = Inr (D @ D', buf', True, st\<lparr>rest := delim # R1 @ tail\<rparr>)"
        using c(4) True R1 by simp
      then show ?thesis using c(1,6,7,8,10) R1 split less.prems(7) by (intro after [of "D @ D'" buf' R1 w']) simp_all
    next
      case full: False
      have "length R' < length R" using c(1,2) by simp
      then have "read_data_loop bufsiz (D @ D') buf' 12 (bufsiz - 12) (st\<lparr>rest := R' @ tail\<rparr>) =
          Inr (d, st\<lparr>rest := tail\<rparr>)"
        using less.hyps [of R' "st\<lparr>rest := R' @ tail\<rparr>" "D @ D'" w' 12 buf'] less.prems(1,7) c(3,6-8,10) split
        by (simp add: good_def)
      with loop c(4) full less.prems(1) show ?thesis by (simp add: good_def)
    qed
  qed
qed

lemma read_action_data_payload:
  assumes "payload_ok bufsiz d" "30 \<le> bufsiz" "good st" "rest st = d @ data_end_tag @ tail"
  shows "read_action_data bufsiz st = Inr (d, st\<lparr>rest := tail\<rparr>)"
  using read_data_loop_payload [OF assms(1,2,3), of "d @ data_end_tag" tail "[]" "[]" 0 "replicate (bufsiz + 1) None"]
    assms(1,4)
  by (simp add: read_action_data_def payload_ok_def)

text \<open>Data that is too short before its first delimiter.\<close>

lemma short_data_undefined:
  assumes "good st" "rest st = cs @ delim # r" "delim \<notin> set cs" "cs \<noteq> []" "length cs < 24"
    and "30 \<le> bufsiz"
  shows "read_action_data bufsiz st =
    Inl (Undefined_behaviour (if length cs < 12 then Invalid_range else Overlapping_copy))"
proof -
  obtain c r' where "rest st = c # r'" "c \<noteq> delim"
    using assms(2,3,4) by (cases cs) auto
  then have peek: "peek st = (Some c, st)" "Some c \<noteq> Some delim" using assms(1) by (auto simp: peek_def)
  have "takeWhile (\<lambda>c. c \<noteq> delim) (rest st) = cs"
    using assms(2,3) by (auto simp: takeWhile_append)
  moreover have "take (bufsiz - 1) cs = cs" using assms(5,6) by simp
  ultimately obtain st2 where g: "get_n (bufsiz - 1) delim st = (cs, st2)"
    using assms(1) by (auto simp: get_n_def Let_def)
  let ?b = "buf_store (replicate (bufsiz + 1) None) 0 (cs @ [CHR 0x00])"
  have b: "take (length cs) ?b = map Some cs" by (simp add: buf_store_def)
  have "fill_step [] (replicate (bufsiz + 1) None) 0 bufsiz st =
      Inl (Undefined_behaviour (if length cs < 12 then Invalid_range else Overlapping_copy))"
    using peek g assms(4,5) buf_read_prefix [OF b, of 0 "length cs - 12"] buf_read_prefix [OF b, of "length cs - 12" 12]
    by (simp add: fill_step_def Let_def)
  then show ?thesis by (simp add: read_action_data_def read_data_loop.simps)
qed

text \<open>
  What \<open>copies_apart\<close> asks of a text without delimiters before its last character: where it fits
  into the first chunk it has two tags' length, and otherwise what is left for the last chunk is nothing
  or a tag's length.
\<close>

lemma copies_apart_run:
  assumes "30 \<le> bufsiz" "delim \<notin> set t"
  shows "copies_apart bufsiz 12 (t @ [delim]) \<longleftrightarrow>
    length t mod (bufsiz - 13) = 0 \<or> 12 \<le> length t mod (bufsiz - 13)"
  using assms(2)
proof (induction "length t" arbitrary: t rule: less_induct)
  case less
  show ?case
  proof (cases t)
    case (Cons c r)
    then have c: "c \<noteq> delim" "takeWhile (\<lambda>x. x \<noteq> delim) ((c # r) @ [delim]) = c # r"
      using less.prems by (auto simp: takeWhile_append)
    let ?n = "min (bufsiz - 13) (length t)"
    have "drop (?n - 1) (r @ [delim]) = drop ?n t @ [delim]"
      using Cons assms(1) by (cases ?n) auto
    moreover have "takeWhile (\<lambda>x. x \<noteq> delim) (c # r @ [delim]) = c # r" using c(2) by simp
    ultimately have step: "copies_apart bufsiz 12 (t @ [delim]) \<longleftrightarrow>
        12 \<le> ?n \<and> copies_apart bufsiz 12 (drop ?n t @ [delim])"
      using c(1) Cons by (simp add: Let_def)
    show ?thesis
    proof (cases "length t < bufsiz - 13")
      case True
      then show ?thesis using step Cons by simp
    next
      case False
      have "length (drop (bufsiz - 13) t) < length t" using assms(1) Cons by simp
      moreover have "delim \<notin> set (drop (bufsiz - 13) t)" using less.prems by (metis in_set_dropD)
      ultimately have "copies_apart bufsiz 12 (drop (bufsiz - 13) t @ [delim]) \<longleftrightarrow>
          length t mod (bufsiz - 13) = 0 \<or> 12 \<le> length t mod (bufsiz - 13)"
        using less.hyps [of "drop (bufsiz - 13) t"] False by (simp add: le_mod_geq)
      moreover have "?n = bufsiz - 13" "12 \<le> bufsiz - 13" using False assms(1) by simp_all
      ultimately show ?thesis using step by simp
    qed
  qed simp
qed

lemma copies_apart_start:
  assumes "30 \<le> bufsiz" "delim \<notin> set t" "t \<noteq> []"
  shows "copies_apart bufsiz 0 (t @ [delim]) \<longleftrightarrow>
    (if length t < bufsiz then 24 \<le> length t
     else let m = (length t + 1 - bufsiz) mod (bufsiz - 13) in m = 0 \<or> 12 \<le> m)"
proof -
  obtain c r where t: "t = c # r" using assms(3) by (cases t) auto
  let ?n = "min (bufsiz - 1) (length t)"
  have "c \<noteq> delim" "takeWhile (\<lambda>x. x \<noteq> delim) (r @ [delim]) = r"
    using assms(2) t by (auto simp: takeWhile_append)
  moreover have "drop (?n - 1) (r @ [delim]) = drop ?n t @ [delim]" using t assms(1) by (cases ?n) auto
  ultimately have step: "copies_apart bufsiz 0 (t @ [delim]) \<longleftrightarrow> 24 \<le> ?n \<and> copies_apart bufsiz 12 (drop ?n t @ [delim])"
    using t by (simp add: Let_def del: drop_append)
  have "delim \<notin> set (drop ?n t)" using assms(2) by (metis in_set_dropD)
  note run = copies_apart_run [OF assms(1) this]
  show ?thesis
  proof (cases "length t < bufsiz")
    case True
    then have "?n = length t" by simp
    then show ?thesis using step run True by simp
  next
    case False
    then have "?n = bufsiz - 1" "length t - (bufsiz - 1) = length t + 1 - bufsiz" "24 \<le> bufsiz - 1"
      using assms(1) by simp_all
    then show ?thesis using step run False by (simp add: Let_def del: One_nat_def)
  qed
qed

section \<open>Properties\<close>

text \<open>
  C19. Reading restores the data it can restore: where the data does not begin with \<open>'>'\<close>, every
  chunk the reader takes (up to the next \<open>'>'\<close> or the end of the buffer) leaves a window of at least
  24 characters, no two \<open>'>'\<close> are adjacent and the end tag occurs only at the end, the reader returns
  exactly the data and leaves the stream right behind the tag, for every buffer size of at least 30
  bytes and any number of chunks. Data without \<open>'>'\<close> that fits into the buffer with its tag is of
  this kind from 13 characters on; for shorter chunks the reader's operations are undefined
  (\<open>short_chunk_undefined\<close>).
\<close>

theorem action_data_restored:
  assumes "payload_ok bufsiz d" "30 \<le> bufsiz"
  shows "read_action_data bufsiz (open_stream (d @ data_end_tag @ tail)) =
    Inr (d, open_stream tail)"
  using read_action_data_payload [OF assms, of "open_stream (d @ data_end_tag @ tail)" tail]
  by (simp add: good_def open_stream_def)

text \<open>
  Reading a short first chunk is undefined. Without data the chunk before the delimiter is the eleven
  characters of the tag, and the reader copies a range that ends before it begins, as for data with a
  \<open>'>'\<close> among its first twelve characters; up to 23 characters the copy to the front of the buffer
  overlaps, as for every text of one to twelve characters.
\<close>

theorem short_chunk_undefined:
  assumes "30 \<le> bufsiz" "takeWhile (\<lambda>c. c \<noteq> delim) (d @ data_end_tag) = cs" "cs \<noteq> []" "length cs < 24"
  shows "read_action_data bufsiz (open_stream (d @ data_end_tag @ tail)) =
    Inl (Undefined_behaviour (if length cs < 12 then Invalid_range else Overlapping_copy))"
proof -
  have "delim \<in> set (d @ data_end_tag)" by (simp add: data_end_tag_def delim_def)
  then obtain x y where xy: "d @ data_end_tag = x @ delim # y" "delim \<notin> set x" using split_list_first by metis
  then have "cs = x" using assms(2) by (auto simp: takeWhile_append)
  then have "rest (open_stream (d @ data_end_tag @ tail)) = cs @ delim # y @ tail"
    using arg_cong [OF xy(1), of "\<lambda>u. u @ tail"] by simp
  from short_data_undefined [OF _ this] xy(2) assms(1,3,4) show ?thesis
    by (simp add: \<open>cs = x\<close> good_def)
qed

lemma empty_data_undefined:
  assumes "30 \<le> bufsiz"
  shows "read_action_data bufsiz (open_stream (data_end_tag @ tail)) = Inl (Undefined_behaviour Invalid_range)"
proof -
  have "takeWhile (\<lambda>c. c \<noteq> delim) ([] @ data_end_tag) = ''<#DATA_END#''" by code_simp
  from short_chunk_undefined [OF assms this] show ?thesis by simp
qed

section \<open>Witnesses\<close>

lemma sample_payload: "payload_ok 8192 ''GET /index.html HTTP/1.1 -> ok and more''"
  by code_simp

theorem action_data_restored_witness:
  "read_action_data 8192 (open_stream (''GET /index.html HTTP/1.1 -> ok and more'' @ data_end_tag @ ''\<newline>'')) =
    Inr (''GET /index.html HTTP/1.1 -> ok and more'', open_stream ''\<newline>'')"
  by (rule action_data_restored [OF sample_payload]) simp

theorem short_chunk_undefined_witness:
  "read_action_data 8192 (open_stream (''<#DATA_END#>'' @ [])) = Inl (Undefined_behaviour Invalid_range) \<and>
    read_action_data 8192 (open_stream (''GET /'' @ data_end_tag)) = Inl (Undefined_behaviour Overlapping_copy)"
proof -
  have runs: "takeWhile (\<lambda>c. c \<noteq> delim) ([] @ data_end_tag) = ''<#DATA_END#''"
    "takeWhile (\<lambda>c. c \<noteq> delim) (''GET /'' @ data_end_tag) = ''GET /<#DATA_END#''"
    by code_simp+
  show ?thesis
    using short_chunk_undefined [OF _ runs(1), of 8192 "[]"] short_chunk_undefined [OF _ runs(2), of 8192 "[]"]
    by (simp add: data_end_tag_def)
qed

end
