(* ===== verification/Serializer.thy ===== *)
theory Serializer
  imports Serializer_Data Udp_Conversation
begin

text \<open>
  The reading half of src/src/lib/conversation_serializer.cc: comment lines, the action blocks
  with their attributes and data, the substitution tokens of an action, and the header that
  decides which conversation is built. \<open>getaddrinfo\<close> is a parameter: the error text or the
  family of the address. The outer loop of \<open>read_actions\<close> runs while the stream is not at its
  end; that it ends is a theorem, so the loop is a partial function whose value \<open>None\<close> stands
  for running forever.
\<close>

section \<open>Lines\<close>

text \<open>\<open>line[i]\<close> is the first character that is no white space.\<close>

definition is_comment :: "string \<Rightarrow> bool" where
  "is_comment line =
     (case dropWhile isspace line of c # _ \<Rightarrow> c = CHR ''#'' | [] \<Rightarrow> False)"

text \<open>The file's own \<open>getline\<close>: the next line that is no comment.\<close>

function script_line :: "istream \<Rightarrow> bool \<times> string \<times> istream" where
  "script_line st =
     (case getline newline st of (ok, line, st') \<Rightarrow>
        if ok then (if \<not> is_comment line then (True, line, st') else script_line st')
        else (False, line, st'))"
  by pat_completeness auto
termination
  by (relation "measure (\<lambda>st. length (rest st))") (auto simp: getline_shorter [OF sym])

declare script_line.simps [simp del]

lemma script_line_shorter:
  "script_line st = (True, line, st') \<Longrightarrow> length (rest st') < length (rest st)"
proof (induction st arbitrary: line st' rule: script_line.induct)
  case (1 st)
  obtain ok l st1 where g: "getline newline st = (ok, l, st1)" by (metis prod_cases3)
  show ?case
  proof (cases "ok \<and> is_comment l")
    case True
    with 1 g have "script_line st1 = (True, line, st')" by (simp add: script_line.simps [of st])
    with 1(1) g True have "length (rest st') < length (rest st1)" by auto
    with getline_shorter [of newline st l st1] g True show ?thesis by simp
  next
    case False
    with 1(2) g have "ok" "st' = st1" by (auto simp: script_line.simps [of st] split: if_splits)
    with g getline_shorter [of newline st l st1] show ?thesis by simp
  qed
qed

text \<open>A failed read ends the stream: nothing is left where the state was good before.\<close>

lemma getline_fails: "getline d st = (False, l, st') \<Longrightarrow> good st \<Longrightarrow> eofbit st' \<and> rest st' = []"
  by (auto simp: getline_def good_def Let_def split: if_splits)

lemma getline_state:
  "getline d st = (True, l, st') \<Longrightarrow> \<not> failbit st' \<and> (eofbit st' \<longrightarrow> rest st' = [])"
proof -
  assume g: "getline d st = (True, l, st')"
  let ?r = "dropWhile (\<lambda>c. c \<noteq> d) (rest st)"
  from g have "failbit st' = failbit st" "\<not> failbit st" "rest st' = drop 1 ?r" "eofbit st' = (?r = [])"
    by (auto simp: getline_def Let_def simp del: dropWhile_eq_Nil_conv split: if_splits)
  then show ?thesis by (metis drop_Nil)
qed

section \<open>Actions and their tokens\<close>

text \<open>
  The loop of \<open>create_action\<close>. The token is cut out with the index of the suffix as the count, as
  in the source.
\<close>

function add_tokens :: "string \<Rightarrow> nat \<Rightarrow> action \<Rightarrow> action" where
  "add_tokens view start a =
     (case find_from view subPrefix start of
        None \<Rightarrow> a
      | Some s \<Rightarrow>
          (case find_from view subSuffix (s + length subPrefix) of
             None \<Rightarrow> a
           | Some e \<Rightarrow>
               add_tokens view (e + length subSuffix)
                 (addSubToken (substr view (s + length subPrefix) e) (int s)
                    (int (e + length subSuffix)) a)))"
  by pat_completeness auto
termination
proof (relation "measure (\<lambda>(view, start, _). Suc (length view) - start)", goal_cases)
  case (2 view start a s e)
  then show ?case
    using find_from_ge [of view subPrefix start s] find_from_ge [of view subSuffix "s + length subPrefix" e]
    by (simp add: subSuffix_def) linarith
qed simp

declare add_tokens.simps [simp del]

definition create_action :: "action_type \<Rightarrow> string \<Rightarrow> action" where
  "create_action type d = add_tokens d 0 (new_action_data type d)"

lemma add_tokens_data [simp]:
  "act_type (add_tokens view start a) = act_type a \<and> act_data (add_tokens view start a) = act_data a"
proof (induction view start a rule: add_tokens.induct)
  case (1 view start a)
  show ?case
    by (subst (1 2) add_tokens.simps) (use 1 in \<open>auto simp: addSubToken_def split: option.splits\<close>)
qed

lemma create_action_data [simp]:
  "act_type (create_action t d) = t" "act_data (create_action t d) = d"
  by (simp_all add: create_action_def new_action_data_def)


section \<open>Action blocks\<close>

text \<open>The first inner loop of \<open>read_actions\<close>: the next line that is not blank names the action.\<close>

function find_type :: "istream \<Rightarrow> (action_type option \<times> istream) result" where
  "find_type st =
     (case script_line st of (ok, line, st') \<Rightarrow>
        if ok then
          (if trim line \<noteq> [] then
             bind (string_to_action_type (trim line)) (\<lambda>t. Inr (Some t, st'))
           else find_type st')
        else Inr (None, st'))"
  by pat_completeness auto
termination
  by (relation "measure (\<lambda>st. length (rest st))") (auto simp: script_line_shorter [OF sym])

declare find_type.simps [simp del]

text \<open>The second one: attributes up to the data.\<close>

function read_attributes ::
  "nat \<Rightarrow> properties \<Rightarrow> istream \<Rightarrow> (properties \<times> string \<times> istream) result" where
  "read_attributes bufsiz p st =
     (case script_line st of (ok, line, st') \<Rightarrow>
        if ok then
          (if trim line = [] then read_attributes bufsiz p st'
           else if trim line = data_start_tag then
             bind (read_action_data bufsiz st') (\<lambda>(d, st''). Inr (p, d, st''))
           else read_attributes bufsiz (snd (props_put_line (trim line) p)) st')
        else Inr (p, [], st'))"
  by pat_completeness auto
termination
  by (relation "measure (\<lambda>(_, _, st). length (rest st))") (auto simp: script_line_shorter [OF sym])

declare read_attributes.simps [simp del]

text \<open>One iteration of the outer loop: the action to push, if one was found.\<close>

definition read_block :: "nat \<Rightarrow> istream \<Rightarrow> (action option \<times> istream) result" where
  "read_block bufsiz st =
     bind (find_type st) (\<lambda>(found, st1).
     bind (read_attributes bufsiz props_clear st1) (\<lambda>(p, d, st2).
       case found of
         None \<Rightarrow> Inr (None, st2)
       | Some t \<Rightarrow>
           bind (if props_contains ENCODING_PROP p then
                   bind (props_get ENCODING_PROP p) (\<lambda>v.
                     if v = BASE64_ENCODING then from_base64 d else Inr d)
                 else Inr d) (\<lambda>d'. Inr (Some (create_action t d'), st2))))"

partial_function (option) read_actions ::
  "nat \<Rightarrow> istream \<Rightarrow> 'a packet_conversation_scheme \<Rightarrow>
     ('a packet_conversation_scheme \<times> istream) result option" where
  [code]: "read_actions bufsiz st c =
     (if eofbit st then Some (Inr (c, st))
      else
        case read_block bufsiz st of
          Inl e \<Rightarrow> Some (Inl e)
        | Inr r \<Rightarrow>
            read_actions bufsiz (snd r)
              (case fst r of None \<Rightarrow> c | Some a \<Rightarrow> actionPush a c))"

section \<open>The script\<close>

function read_headers :: "properties \<Rightarrow> istream \<Rightarrow> properties \<times> istream" where
  "read_headers p st =
     (case script_line st of (ok, line, st') \<Rightarrow>
        if ok then
          (if trimLeft line = [] then (p, st')
           else read_headers (snd (props_put_line (trimLeft line) p)) st')
        else (p, st'))"
  by pat_completeness auto
termination
  by (relation "measure (\<lambda>(_, st). length (rest st))") (auto simp: script_line_shorter [OF sym])

declare read_headers.simps [simp del]

text \<open>
  \<open>read\<close>, up to the conversation the actions are read into. Where the protocol is neither of the two
  names the pointer stays null and is dereferenced for the call of \<open>read_actions\<close>.
\<close>

definition open_script ::
  "inet6 \<Rightarrow> (string \<Rightarrow> string + int) \<Rightarrow> istream \<Rightarrow> (tcp_conversation \<times> istream) result" where
  "open_script n getaddrinfo st =
     (case read_headers props_clear st of (headers, st1) \<Rightarrow>
        bind (props_get TEST_ADDRESS_PROP headers) (\<lambda>addr.
        bind (case getaddrinfo addr of
                Inl msg \<Rightarrow> Inl (Runtime_error (''Unsupported address: '' @ addr @ '' '' @ msg))
              | Inr family \<Rightarrow>
                  if family = AF_INET then Inr IpLayerSpec
                  else Inl (Runtime_error (''Unsupported address family: '' @ addr))) (\<lambda>l3.
        bind (props_get PROTOCOL_PROP headers) (\<lambda>protocol.
          if protocol = TCP_PROT_NAME then
            bind (getAsInt TEST_PORT_PROP headers) (\<lambda>port.
              Inr (tcp_from_spec n l3 \<lparr>test_addr = addr, test_port = port\<rparr>, st1))
          else if protocol = UDP_PROT_NAME then Inl (Runtime_error ''UDP script not supported'')
          else Inl (Undefined_behaviour Null_dereference)))))"

definition read_script ::
  "nat \<Rightarrow> inet6 \<Rightarrow> (string \<Rightarrow> string + int) \<Rightarrow> istream \<Rightarrow> tcp_conversation result option" where
  "read_script bufsiz n getaddrinfo st =
     (case open_script n getaddrinfo st of
        Inl e \<Rightarrow> Some (Inl e)
      | Inr (c, st1) \<Rightarrow> map_option (\<lambda>r. bind r (\<lambda>(c', _). Inr c')) (read_actions bufsiz st1 c))"

end
