(* ===== verification/Script_Reading.thy ===== *)
theory Script_Reading
  imports Serializer
begin

text \<open>
  Facts about reading scripts (src/src/lib/conversation_serializer.cc): the loop over the actions
  ends on every stream the program opens, a written list of actions reads back, a written script
  does not, and what \<open>create_action\<close> records for a substitution token.
\<close>

section \<open>Progress\<close>

text \<open>
  A stream that failed is at its end: the state every read of the serializer keeps, and the reason
  why \<open>while (!input.eof())\<close> ends.
\<close>

definition settled :: "istream \<Rightarrow> bool" where
  "settled st \<longleftrightarrow> (failbit st \<longrightarrow> eofbit st)"

lemma settled_open [simp]: "settled (open_stream s)"
  by (simp add: settled_def)

lemma settled_good: "settled st \<Longrightarrow> \<not> eofbit st \<Longrightarrow> good st"
  by (auto simp: settled_def good_def)

lemma getline_progress:
  assumes "getline d st = (ok, l, st')" "settled st"
  shows "settled st' \<and> length (rest st') \<le> length (rest st) \<and> (ok \<or> eofbit st')"
proof (cases ok)
  case True
  with assms getline_state [of d st l st'] getline_shorter [of d st l st'] show ?thesis
    by (auto simp: settled_def)
next
  case False
  with assms show ?thesis by (auto simp: getline_def settled_def Let_def split: if_splits)
qed

lemma script_line_progress:
  "script_line st = (ok, l, st') \<Longrightarrow> settled st \<Longrightarrow>
    settled st' \<and> length (rest st') \<le> length (rest st) \<and> (ok \<or> eofbit st')"
proof (induction st arbitrary: ok l st' rule: script_line.induct)
  case (1 st)
  obtain ok1 l1 st1 where g: "getline newline st = (ok1, l1, st1)" by (metis prod_cases3)
  note p = getline_progress [OF g 1(3)]
  show ?case
  proof (cases "ok1 \<and> is_comment l1")
    case True
    with 1(2) g have "script_line st1 = (ok, l, st')" by (simp add: script_line.simps [of st])
    with 1(1) g True p have "settled st' \<and> length (rest st') \<le> length (rest st1) \<and> (ok \<or> eofbit st')"
      by (metis (full_types))
    with p show ?thesis by linarith
  next
    case False
    with 1(2) g have "ok = ok1" "st' = st1" by (auto simp: script_line.simps [of st] split: if_splits)
    with p show ?thesis by simp
  qed
qed

lemma script_line_step:
  assumes "script_line st = (ok, l, st')" "settled st"
  obtains (line) "ok" "settled st'" "length (rest st') < length (rest st)"
  | (ended) "\<not> ok" "settled st'" "eofbit st'" "length (rest st') \<le> length (rest st)"
  using script_line_progress [OF assms] script_line_shorter [of st l st'] assms(1) by (cases ok) auto

lemma find_type_progress:
  "find_type st = Inr (r, st') \<Longrightarrow> settled st \<Longrightarrow>
    settled st' \<and> length (rest st') \<le> length (rest st)"
proof (induction st arbitrary: r st' rule: find_type.induct)
  case (1 st)
  obtain ok l st1 where s: "script_line st = (ok, l, st1)" by (metis prod_cases3)
  from s 1(3) show ?case
  proof (cases rule: script_line_step)
    case line
    show ?thesis
    proof (cases "trim l = []")
      case True
      with 1(2) s line have "find_type st1 = Inr (r, st')" by (simp add: find_type.simps [of st])
      with 1(1) [OF s [symmetric] refl line(1)] True line show ?thesis by force
    next
      case False
      with 1(2) s line have "st' = st1" by (auto simp: find_type.simps [of st] result_simps)
      with line show ?thesis by simp
    qed
  next
    case ended
    with 1(2) s show ?thesis by (simp add: find_type.simps [of st])
  qed
qed

text \<open>The data reader: it fails on a stream at its end.\<close>

lemma get_n_progress:
  assumes "get_n n d st = (cs, st')" "cs \<noteq> []"
  shows "good st \<and> \<not> failbit st'"
  using assms by (cases "good st") (auto simp: get_n_def Let_def)

lemma fill_step_progress:
  assumes "fill_step d buf off sz st = Inr (d', buf', check, st')"
  shows "\<not> failbit st' \<and> length (rest st') \<le> length (rest st)"
proof -
  have "length (rest st') \<le> length (rest st)" using fill_step_rest [OF assms] by auto
  moreover from assms have "\<not> failbit st'"
  proof (cases rule: fill_step_cases)
    case delim
    then show ?thesis by (simp add: good_def)
  next
    case (chunk cs st1)
    then show ?thesis using get_n_progress by blast
  qed
  ultimately show ?thesis by simp
qed

lemma check_step_settled: "check_step buf st = Inr (r, buf', st') \<Longrightarrow> \<not> failbit st \<Longrightarrow> settled st'"
  by (auto simp: check_step_def get_char_def good_def settled_def result_simps Let_def
      split: if_splits list.splits)

lemma read_data_loop_progress:
  "read_data_loop bufsiz d buf off sz st = Inr (d', st') \<Longrightarrow>
    settled st' \<and> length (rest st') \<le> length (rest st)"
proof (induction bufsiz d buf off sz st arbitrary: d' st' rule: read_data_loop.induct)
  case (1 bufsiz d buf off sz st)
  obtain d1 buf1 check st1 where f: "fill_step d buf off sz st = Inr (d1, buf1, check, st1)"
    using 1(2) by (subst (asm) read_data_loop.simps) (auto elim!: bindE)
  note pf = fill_step_progress [OF f]
  define step where "step = (if check then check_step buf1 st1 else Inr (None, buf1, st1))"
  obtain found buf2 st2 where c: "step = Inr (found, buf2, st2)"
    using 1(2) f unfolding step_def by (subst (asm) read_data_loop.simps) (auto elim!: bindE)
  have pc: "settled st2 \<and> length (rest st2) \<le> length (rest st1)"
  proof (cases check)
    case True
    then have "check_step buf1 st1 = Inr (found, buf2, st2)" using c by (simp add: step_def)
    with check_step_settled [OF this] check_step_rest [OF this] pf show ?thesis by simp
  next
    case False
    with c pf show ?thesis by (simp add: step_def settled_def)
  qed
  let ?off = "if check then end_tag_len + 1 else end_tag_len"
  have body: "read_data_loop bufsiz d buf off sz st =
      (case found of Some x \<Rightarrow> Inr (d1 @ [x], st2)
       | None \<Rightarrow> if eofbit st2 then Inr (d1, st2)
                 else read_data_loop bufsiz d1 buf2 ?off (bufsiz - ?off) st2)"
    using f c unfolding step_def
    by (subst read_data_loop.simps) (cases found; cases check; simp add: Let_def)
  show ?case
  proof (cases found)
    case (Some x)
    with body 1(2) pc pf show ?thesis by auto
  next
    case None
    show ?thesis
    proof (cases "eofbit st2")
      case True
      with None body 1(2) pc pf show ?thesis by auto
    next
      case False
      with None body 1(2) have "read_data_loop bufsiz d1 buf2 ?off (bufsiz - ?off) st2 = Inr (d', st')" by simp
      from 1(1) [OF f refl refl refl c [unfolded step_def] refl refl None refl False this] pc pf
      show ?thesis by linarith
    qed
  qed
qed

lemma read_attributes_progress:
  "read_attributes bufsiz p st = Inr (p', d, st') \<Longrightarrow> settled st \<Longrightarrow>
    settled st' \<and> (eofbit st' \<or> length (rest st') < length (rest st))"
proof (induction bufsiz p st arbitrary: p' d st' rule: read_attributes.induct)
  case (1 bufsiz p st)
  obtain ok l st1 where s: "script_line st = (ok, l, st1)" by (metis prod_cases3)
  note unfold = read_attributes.simps [of bufsiz p st] and ra = 1(3)
  from s 1(4) show ?case
  proof (cases rule: script_line_step)
    case line
    consider "trim l = []" | "trim l \<noteq> []" "trim l = data_start_tag" | "trim l \<noteq> []" "trim l \<noteq> data_start_tag"
      by blast
    then show ?thesis
    proof cases
      case 1
      with ra s line unfold have "read_attributes bufsiz p st1 = Inr (p', d, st')"
        by simp
      with 1 "1.IH"(1) [OF s [symmetric] refl line(1)] line show ?thesis by force
    next
      case 2
      with ra s line unfold
      obtain d1 where "read_action_data bufsiz st1 = Inr (d1, st')" by (auto elim!: bindE)
      with read_data_loop_progress line show ?thesis unfolding read_action_data_def by fastforce
    next
      case 3
      with ra s line unfold
      have "read_attributes bufsiz (snd (props_put_line (trim l) p)) st1 = Inr (p', d, st')" by simp
      with 3 "1.IH"(2) [OF s [symmetric] refl line(1)] line show ?thesis by force
    qed
  next
    case ended
    with 1(3) s unfold show ?thesis by simp
  qed
qed

lemma read_block_progress:
  assumes "read_block bufsiz st = Inr r" "settled st"
  shows "settled (snd r) \<and> (eofbit (snd r) \<or> length (rest (snd r)) < length (rest st))"
proof -
  obtain found st1 where f: "find_type st = Inr (found, st1)"
    using assms(1) by (auto simp: read_block_def elim!: bindE)
  obtain p d st2 where a: "read_attributes bufsiz props_clear st1 = Inr (p, d, st2)"
    using assms(1) f by (auto simp: read_block_def elim!: bindE)
  have "snd r = st2"
    using assms(1) f a by (cases found) (auto simp: read_block_def elim!: bindE)
  with find_type_progress [OF f assms(2)] read_attributes_progress [OF a] show ?thesis by auto
qed

lemma read_actions_returns:
  "settled st \<Longrightarrow> \<exists>r. read_actions bufsiz st c = Some r"
proof (induction "length (rest st)" arbitrary: st c rule: less_induct)
  case less
  show ?case
  proof (cases "eofbit st")
    case True
    then show ?thesis by (simp add: read_actions.simps [of bufsiz st])
  next
    case more: False
    show ?thesis
    proof (cases "read_block bufsiz st")
      case (Inl e)
      with more show ?thesis by (simp add: read_actions.simps [of bufsiz st])
    next
      case (Inr r)
      note p = read_block_progress [OF Inr less.prems]
      let ?c = "case fst r of None \<Rightarrow> c | Some a \<Rightarrow> actionPush a c"
      have "\<exists>v. read_actions bufsiz (snd r) ?c = Some v"
      proof (cases "eofbit (snd r)")
        case True
        then show ?thesis by (simp add: read_actions.simps [of bufsiz "snd r"])
      qed (use less.hyps p in blast)
      with more Inr show ?thesis by (simp add: read_actions.simps [of bufsiz st])
    qed
  qed
qed

section \<open>Lines of a script\<close>

lemma script_line_open [simp]:
  assumes "newline \<notin> set l"
  shows "script_line (open_stream (l @ newline # r)) =
    (if is_comment l then script_line (open_stream r) else (True, l, open_stream r))"
proof -
  have "getline newline (open_stream (l @ newline # r)) = (True, l, open_stream r)"
    using assms getline_line [of "open_stream (l @ newline # r)" newline l r] by (simp add: open_stream_def)
  then show ?thesis by (simp add: script_line.simps [of "open_stream (l @ newline # r)"])
qed

lemma script_line_end [simp]:
  "script_line (open_stream []) = (False, [], (open_stream [])\<lparr>eofbit := True, failbit := True\<rparr>)"
  by (simp add: script_line.simps getline_def)

lemma find_type_open:
  assumes "newline \<notin> set l"
  shows "find_type (open_stream (l @ newline # r)) =
    (if is_comment l \<or> trim l = [] then find_type (open_stream r)
     else bind (string_to_action_type (trim l)) (\<lambda>t. Inr (Some t, open_stream r)))"
  using script_line_open [OF assms, of r]
  by (cases "is_comment l") (simp_all add: find_type.simps [of "open_stream (l @ newline # r)"]
      find_type.simps [of "open_stream r"])

lemma read_attributes_open:
  assumes "newline \<notin> set l"
  shows "read_attributes bufsiz p (open_stream (l @ newline # r)) =
    (if is_comment l \<or> trim l = [] then read_attributes bufsiz p (open_stream r)
     else if trim l = data_start_tag then
       bind (read_action_data bufsiz (open_stream r)) (\<lambda>(d, st). Inr (p, d, st))
     else read_attributes bufsiz (snd (props_put_line (trim l) p)) (open_stream r))"
  using script_line_open [OF assms, of r]
  by (cases "is_comment l") (simp_all add: read_attributes.simps [of bufsiz p "open_stream (l @ newline # r)"]
      read_attributes.simps [of bufsiz p "open_stream r"])

lemma read_headers_open:
  assumes "newline \<notin> set l"
  shows "read_headers p (open_stream (l @ newline # r)) =
    (if is_comment l then read_headers p (open_stream r)
     else if trimLeft l = [] then (p, open_stream r)
     else read_headers (snd (props_put_line (trimLeft l) p)) (open_stream r))"
  using script_line_open [OF assms, of r]
  by (cases "is_comment l") (simp_all add: read_headers.simps [of p "open_stream (l @ newline # r)"]
      read_headers.simps [of p "open_stream r"])

lemmas blank_lines =
  find_type_open [of "[]", simplified] read_attributes_open [of "[]", simplified]
  read_headers_open [of "[]", simplified]

lemma line_facts [simp]:
  "newline \<notin> set separator" "is_comment separator" "\<not> is_comment []" "trim [] = []" "trimLeft [] = []"
  "newline \<notin> set data_start_tag" "\<not> is_comment data_start_tag" "trim data_start_tag = data_start_tag"
  "data_start_tag \<noteq> []"
  by code_simp+

lemma type_line_facts [simp]:
  "newline \<notin> set (action_type_to_string t)" "\<not> is_comment (action_type_to_string t)"
  "trim (action_type_to_string t) = action_type_to_string t" "action_type_to_string t \<noteq> []"
proof -
  have "\<forall>t \<in> set [CONNECT, SEND, RECV, CLOSE]. newline \<notin> set (action_type_to_string t) \<and>
      \<not> is_comment (action_type_to_string t) \<and> trim (action_type_to_string t) = action_type_to_string t \<and>
      action_type_to_string t \<noteq> []"
    by code_simp
  moreover have "t \<in> set [CONNECT, SEND, RECV, CLOSE]" by (cases t) simp_all
  ultimately show "newline \<notin> set (action_type_to_string t)" "\<not> is_comment (action_type_to_string t)"
    "trim (action_type_to_string t) = action_type_to_string t" "action_type_to_string t \<noteq> []"
    by blast+
qed

text \<open>The block of one action, from the blank lines and the separator to its first attribute.\<close>

lemma find_type_block:
  "find_type (open_stream ([newline] @ separator @ [newline, newline] @ action_type_to_string t @ newline # r)) =
    Inr (Some t, open_stream r)"
  using find_type_open [of "[]" "separator @ newline # newline # action_type_to_string t @ newline # r"]
    find_type_open [of separator "newline # action_type_to_string t @ newline # r"]
    find_type_open [of "[]" "action_type_to_string t @ newline # r"]
    find_type_open [of "action_type_to_string t" r]
  by simp

lemma read_attributes_data:
  assumes "payload_ok bufsiz d" "30 \<le> bufsiz"
  shows "read_attributes bufsiz p (open_stream (data_start_tag @ newline # d @ data_end_tag @ tail)) =
    Inr (p, d, open_stream tail)"
  using read_attributes_open [of data_start_tag bufsiz p "d @ data_end_tag @ tail"]
    read_action_data_payload [OF assms, of "open_stream (d @ data_end_tag @ tail)" tail]
  by (simp add: good_def open_stream_def)

definition encoding_line :: string where
  "encoding_line = props_line (ENCODING_PROP, BASE64_ENCODING)"

lemma encoding_line_facts [simp]:
  "newline \<notin> set encoding_line" "\<not> is_comment encoding_line" "trim encoding_line = encoding_line"
  "encoding_line \<noteq> []" "encoding_line \<noteq> data_start_tag"
  by code_simp+

lemma read_attributes_encoded:
  assumes "payload_ok bufsiz d" "30 \<le> bufsiz"
  shows "read_attributes bufsiz props_clear
      (open_stream (encoding_line @ newline # data_start_tag @ newline # d @ data_end_tag @ tail)) =
    Inr (props_put ENCODING_PROP BASE64_ENCODING props_clear, d, open_stream tail)"
proof -
  have "entry_ok (ENCODING_PROP, BASE64_ENCODING)" by code_simp
  then have "props_put_line encoding_line props_clear =
      (True, props_put ENCODING_PROP BASE64_ENCODING props_clear)"
    unfolding encoding_line_def by (simp add: props_put_line_entry)
  then show ?thesis
    using read_attributes_open [of encoding_line bufsiz props_clear
        "data_start_tag @ newline # d @ data_end_tag @ tail"]
      read_attributes_data [OF assms]
    by simp
qed

section \<open>Base64 payloads\<close>

text \<open>
  Text without delimiters is restored where it fits into the buffer with its tag and has thirteen
  characters at least, or where the last chunk is not too short.
\<close>

lemma payload_ok_plain:
  assumes "30 \<le> bufsiz" "delim \<notin> set d"
    and "if length d + 11 < bufsiz then 13 \<le> length d
      else let m = (length d + 12 - bufsiz) mod (bufsiz - 13) in m = 0 \<or> 12 \<le> m"
  shows "payload_ok bufsiz d"
proof -
  have tag: "data_end_tag = ''<#DATA_END#'' @ [delim]" "delim \<notin> set ''<#DATA_END#''"
    by (simp_all add: data_end_tag_def delim_def)
  let ?p = "d @ ''<#DATA_END#''"
  have p: "d @ data_end_tag = ?p @ [delim]" "delim \<notin> set ?p" using assms tag by auto
  have "copies_apart bufsiz 0 (d @ data_end_tag)"
  proof -
    have "length ?p = length d + 11" "?p \<noteq> []" by simp_all
    with copies_apart_start [OF assms(1) p(2)] assms(3) show ?thesis unfolding p(1) by (simp only: add.assoc) simp
  qed
  moreover have "hd (d @ data_end_tag) \<noteq> delim" using p(2) unfolding p(1) by (cases d) (auto simp: delim_def)
  moreover have "\<not> sublist [delim, delim] (d @ data_end_tag)"
  proof
    assume "sublist [delim, delim] (d @ data_end_tag)"
    then obtain ps ss where "?p @ [delim] = ps @ [delim, delim] @ ss" unfolding p(1) sublist_def by blast
    then have "?p = ps @ delim # butlast (delim # ss)" by (metis append_Cons append_Nil append_is_Nil_conv
          butlast.simps(2) butlast_append butlast_snoc list.distinct(1))
    with p(2) show False by (metis in_set_conv_decomp)
  qed
  moreover have "\<not> sublist data_end_tag (butlast (d @ data_end_tag))"
  proof
    assume "sublist data_end_tag (butlast (d @ data_end_tag))"
    then have "set data_end_tag \<subseteq> set ?p" unfolding p(1) by (metis butlast_snoc set_mono_sublist)
    moreover have "delim \<in> set data_end_tag" unfolding tag(1) by simp
    ultimately show False using p(2) by blast
  qed
  ultimately show ?thesis unfolding payload_ok_def by simp
qed

lemma ref_encode_plain: "delim \<notin> set (ref_encode d)"
proof -
  have b: "b64_char n \<noteq> delim" for n
  proof -
    have "sextet delim = None" by code_simp
    with sextet_b64_char [of n] show ?thesis by (metis option.distinct(1))
  qed
  have q: "CHR ''='' \<noteq> delim" by (simp add: delim_def)
  show ?thesis
    by (induction d rule: ref_encode.induct) (auto simp: ref_group_def b [symmetric] b q q [symmetric])
qed

section \<open>Blocks\<close>

text \<open>Actions whose written form the data reader restores.\<close>

definition written_data :: "action \<Rightarrow> string" where
  "written_data a = (if is_binary (act_data a) then ref_encode (act_data a) else act_data a)"

definition restorable :: "nat \<Rightarrow> action \<Rightarrow> bool" where
  "restorable bufsiz a \<longleftrightarrow> payload_ok bufsiz (written_data a)"

text \<open>Binary data is at least fifty bytes long, so its Base64 text is restored where the buffer holds it.\<close>

lemma binary_restorable:
  assumes "is_binary (act_data a)" "length (act_data a) < 2 ^ 31" "length (ref_encode (act_data a)) + 11 < bufsiz"
  shows "restorable bufsiz a"
proof -
  have "50 \<le> length (act_data a)" using assms(1,2) is_binary_tail by blast
  moreover have "length (act_data a) \<le> length (ref_encode (act_data a))"
    unfolding ref_encode_length by (simp split: if_splits) presburger+
  ultimately have "payload_ok bufsiz (ref_encode (act_data a))"
    using assms(3) by (intro payload_ok_plain ref_encode_plain) auto
  with assms(1) show ?thesis by (simp add: restorable_def written_data_def)
qed

lemma from_base64_ref: "from_base64 (ref_encode d) = Inr d"
  using decode_text_refines [of Little_Endian "ref_encode d"]
  by (simp add: from_base64_def ref_round_trip)

lemma read_block_written:
  assumes "write_action visit a = Inr s" "restorable bufsiz a" "30 \<le> bufsiz" "\<forall>p. mset (visit p) = mset p"
  shows "read_block bufsiz (open_stream ([newline] @ separator @ [newline, newline] @ s @ tail)) =
    Inr (Some (create_action (act_type a) (act_data a)), open_stream (newline # tail))"
proof (cases "is_binary (act_data a)")
  case True
  have "mset (visit [(ENCODING_PROP, BASE64_ENCODING)]) = {#(ENCODING_PROP, BASE64_ENCODING)#}"
    using assms(4) by simp
  then have v: "visit [(ENCODING_PROP, BASE64_ENCODING)] = [(ENCODING_PROP, BASE64_ENCODING)]" by simp
  have p: "payload_ok bufsiz (ref_encode (act_data a))"
    using assms(2) True by (simp add: restorable_def written_data_def)
  have s: "s = action_type_to_string (act_type a) @ newline # encoding_line @ newline #
      data_start_tag @ newline # ref_encode (act_data a) @ data_end_tag @ [newline]"
    using assms(1) True v
    by (simp add: write_action_def to_base64_refines props_write_def props_put_def props_clear_def
        encoding_line_def)
  show ?thesis
    unfolding s
    using find_type_block [of "act_type a" "encoding_line @ newline # data_start_tag @ newline #
        ref_encode (act_data a) @ data_end_tag @ newline # tail"]
      read_attributes_encoded [OF p assms(3), of "newline # tail"]
    by (simp add: read_block_def from_base64_ref)
next
  case False
  with assms(2) have p: "payload_ok bufsiz (act_data a)" by (simp add: restorable_def written_data_def)
  have s: "s = action_type_to_string (act_type a) @ newline # data_start_tag @ newline #
      act_data a @ data_end_tag @ [newline]"
    using assms(1) False by (simp add: write_action_def)
  show ?thesis
    unfolding s
    using find_type_block [of "act_type a" "data_start_tag @ newline # act_data a @ data_end_tag @ newline # tail"]
      read_attributes_data [OF p assms(3), of props_clear "newline # tail"]
    by (simp add: read_block_def props_contains_def props_clear_def)
qed

lemma read_block_blank:
  "read_block bufsiz (open_stream (newline # newline # r)) = read_block bufsiz (open_stream (newline # r))"
  by (simp add: read_block_def blank_lines)

lemma read_block_end:
  "read_block bufsiz (open_stream [newline]) =
    Inr (None, (open_stream [])\<lparr>eofbit := True, failbit := True\<rparr>)"
  by (simp add: read_block_def blank_lines find_type.simps [of "open_stream []"]
      read_attributes.simps getline_def script_line.simps)

lemma read_actions_step:
  "read_block bufsiz (open_stream r) = Inr (found, st) \<Longrightarrow>
    read_actions bufsiz (open_stream r) c =
      read_actions bufsiz st (case found of None \<Rightarrow> c | Some a \<Rightarrow> actionPush a c)"
  by (simp add: read_actions.simps [of bufsiz "open_stream r"])

lemma read_actions_written:
  assumes "\<forall>p. mset (visit p) = mset p" "30 \<le> bufsiz"
  shows "\<forall>a \<in> set as. restorable bufsiz a \<Longrightarrow> write_actions visit (as @ bs) = Inr s \<Longrightarrow>
    \<exists>r. write_actions visit bs = Inr r \<and> read_actions bufsiz (open_stream (newline # s)) c =
      read_actions bufsiz (open_stream (newline # r))
        (c\<lparr>action_queue := action_queue c @ map (\<lambda>a. create_action (act_type a) (act_data a)) as\<rparr>)"
proof (induction as arbitrary: s c)
  case (Cons a as)
  from Cons.prems(2) obtain sa r where s: "write_action visit a = Inr sa" "write_actions visit (as @ bs) = Inr r"
    "s = [newline] @ separator @ [newline, newline] @ sa @ r"
    by (auto simp: result_simps)
  have "restorable bufsiz a" "\<forall>a \<in> set as. restorable bufsiz a" using Cons.prems(1) by simp_all
  have "read_block bufsiz (open_stream (newline # s)) =
      Inr (Some (create_action (act_type a) (act_data a)), open_stream (newline # r))"
    using read_block_written [OF s(1) \<open>restorable bufsiz a\<close> assms(2,1), of r] read_block_blank s(3) by simp
  then show ?case
    using Cons.IH [OF \<open>\<forall>a \<in> set as. restorable bufsiz a\<close> s(2), of "actionPush (create_action (act_type a) (act_data a)) c"]
    by (simp add: read_actions_step actionPush_def)
qed simp

lemma read_actions_end:
  "read_actions bufsiz (open_stream [newline]) c = Some (Inr (c, (open_stream [])\<lparr>eofbit := True, failbit := True\<rparr>))"
  by (simp add: read_actions_step [OF read_block_end] read_actions.simps [of bufsiz "open_stream []\<lparr>eofbit := True, failbit := True\<rparr>"])

text \<open>An action without data: its block cannot be read.\<close>

lemma read_actions_empty_data:
  assumes "30 \<le> bufsiz" "write_actions visit (b # bs) = Inr s" "act_data b = []"
  shows "read_actions bufsiz (open_stream (newline # s)) c = Some (Inl (Undefined_behaviour Invalid_range))"
proof -
  obtain r where s: "s = [newline] @ separator @ [newline, newline] @ action_type_to_string (act_type b) @ newline #
      data_start_tag @ newline # data_end_tag @ newline # r"
    using assms(2,3) by (auto simp: result_simps write_action_def is_binary_def)
  have "read_attributes bufsiz props_clear (open_stream (data_start_tag @ newline # data_end_tag @ newline # r)) =
      Inl (Undefined_behaviour Invalid_range)"
    using read_attributes_open [of data_start_tag bufsiz props_clear "data_end_tag @ newline # r"]
      empty_data_undefined [OF assms(1), of "newline # r"]
    by simp
  then have "read_block bufsiz (open_stream (newline # s)) = Inl (Undefined_behaviour Invalid_range)"
    using find_type_block [of "act_type b" "data_start_tag @ newline # data_end_tag @ newline # r"] read_block_blank s
    by (simp add: read_block_def)
  then show ?thesis by (simp add: read_actions.simps [of bufsiz "open_stream (newline # s)"])
qed

text \<open>
  Behind the header the first blank line is already consumed; the rest of the script starts with
  the separator.
\<close>

lemma read_actions_skip:
  "read_actions bufsiz (open_stream (newline # newline # r)) c = read_actions bufsiz (open_stream (newline # r)) c"
  by (simp add: read_actions.simps [of bufsiz "open_stream (newline # _)"] read_block_blank)

lemma read_actions_after_blank:
  "read_actions bufsiz (open_stream (newline # separator @ newline # r)) c =
    read_actions bufsiz (open_stream (separator @ newline # r)) c"
  by (simp add: read_actions.simps [of bufsiz "open_stream _"] read_block_def blank_lines
      find_type_open [of separator])

lemma read_actions_after_header:
  assumes "write_actions visit as = Inr (newline # s)"
  shows "read_actions bufsiz (open_stream s) c = read_actions bufsiz (open_stream (newline # newline # s)) c"
proof -
  obtain r where "s = separator @ newline # r"
    using assms by (cases as) (auto simp: result_simps)
  then show ?thesis using read_actions_skip [of bufsiz s c] read_actions_after_blank [of bufsiz r c] by simp
qed

section \<open>The header\<close>

definition header_ok :: "string \<times> string \<Rightarrow> bool" where
  "header_ok e \<longleftrightarrow> entry_ok e \<and> fst e \<noteq> [] \<and> hd (fst e) \<noteq> CHR ''#'' \<and>
     newline \<notin> set (fst e) \<and> newline \<notin> set (snd e)"

lemma header_line:
  assumes "header_ok e"
  shows "read_headers p (open_stream (props_line e @ newline # r)) =
    read_headers (props_put (fst e) (snd e) p) (open_stream r)"
proof -
  obtain k ks where k: "fst e = k # ks" "k \<noteq> CHR ''#''" "\<not> isspace k"
    using assms by (cases "fst e") (auto simp: header_ok_def entry_ok_def trimmed_def)
  have "newline \<notin> set (props_line e)" using assms by (auto simp: header_ok_def props_line_def delimiter_def)
  moreover have "\<not> is_comment (props_line e)" "trimLeft (props_line e) = props_line e" "props_line e \<noteq> []"
    using k by (simp_all add: is_comment_def trimLeft_def props_line_def)
  moreover have "entry_ok e" using assms by (simp add: header_ok_def)
  ultimately show ?thesis
    using read_headers_open [of "props_line e" p r] by (simp add: props_put_line_entry)
qed

lemma header_lines:
  "\<forall>e \<in> set es. header_ok e \<Longrightarrow>
    read_headers p (open_stream (concat (map (\<lambda>e. props_line e @ ''\<newline>'') es) @ r)) =
      read_headers (put_lines (map props_line es) p) (open_stream r)"
proof (induction es arbitrary: p)
  case Nil
  then show ?case by (simp add: put_lines_def)
next
  case (Cons e es)
  then have "entry_ok e" by (simp add: header_ok_def)
  with Cons header_line [of e p "concat (map (\<lambda>e. props_line e @ ''\<newline>'') es) @ r"] show ?case
    by (simp add: put_lines_def props_put_line_entry)
qed

lemma header_end:
  "fst (read_headers p (open_stream [])) = p" "fst (read_headers p (open_stream (newline # r))) = p"
  "snd (read_headers p (open_stream (newline # r))) = open_stream r"
  by (simp_all add: blank_lines read_headers.simps [of p "open_stream []"])

text \<open>The entries of a written header, in whatever order they are visited.\<close>

abbreviation header_port :: "'a packet_conversation_scheme \<Rightarrow> nat" where
  "header_port c \<equiv> unat (ntohs (sa_port (test_sock_addr c)))"

lemma header_ok_written:
  assumes "protocol = TCP_PROT_NAME \<or> protocol = UDP_PROT_NAME"
  shows "header_ok (PROTOCOL_PROP, protocol)" "header_ok (TEST_PORT_PROP, to_string n)"
proof -
  show "header_ok (PROTOCOL_PROP, protocol)"
    using assms by (elim disjE) (simp_all only:, code_simp+)
  have "\<forall>c \<in> set (to_string n). \<not> isspace c \<and> c \<noteq> newline"
    using to_string_digits [of n] by (auto simp: is_digit_iff isspace_def)
  moreover have "trimmed TEST_PORT_PROP" "delimiter \<notin> set TEST_PORT_PROP" "hd TEST_PORT_PROP \<noteq> CHR ''#''"
    "newline \<notin> set TEST_PORT_PROP" "TEST_PORT_PROP \<noteq> []"
    by code_simp+
  ultimately show "header_ok (TEST_PORT_PROP, to_string n)"
    by (auto simp: header_ok_def entry_ok_def trimmed_def)
qed

lemma write_headers_map:
  assumes "write_headers visit protocol c = Inr h" "\<forall>p. mset (visit p) = mset p"
    and "protocol = TCP_PROT_NAME \<or> protocol = UDP_PROT_NAME"
  obtains q where "map_of q = (map_of p)(PROTOCOL_PROP \<mapsto> protocol, TEST_PORT_PROP \<mapsto> to_string (header_port c))"
    "\<And>r. read_headers p (open_stream (h @ r)) = read_headers q (open_stream r)"
proof -
  define t where "t = props_put TEST_PORT_PROP (to_string (header_port c)) (props_put PROTOCOL_PROP protocol props_clear)"
  have "h = props_write visit t"
    using assms(1) by (auto simp: write_headers_def t_def Let_def split: if_splits)
  moreover have t: "t = [(PROTOCOL_PROP, protocol), (TEST_PORT_PROP, to_string (header_port c))]"
    by (simp add: t_def props_put_def props_clear_def PROTOCOL_PROP_def TEST_PORT_PROP_def)
  moreover have set: "set (visit t) = set t" using assms(2) mset_eq_setD by blast
  ultimately have ok: "\<forall>e \<in> set (visit t). header_ok e" "h = concat (map (\<lambda>e. props_line e @ ''\<newline>'') (visit t))"
    using header_ok_written [OF assms(3)] by (auto simp: props_write_def)
  have "props_ok t" by (simp add: t_def)
  then have "map_of (rev (visit t)) = map_of t" using map_of_visit [of t "rev (visit t)"] assms(2) by simp
  then have "map_of (put_lines (map props_line (visit t)) p) = map_of p ++ map_of t"
    using ok(1) by (subst put_lines_entries) (auto simp: header_ok_def)
  also have "\<dots> = (map_of p)(PROTOCOL_PROP \<mapsto> protocol, TEST_PORT_PROP \<mapsto> to_string (header_port c))"
    by (auto simp: t PROTOCOL_PROP_def TEST_PORT_PROP_def map_add_def fun_eq_iff)
  finally show thesis using that header_lines [OF ok(1)] ok(2) by blast
qed

lemma getAsInt_map: "map_of q k = Some (to_string n) \<Longrightarrow> n < 2 ^ 31 \<Longrightarrow> getAsInt k q = Inr (int n)"
  by (simp add: getAsInt_def props_get_def stoi_to_string)

lemma prop_names [simp]:
  "TEST_ADDRESS_PROP \<noteq> PROTOCOL_PROP" "TEST_ADDRESS_PROP \<noteq> TEST_PORT_PROP" "PROTOCOL_PROP \<noteq> TEST_PORT_PROP"
  "TCP_PROT_NAME \<noteq> UDP_PROT_NAME"
  by (simp_all add: TEST_ADDRESS_PROP_def PROTOCOL_PROP_def TEST_PORT_PROP_def TCP_PROT_NAME_def UDP_PROT_NAME_def)

lemma open_script_stream:
  assumes "open_script n getaddrinfo st = Inr (c, st1)"
  shows "st1 = snd (read_headers props_clear st)"
proof -
  obtain q st2 where h: "read_headers props_clear st = (q, st2)" by fastforce
  show ?thesis
    using assms unfolding open_script_def h prod.case
    by (elim bindE) (simp split: if_splits, elim bindE, simp)
qed

section \<open>Tokens\<close>

lemma sub_simps [simp]: "subPrefix = ''${''" "subSuffix = ''}''"
  by (simp_all add: subPrefix_def subSuffix_def)

lemma create_action_token:
  assumes "CHR ''$'' \<notin> set pre" "CHR ''}'' \<notin> set t" "CHR ''$'' \<notin> set post"
  shows "sub_tokens (create_action ty (pre @ ''${'' @ t @ ''}'' @ post)) =
    [\<lparr>tok = take (length pre + 2 + length t) (t @ ''}'' @ post), begin_idx = int (length pre),
      end_idx = int (length pre + length t + 3)\<rparr>]"
proof -
  let ?v = "pre @ ''${'' @ t @ ''}'' @ post"
  have s: "find_from ?v ''${'' 0 = Some (length pre)"
    using assms(1) find_at_skip [of "''${''" pre "''${'' @ t @ ''}'' @ post" 0]
      find_at_here [of "''${''" "t @ ''}'' @ post" "length pre"]
    by (simp add: find_from_def)
  have e: "find_from ?v ''}'' (length pre + 2) = Some (length pre + 2 + length t)"
    using assms(2) find_at_skip [of "''}''" t "''}'' @ post" "length pre + 2"]
      find_at_here [of "''}''" post "length pre + 2 + length t"]
      find_from_drop [of "pre @ ''${''" "t @ ''}'' @ post" "''}''"]
    by simp
  have n: "find_from ?v ''${'' (Suc (Suc (Suc (length pre + length t)))) = None"
    using assms(3) find_at_absent [of "''${''" post]
      find_from_drop [of "pre @ ''${'' @ t @ ''}''" post "''${''"]
    by (simp add: eval_nat_numeral)
  have rest: "add_tokens ?v (Suc (Suc (Suc (length pre + length t)))) a = a" for a
    using n by (simp add: add_tokens.simps)
  have "substr ?v (length pre + 2) (length pre + 2 + length t) =
      take (length pre + 2 + length t) (t @ ''}'' @ post)"
    by (simp add: substr_def)
  moreover have "length pre + 2 + length t + length ''}'' = length pre + length t + 3" by simp
  ultimately have "add_tokens ?v 0 a =
      addSubToken (take (length pre + 2 + length t) (t @ ''}'' @ post)) (int (length pre))
        (int (length pre + length t + 3)) a" for a
    using s e rest by (simp add: add_tokens.simps [of ?v 0] ac_simps del: append.simps)
  then show ?thesis by (simp add: create_action_def addSubToken_def new_action_data_def)
qed

text \<open>The header of a written script, with an address line before it, opens the conversation it describes.\<close>

lemma open_written_script:
  assumes "write_script visit TCP_PROT_NAME c = Inr script" "\<forall>p. mset (visit p) = mset p"
    and "newline \<notin> set addr" "trimmed addr" "getaddrinfo addr = Inr AF_INET"
  shows "\<exists>h s q. write_actions visit (action_queue c) = Inr s \<and> script = h @ s \<and>
    (fst (read_headers q (open_stream s)) = q \<longrightarrow>
      open_script n getaddrinfo (open_stream (props_line (TEST_ADDRESS_PROP, addr) @ newline # script)) =
        Inr (tcp_from_spec n IpLayerSpec \<lparr>test_addr = addr, test_port = int (header_port c)\<rparr>,
          snd (read_headers q (open_stream s))))"
proof -
  obtain h s where hs: "write_headers visit TCP_PROT_NAME c = Inr h"
    "write_actions visit (action_queue c) = Inr s" "script = h @ s"
    using assms(1) by (auto simp: write_script_def result_simps)
  have "entry_ok (TEST_ADDRESS_PROP, x) \<longleftrightarrow> trimmed x" for x
    by (simp add: entry_ok_def TEST_ADDRESS_PROP_def trimmed_def isspace_def delimiter_def)
  then have ok: "header_ok (TEST_ADDRESS_PROP, addr)"
    using assms(3,4) by (simp add: header_ok_def) (simp add: TEST_ADDRESS_PROP_def)
  obtain q where q: "map_of q = (map_of (props_put TEST_ADDRESS_PROP addr props_clear))
      (PROTOCOL_PROP \<mapsto> TCP_PROT_NAME, TEST_PORT_PROP \<mapsto> to_string (header_port c))"
    "\<And>r. read_headers (props_put TEST_ADDRESS_PROP addr props_clear) (open_stream (h @ r)) =
      read_headers q (open_stream r)"
    using write_headers_map [OF hs(1) assms(2) disjI1 [OF refl]] by blast
  have head: "read_headers props_clear (open_stream (props_line (TEST_ADDRESS_PROP, addr) @ newline # script)) =
      read_headers q (open_stream s)"
    using header_line [OF ok, of props_clear script] q(2) hs(3) by simp
  have "header_port c < 2 ^ 31" using unsigned_less [of "ntohs (sa_port (test_sock_addr c))", where 'a = nat] by simp
  then have "getAsInt TEST_PORT_PROP q = Inr (int (header_port c))"
    using q(1) by (intro getAsInt_map) simp_all
  moreover have "props_get TEST_ADDRESS_PROP q = Inr addr" "props_get PROTOCOL_PROP q = Inr TCP_PROT_NAME"
    using q(1) by (simp_all add: props_get_def)
  ultimately have "fst (read_headers q (open_stream s)) = q \<longrightarrow>
      open_script n getaddrinfo (open_stream (props_line (TEST_ADDRESS_PROP, addr) @ newline # script)) =
        Inr (tcp_from_spec n IpLayerSpec \<lparr>test_addr = addr, test_port = int (header_port c)\<rparr>,
          snd (read_headers q (open_stream s)))"
    using head assms(5) by (cases "read_headers q (open_stream s)") (simp add: open_script_def)
  with hs(2,3) show ?thesis by blast
qed

section \<open>Properties\<close>

text \<open>
  C14. How a written conversation reads back once an address line is put in front of its script, for
  every visiting order of the tables and every buffer of at least 30 bytes. Where the written form of
  every action is data that the reader restores (\<open>payload_ok\<close>; so all binary data whose Base64 text
  fits into the buffer), the reader returns a TCP conversation
  for the written port whose queue holds actions of the written types with the written data, in order,
  their tokens found in the data anew. Where an action without data follows such actions, as every
  \<open>CONNECT\<close> and \<open>CLOSE\<close> of a recorded session does, reading the script is undefined.
\<close>

theorem script_round_trip:
  assumes "write_script visit TCP_PROT_NAME c = Inr script" "\<forall>p. mset (visit p) = mset p" "30 \<le> bufsiz"
    and "action_queue c = as @ bs" "\<forall>a \<in> set as. restorable bufsiz a" "bs = [] \<or> act_data (hd bs) = []"
    and "newline \<notin> set addr" "trimmed addr" "getaddrinfo addr = Inr AF_INET"
  shows "read_script bufsiz n getaddrinfo
      (open_stream (props_line (TEST_ADDRESS_PROP, addr) @ newline # script)) =
    Some (if bs = []
      then Inr (tcp_from_spec n IpLayerSpec \<lparr>test_addr = addr, test_port = int (header_port c)\<rparr>
        \<lparr>action_queue := map (\<lambda>a. create_action (act_type a) (act_data a)) as\<rparr>)
      else Inl (Undefined_behaviour Invalid_range))"
proof -
  let ?c0 = "tcp_from_spec n IpLayerSpec \<lparr>test_addr = addr, test_port = int (header_port c)\<rparr>"
  obtain h s q where hs: "write_actions visit (action_queue c) = Inr s" "script = h @ s"
    and opened: "fst (read_headers q (open_stream s)) = q \<Longrightarrow> open_script n getaddrinfo
      (open_stream (props_line (TEST_ADDRESS_PROP, addr) @ newline # script)) =
      Inr (?c0, snd (read_headers q (open_stream s)))"
    using open_written_script [of visit c script addr getaddrinfo, OF assms(1,2,7-9)] by blast
  have empty: "action_queue ?c0 = []"
    by (simp add: tcp_from_spec_def conversation_from_spec_def Let_def packet_conversation.defs
        tcp_conversation.defs)
  show ?thesis
  proof (cases "action_queue c")
    case Nil
    then have "s = []" using hs(1) by simp
    then have "open_script n getaddrinfo
        (open_stream (props_line (TEST_ADDRESS_PROP, addr) @ newline # script)) =
      Inr (?c0, open_stream []\<lparr>eofbit := True, failbit := True\<rparr>)"
      using opened header_end(1) [of q] by (simp add: read_headers.simps [of q])
    then show ?thesis using Nil empty assms(4)
      by (simp add: read_script_def read_actions.simps)
  next
    case (Cons a as')
    then obtain s' where s': "s = newline # s'" using hs(1) by (auto simp: result_simps)
    let ?c1 = "?c0\<lparr>action_queue := map (\<lambda>a. create_action (act_type a) (act_data a)) as\<rparr>"
    obtain r where r: "write_actions visit bs = Inr r" "read_actions bufsiz (open_stream (newline # s)) ?c0 =
        read_actions bufsiz (open_stream (newline # r)) ?c1"
      using read_actions_written [OF assms(2,3,5), of bs s ?c0] hs(1) assms(4) empty by auto
    have "read_actions bufsiz (open_stream s') ?c0 = read_actions bufsiz (open_stream (newline # s)) ?c0"
      using read_actions_after_header [of visit "action_queue c" s' bufsiz ?c0] hs(1) s' by simp
    moreover have "open_script n getaddrinfo
        (open_stream (props_line (TEST_ADDRESS_PROP, addr) @ newline # script)) = Inr (?c0, open_stream s')"
      using opened header_end(2,3) [of q s'] s' by simp
    moreover have "read_actions bufsiz (open_stream (newline # r)) ?c1 = Some (Inl (Undefined_behaviour Invalid_range))"
      if "bs \<noteq> []"
      using that r(1) assms(6) by (cases bs) (auto intro: read_actions_empty_data [OF assms(3)] simp del: write_actions.simps)
    ultimately show ?thesis
      using r read_actions_end [of bufsiz ?c1] by (cases "bs = []") (simp_all add: read_script_def)
  qed
qed

text \<open>
  C31. A script as the program writes it never reads back: the header holds no address, so the
  reader ends with the exception of the table lookup, whatever was recorded.
\<close>

theorem written_script_unreadable:
  assumes "write_script visit protocol c = Inr script" "\<forall>p. mset (visit p) = mset p"
    and "protocol = TCP_PROT_NAME \<or> protocol = UDP_PROT_NAME"
  shows "read_script bufsiz n getaddrinfo (open_stream script) = Some (Inl (Out_of_range ''unordered_map::at''))"
proof -
  obtain h s where hs: "write_headers visit protocol c = Inr h"
    "write_actions visit (action_queue c) = Inr s" "script = h @ s"
    using assms(1) by (auto simp: write_script_def result_simps)
  obtain q where q: "map_of q = (map_of props_clear)
      (PROTOCOL_PROP \<mapsto> protocol, TEST_PORT_PROP \<mapsto> to_string (header_port c))"
    "\<And>r. read_headers props_clear (open_stream (h @ r)) = read_headers q (open_stream r)"
    using write_headers_map [OF hs(1) assms(2,3), of props_clear] by blast
  have "s = [] \<or> (\<exists>r. s = newline # r)" using hs(2) by (cases "action_queue c") (auto simp: result_simps)
  then have "fst (read_headers q (open_stream s)) = q" using header_end by auto
  moreover have "props_get TEST_ADDRESS_PROP q = Inl (Out_of_range ''unordered_map::at'')"
    using q(1) by (simp add: props_get_def props_clear_def)
  ultimately show ?thesis
    using q(2) [of s] hs(3)
    by (cases "read_headers q (open_stream s)") (simp add: read_script_def open_script_def)
qed

text \<open>
  C27. Reading returns: whatever the text, the reader ends with a conversation, an exception or an
  undefined operation; the loop over the actions does not run forever.
\<close>

theorem reading_terminates: "\<exists>r. read_script bufsiz n getaddrinfo (open_stream text0) = Some r"
proof (cases "open_script n getaddrinfo (open_stream text0)")
  case (Inl e)
  then show ?thesis by (simp add: read_script_def)
next
  case (Inr v)
  have "settled (snd (read_headers p st))" if "settled st" for p st
    using that
  proof (induction p st rule: read_headers.induct)
    case (1 p st)
    obtain ok l st1 where s: "script_line st = (ok, l, st1)" by (metis prod_cases3)
    from script_line_progress [OF s 1(2)] 1(1) [OF s [symmetric] refl] show ?case
      by (simp add: read_headers.simps [of p st] s)
  qed
  moreover have "snd v = snd (read_headers props_clear (open_stream text0))"
    using Inr open_script_stream by (cases v) simp
  ultimately have "settled (snd v)" by simp
  then obtain r where "read_actions bufsiz (snd v) (fst v) = Some r" using read_actions_returns by blast
  with Inr show ?thesis by (cases v) (simp add: read_script_def)
qed

text \<open>
  The token recorded for a single \<open>${...}\<close> is the text between the markers with the suffix
  behind it and as many further characters as the data has before and in the markers: the index of
  the suffix is used as the length. The recorded positions are those of the markers.
\<close>

theorem token_runs_past_suffix:
  assumes "CHR ''$'' \<notin> set pre" "CHR ''}'' \<notin> set t" "CHR ''$'' \<notin> set post"
  shows "sub_tokens (create_action ty (pre @ ''${'' @ t @ ''}'' @ post)) =
    [\<lparr>tok = t @ CHR ''}'' # take (length pre + 1) post, begin_idx = int (length pre),
      end_idx = int (length pre + length t + 3)\<rparr>]"
  using create_action_token [OF assms, of ty] by simp

text \<open>Two adjacent delimiters in the data: one is lost.\<close>

lemma adjacent_delimiters_lost:
  "read_action_data 64 (open_stream (''aaaaaaaaaaaaaaaaaaaaaaaa>>b'' @ data_end_tag)) =
    Inr (''aaaaaaaaaaaaaaaaaaaaaaaa>b'', open_stream [])"
  by code_simp

section \<open>Witnesses\<close>

text \<open>Two scripts: one whose actions all have data, and a recorded session.\<close>

definition script_conversation :: "action list \<Rightarrow> tcp_conversation" where
  "script_conversation as =
     (tcp_from_spec sample_inet6 IpLayerSpec \<lparr>test_addr = ''10.0.0.1'', test_port = 80\<rparr>)\<lparr>action_queue := as\<rparr>"

definition sample_messages :: "action list" where
  "sample_messages =
     [new_action_data SEND ''GET /index.html'', new_action_data RECV ''some bytes of an answer -> ok and more'']"

definition sample_recorded :: "action list" where
  "sample_recorded = [new_action CONNECT] @ sample_messages @ [new_action CLOSE]"

definition sample_script :: "string \<Rightarrow> string" where
  "sample_script body = ''TestPort: 80\<newline>Protocol: TCP\<newline>'' @ body"

definition message_blocks :: string where
  "message_blocks =
     newline # separator @ ''\<newline>\<newline>SEND\<newline><#DATA_START#>\<newline>GET /index.html<#DATA_END#>\<newline>'' @
     newline # separator @ ''\<newline>\<newline>RECV\<newline><#DATA_START#>\<newline>some bytes of an answer -> ok and more<#DATA_END#>\<newline>''"

definition recorded_blocks :: string where
  "recorded_blocks =
     newline # separator @ ''\<newline>\<newline>CONNECT\<newline><#DATA_START#>\<newline><#DATA_END#>\<newline>'' @ message_blocks @
     newline # separator @ ''\<newline>\<newline>CLOSE\<newline><#DATA_START#>\<newline><#DATA_END#>\<newline>''"

lemma sample_restorable: "\<forall>a \<in> set sample_messages. restorable 8192 a"
proof -
  have "payload_ok 8192 ''GET /index.html''" "payload_ok 8192 ''some bytes of an answer -> ok and more''"
    by code_simp+
  then show ?thesis
    by (simp add: sample_messages_def restorable_def written_data_def is_binary_tail new_action_data_def)
qed

lemma sample_header_written:
  assumes "write_actions rev as = Inr body"
  shows "write_script rev TCP_PROT_NAME (script_conversation as) = Inr (sample_script body)"
proof -
  have "addr_family (script_conversation []) = AF_INET" by code_simp
  then have "addr_family (script_conversation as) = AF_INET" by (simp add: script_conversation_def)
  moreover have "to_string (header_port (script_conversation [])) = ''80''" by code_simp
  then have "to_string (header_port (script_conversation as)) = ''80''" by (simp add: script_conversation_def)
  ultimately have "write_headers rev TCP_PROT_NAME (script_conversation as) =
      Inr ''TestPort: 80\<newline>Protocol: TCP\<newline>''"
    by (simp add: write_headers_def Let_def props_write_def props_line_def props_put_def props_clear_def
        PROTOCOL_PROP_def TEST_PORT_PROP_def TCP_PROT_NAME_def delimiter_def)
  with assms show ?thesis
    by (simp add: write_script_def sample_script_def script_conversation_def)
qed

lemma sample_written:
  "write_script rev TCP_PROT_NAME (script_conversation sample_messages) = Inr (sample_script message_blocks)"
  "write_script rev TCP_PROT_NAME (script_conversation sample_recorded) = Inr (sample_script recorded_blocks)"
  by (rule sample_header_written,
    simp add: sample_messages_def sample_recorded_def write_action_def is_binary_tail new_action_data_def new_action_def
      message_blocks_def recorded_blocks_def data_start_tag_def data_end_tag_def)+

theorem script_round_trip_witness:
  "read_script 8192 sample_inet6 (\<lambda>_. Inr AF_INET)
      (open_stream (props_line (TEST_ADDRESS_PROP, ''10.0.0.2'') @ newline # sample_script message_blocks)) =
    Some (Inr (tcp_from_spec sample_inet6 IpLayerSpec
        \<lparr>test_addr = ''10.0.0.2'', test_port = int (header_port (script_conversation sample_messages))\<rparr>
      \<lparr>action_queue := map (\<lambda>a. create_action (act_type a) (act_data a)) sample_messages\<rparr>)) \<and>
    read_script 8192 sample_inet6 (\<lambda>_. Inr AF_INET)
      (open_stream (props_line (TEST_ADDRESS_PROP, ''10.0.0.2'') @ newline # sample_script recorded_blocks)) =
    Some (Inl (Undefined_behaviour Invalid_range))"
proof -
  have addr: "newline \<notin> set ''10.0.0.2''" "trimmed ''10.0.0.2''" "(\<lambda>_. Inr AF_INET) ''10.0.0.2'' = Inr AF_INET"
    and visit: "\<forall>p. mset (rev p) = mset p"
    by (simp_all add: trimmed_def isspace_def)
  have "action_queue (script_conversation sample_messages) = sample_messages @ []"
    "action_queue (script_conversation sample_recorded) = [] @ sample_recorded"
    "act_data (hd sample_recorded) = []" "sample_recorded \<noteq> []"
    by (simp_all add: script_conversation_def sample_recorded_def new_action_def)
  with script_round_trip [OF sample_written(1) visit _ _ sample_restorable _ addr, of "[]" sample_inet6]
    script_round_trip [OF sample_written(2) visit _ _ _ _ addr, of 8192 "[]" sample_recorded sample_inet6]
  show ?thesis by simp
qed

theorem written_script_unreadable_witness:
  "read_script 8192 sample_inet6 (\<lambda>_. Inr AF_INET) (open_stream (sample_script recorded_blocks)) =
    Some (Inl (Out_of_range ''unordered_map::at''))"
  by (rule written_script_unreadable [OF sample_written(2)]) simp_all

theorem token_runs_past_suffix_witness:
  "sub_tokens (create_action SEND ''id=${id}&name=x'') =
    [\<lparr>tok = ''id}&nam'', begin_idx = 3, end_idx = 8\<rparr>]"
  using token_runs_past_suffix [of "''id=''" "''id''" "''&name=x''" SEND] by simp

end
