(* ===== verification/Dns_Validator.thy ===== *)
theory Dns_Validator
  imports Udp_Replay
begin

text \<open>
  src/src/python/dns.py: the validator of DNS answers that ships with the programs, which is meant to
  compare two packets except for the TTLs of their records. A \<open>BytesIO\<close> is its bytes and its
  position; the only exception the functions can raise is \<open>struct.error\<close>, of \<open>unpack\<close> on too few
  bytes, and \<open>None\<close> stands for it. What the functions print is left out.
\<close>

section \<open>Reading\<close>

record bytes_io =
  io_data :: "byte list"
  io_pos :: nat

definition BytesIO :: "byte list \<Rightarrow> bytes_io" where
  "BytesIO bs = \<lparr>io_data = bs, io_pos = 0\<rparr>"

text \<open>\<open>read\<close> returns fewer bytes at the end, and moves behind those it returns.\<close>

definition io_read :: "nat \<Rightarrow> bytes_io \<Rightarrow> byte list \<times> bytes_io" where
  "io_read n r = (let bs = take n (drop (io_pos r) (io_data r)) in (bs, r\<lparr>io_pos := io_pos r + length bs\<rparr>))"

fun unpack_B :: "byte list \<Rightarrow> nat option" where
  "unpack_B [b] = Some (unat b)"
| "unpack_B _ = None"

fun unpack_H :: "byte list \<Rightarrow> nat option" where
  "unpack_H [a, b] = Some (256 * unat a + unat b)"
| "unpack_H _ = None"

fun unpack_HHHHHH :: "byte list \<Rightarrow> nat list option" where
  "unpack_HHHHHH [a, a', b, b', c, c', d, d', e, e', f, f'] =
     Some (map (\<lambda>(x, y). 256 * unat x + unat y) [(a, a'), (b, b'), (c, c'), (d, d'), (e, e'), (f, f')])"
| "unpack_HHHHHH _ = None"

text \<open>Every turn of the loop takes the byte that holds the length.\<close>

function skip_name :: "bytes_io \<Rightarrow> bytes_io option" where
  "skip_name r =
     (let (bs, r1) = io_read 1 r
      in case unpack_B bs of
           None \<Rightarrow> None
         | Some label_len \<Rightarrow>
             if label_len = 0 then Some r1
             else if label_len > 63 then Some (snd (io_read 1 r1))
             else skip_name (snd (io_read label_len r1)))"
  by auto

termination
proof (relation "measure (\<lambda>r. length (io_data r) - io_pos r)")
  fix r x bs r1 label_len
  assume x: "x = io_read 1 r" "(bs, r1) = x" and "unpack_B bs = Some label_len"
  then have "bs \<noteq> []" by auto
  then show "(snd (io_read label_len r1), r) \<in> measure (\<lambda>r. length (io_data r) - io_pos r)"
    using x by (auto simp: io_read_def Let_def)
qed simp

declare skip_name.simps [simp del]

definition skip_question :: "bytes_io \<Rightarrow> bytes_io option" where
  "skip_question r = Option.bind (skip_name r) (\<lambda>r1. Some (snd (io_read 4 r1)))"

fun skip_questions :: "nat \<Rightarrow> bytes_io \<Rightarrow> bytes_io option" where
  "skip_questions 0 r = Some r"
| "skip_questions (Suc n) r = Option.bind (skip_question r) (skip_questions n)"

section \<open>The validator\<close>

text \<open>One record: the position noted for its TTL, and the reader behind it.\<close>

definition read_record :: "bytes_io \<Rightarrow> (nat \<times> bytes_io) option" where
  "read_record r =
     Option.bind (skip_name r) (\<lambda>r1.
       let r2 = snd (io_read 4 r1); (bs, r3) = io_read 2 r2
       in Option.bind (unpack_H bs) (\<lambda>data_len. Some (io_pos r2, snd (io_read data_len r3))))"

fun read_records :: "nat \<Rightarrow> bytes_io \<Rightarrow> nat list option" where
  "read_records 0 r = Some []"
| "read_records (Suc n) r =
     Option.bind (read_record r) (\<lambda>(ttl, r1). map_option (Cons ttl) (read_records n r1))"

text \<open>\<open>bytes[start : stop]\<close>\<close>

definition slice :: "nat \<Rightarrow> nat \<Rightarrow> byte list \<Rightarrow> byte list" where
  "slice start stop bs = take (stop - start) (drop start bs)"

fun compare_around :: "nat list \<Rightarrow> nat \<Rightarrow> byte list \<Rightarrow> byte list \<Rightarrow> bool" where
  "compare_around [] start e a \<longleftrightarrow> drop start e = drop start a"
| "compare_around (ttl # ttls) start e a \<longleftrightarrow>
     (if slice start ttl e \<noteq> slice start ttl a then False else compare_around ttls (ttl + 4) e a)"

definition dns_validate :: "byte list \<Rightarrow> byte list \<Rightarrow> bool option" where
  "dns_validate e a =
     (let (bs, reader) = io_read 12 (BytesIO e)
      in Option.bind (unpack_HHHHHH bs) (\<lambda>header_items.
         let qd_count = header_items ! 2; an_count = header_items ! 3;
             ns_count = header_items ! 4; ar_count = header_items ! 5
         in Option.bind (skip_questions qd_count reader) (\<lambda>reader1.
            Option.bind (read_records (an_count + ns_count + ar_count) reader1) (\<lambda>ttls.
              Some (compare_around ttls 0 e a)))))"

text \<open>
  The module as the interpreter runs it: an exception is a call without a result, and the result of
  a call holds no reference to its arguments.
\<close>

definition dns_module :: interpreter where
  "dns_module =
     \<lparr>py_import = (\<lambda>_ m. m = ''dns''), py_has = (\<lambda>_ f. f \<in> {''validate'', ''skip_question'', ''skip_name''}),
      py_build = (\<lambda>_ _. True),
      py_call = (\<lambda>m f e a. if m = ''dns'' \<and> f = ''validate'' then map_option (\<lambda>b. (Py_bool b, 0)) (dns_validate e a) else None)\<rparr>"

section \<open>Messages\<close>

text \<open>The wire format: names are labels that end with a zero or with a pointer to an earlier name.\<close>

record dns_name =
  dn_labels :: "byte list list"
  dn_pointer :: "(byte \<times> byte) option"

definition name_ok :: "dns_name \<Rightarrow> bool" where
  "name_ok n \<longleftrightarrow> (\<forall>l \<in> set (dn_labels n). 0 < length l \<and> length l \<le> 63) \<and>
     (\<forall>p q. dn_pointer n = Some (p, q) \<longrightarrow> 63 < unat p)"

definition label_bytes :: "byte list \<Rightarrow> byte list" where
  "label_bytes l = of_nat (length l) # l"

definition name_bytes :: "dns_name \<Rightarrow> byte list" where
  "name_bytes n = concat (map label_bytes (dn_labels n)) @ (case dn_pointer n of None \<Rightarrow> [0] | Some (p, q) \<Rightarrow> [p, q])"

definition short_bytes :: "nat \<Rightarrow> byte list" where
  "short_bytes n = [of_nat (n div 256), of_nat (n mod 256)]"

record dns_question =
  dq_name :: dns_name
  dq_type_class :: "byte list"

definition question_ok :: "dns_question \<Rightarrow> bool" where
  "question_ok q \<longleftrightarrow> name_ok (dq_name q) \<and> length (dq_type_class q) = 4"

definition question_bytes :: "dns_question \<Rightarrow> byte list" where
  "question_bytes q = name_bytes (dq_name q) @ dq_type_class q"

record dns_record =
  dr_name :: dns_name
  dr_type_class :: "byte list"
  dr_ttl :: "byte list"
  dr_data :: "byte list"

definition record_ok :: "dns_record \<Rightarrow> bool" where
  "record_ok d \<longleftrightarrow> name_ok (dr_name d) \<and> length (dr_type_class d) = 4 \<and> length (dr_ttl d) = 4 \<and> length (dr_data d) < 2 ^ 16"

definition record_bytes :: "dns_record \<Rightarrow> byte list" where
  "record_bytes d = name_bytes (dr_name d) @ dr_type_class d @ dr_ttl d @ short_bytes (length (dr_data d)) @ dr_data d"

record dns_message =
  dm_id_flags :: "byte list"
  dm_questions :: "dns_question list"
  dm_answers :: "dns_record list"
  dm_authority :: "dns_record list"
  dm_additional :: "dns_record list"

definition dm_records :: "dns_message \<Rightarrow> dns_record list" where
  "dm_records m = dm_answers m @ dm_authority m @ dm_additional m"

definition message_ok :: "dns_message \<Rightarrow> bool" where
  "message_ok m \<longleftrightarrow> length (dm_id_flags m) = 4 \<and> list_all question_ok (dm_questions m) \<and> list_all record_ok (dm_records m) \<and>
     length (dm_questions m) < 2 ^ 16 \<and> length (dm_records m) < 2 ^ 16"

definition header_of :: "dns_message \<Rightarrow> byte list" where
  "header_of m = dm_id_flags m @ short_bytes (length (dm_questions m)) @ short_bytes (length (dm_answers m)) @
     short_bytes (length (dm_authority m)) @ short_bytes (length (dm_additional m))"

definition message_bytes :: "dns_message \<Rightarrow> byte list" where
  "message_bytes m = header_of m @ concat (map question_bytes (dm_questions m)) @ concat (map record_bytes (dm_records m))"

text \<open>The message with other TTLs.\<close>

definition with_ttl :: "byte list \<Rightarrow> dns_message \<Rightarrow> dns_message" where
  "with_ttl t m = m\<lparr>dm_answers := map (dr_ttl_update (\<lambda>_. t)) (dm_answers m),
     dm_authority := map (dr_ttl_update (\<lambda>_. t)) (dm_authority m),
     dm_additional := map (dr_ttl_update (\<lambda>_. t)) (dm_additional m)\<rparr>"

section \<open>Reading the wire format\<close>

text \<open>A reader that has the bytes \<open>u\<close> behind it and \<open>v\<close> before it.\<close>

definition cursor :: "byte list \<Rightarrow> byte list \<Rightarrow> bytes_io" where
  "cursor u v = \<lparr>io_data = u @ v, io_pos = length u\<rparr>"

named_theorems reading "what a reader does at a cursor"

lemma io_read_cursor: "io_read n (cursor u v) = (take n v, cursor (u @ take n v) (drop n v))"
  by (simp add: io_read_def cursor_def)

lemma io_read_prefix [reading]: "length bs = n \<Longrightarrow> io_read n (cursor u (bs @ v)) = (bs, cursor (u @ bs) v)"
  by (simp add: io_read_cursor)

lemma io_read_one [reading]: "io_read (Suc 0) (cursor u (b # v)) = ([b], cursor (u @ [b]) v)"
  by (simp add: io_read_cursor)

lemma io_pos_cursor [simp]: "io_pos (cursor u v) = length u"
  by (simp add: cursor_def)

lemma unat_of_nat_byte [simp]: "n < 256 \<Longrightarrow> unat (of_nat n :: byte) = n"
  by (simp add: unat_of_nat take_bit_nat_eq_self_iff)

lemma skip_labels:
  assumes "\<forall>l \<in> set ls. 0 < length l \<and> length l \<le> 63"
  shows "skip_name (cursor u (concat (map label_bytes ls) @ v)) = skip_name (cursor (u @ concat (map label_bytes ls)) v)"
  using assms
proof (induction ls arbitrary: u)
  case (Cons l ls)
  then have l: "length l \<noteq> 0" "length l \<le> 63" by auto
  then have "skip_name (cursor u (label_bytes l @ w)) = skip_name (cursor (u @ label_bytes l) w)" for w
    by (subst skip_name.simps) (simp add: label_bytes_def reading)
  with Cons show ?case by simp
qed simp

lemma skip_name_wire [reading]:
  assumes "name_ok n"
  shows "skip_name (cursor u (name_bytes n @ v)) = Some (cursor (u @ name_bytes n) v)"
proof -
  have end_zero: "skip_name (cursor w (0 # v)) = Some (cursor (w @ [0]) v)" for w
    by (subst skip_name.simps) (simp add: reading)
  have end_pointer: "skip_name (cursor w (p # q # v)) = Some (cursor (w @ [p, q]) v)" if "63 < unat p" for w p q
    using that by (subst skip_name.simps) (simp add: reading)
  show ?thesis
    using assms skip_labels [of "dn_labels n" u] end_zero end_pointer
    by (auto simp: name_ok_def name_bytes_def split: option.split)
qed

lemma skip_question_wire [reading]:
  "question_ok q \<Longrightarrow> skip_question (cursor u (question_bytes q @ v)) = Some (cursor (u @ question_bytes q) v)"
  by (simp add: skip_question_def question_ok_def question_bytes_def reading)

lemma skip_questions_wire [reading]:
  "list_all question_ok qs \<Longrightarrow> length qs = n \<Longrightarrow> skip_questions n (cursor u (concat (map question_bytes qs) @ v)) =
    Some (cursor (u @ concat (map question_bytes qs)) v)"
proof (induction qs arbitrary: u n)
  case (Cons q qs)
  then show ?case by (cases n) (simp_all add: reading)
qed simp

text \<open>
  Behind the type and the class of a record, the reader takes the upper half of the TTL for the
  length of the data; the TTL is not skipped.
\<close>

lemma read_record_wire:
  assumes "name_ok n" "length tc = 4"
  shows "read_record (cursor u (name_bytes n @ tc @ [b0, b1] @ v)) =
    (let k = 256 * unat b0 + unat b1; w = u @ name_bytes n @ tc
     in Some (length w, cursor (w @ [b0, b1] @ take k v) (drop k v)))"
proof -
  have "io_read 2 (cursor w ([b0, b1] @ v)) = ([b0, b1], cursor (w @ [b0, b1]) v)" for w
    by (rule io_read_prefix) simp
  then show ?thesis using assms by (simp add: read_record_def reading io_read_cursor Let_def)
qed

lemma short_value: "n < 2 ^ 16 \<Longrightarrow> \<exists>x y. short_bytes n = [x, y] \<and> 256 * unat x + unat y = n"
  by (simp add: short_bytes_def less_mult_imp_div_less)

lemma length_short_bytes [simp]: "length (short_bytes n) = 2"
  by (simp add: short_bytes_def)

lemma header_read:
  assumes "message_ok m"
  shows "\<exists>i f. unpack_HHHHHH (header_of m) = Some [i, f, length (dm_questions m), length (dm_answers m),
      length (dm_authority m), length (dm_additional m)]"
    "length (header_of m) = 12"
proof -
  have "length (dm_questions m) < 2 ^ 16" "length (dm_answers m) < 2 ^ 16" "length (dm_authority m) < 2 ^ 16"
    "length (dm_additional m) < 2 ^ 16"
    using assms by (simp_all add: message_ok_def dm_records_def)
  then obtain q1 q2 a1 a2 n1 n2 r1 r2 where
    "short_bytes (length (dm_questions m)) = [q1, q2]" "256 * unat q1 + unat q2 = length (dm_questions m)"
    "short_bytes (length (dm_answers m)) = [a1, a2]" "256 * unat a1 + unat a2 = length (dm_answers m)"
    "short_bytes (length (dm_authority m)) = [n1, n2]" "256 * unat n1 + unat n2 = length (dm_authority m)"
    "short_bytes (length (dm_additional m)) = [r1, r2]" "256 * unat r1 + unat r2 = length (dm_additional m)"
    using short_value by metis
  moreover have "length (dm_id_flags m) = Suc (Suc (Suc (Suc 0)))" using assms by (simp add: message_ok_def)
  then obtain a b c d where "dm_id_flags m = [a, b, c, d]" by (auto simp: length_Suc_conv)
  ultimately show "\<exists>i f. unpack_HHHHHH (header_of m) = Some [i, f, length (dm_questions m), length (dm_answers m),
      length (dm_authority m), length (dm_additional m)]" "length (header_of m) = 12"
    by (simp_all add: header_of_def)
qed

text \<open>What stands before the records of a message.\<close>

definition before_records :: "dns_message \<Rightarrow> byte list" where
  "before_records m = header_of m @ concat (map question_bytes (dm_questions m))"

lemma dns_validate_message:
  assumes "message_ok m"
  shows "dns_validate (message_bytes m) a =
    map_option (\<lambda>ttls. compare_around ttls 0 (message_bytes m) a)
      (read_records (length (dm_records m)) (cursor (before_records m) (concat (map record_bytes (dm_records m)))))"
proof -
  let ?rest = "concat (map question_bytes (dm_questions m)) @ concat (map record_bytes (dm_records m))"
  obtain i f where h: "unpack_HHHHHH (header_of m) = Some [i, f, length (dm_questions m), length (dm_answers m),
      length (dm_authority m), length (dm_additional m)]"
    using header_read(1) [OF assms] by blast
  have "io_read 12 (BytesIO (message_bytes m)) = (header_of m, cursor (header_of m) ?rest)"
    using io_read_prefix [OF header_read(2) [OF assms], of "[]" ?rest]
    by (simp add: BytesIO_def cursor_def message_bytes_def)
  moreover have "skip_questions (length (dm_questions m)) (cursor (header_of m) ?rest) =
      Some (cursor (before_records m) (concat (map record_bytes (dm_records m))))"
    using assms skip_questions_wire [of "dm_questions m" _ "header_of m"] by (simp add: message_ok_def before_records_def)
  moreover have "length (dm_answers m) + length (dm_authority m) + length (dm_additional m) = length (dm_records m)"
    by (simp add: dm_records_def)
  ultimately show ?thesis
    using h by (simp add: dns_validate_def Let_def numeral_eq_Suc map_option_case split: option.split)
qed

lemma message_bytes_split: "message_bytes m = before_records m @ concat (map record_bytes (dm_records m))"
  by (simp add: message_bytes_def before_records_def)

lemma with_ttl_parts [simp]:
  "before_records (with_ttl t m) = before_records m"
  "dm_records (with_ttl t m) = map (dr_ttl_update (\<lambda>_. t)) (dm_records m)"
  by (simp_all add: with_ttl_def before_records_def header_of_def dm_records_def)

text \<open>A comparison around one position leaves out four bytes.\<close>

lemma compare_one:
  assumes "length t = 4" "v \<noteq> []"
  shows "compare_around [length p] 0 (p @ t @ v) a \<longleftrightarrow> (\<exists>t'. length t' = 4 \<and> a = p @ t' @ v)"
proof -
  have "\<exists>t'. length t' = 4 \<and> a = p @ t' @ v" if "take (length p) a = p" "drop (length p + 4) a = v"
  proof (intro exI conjI)
    have "length a > length p + 4" using that(2) assms(2) by (metis drop_all leI)
    then show "length (take 4 (drop (length p) a)) = 4" by simp
    have "a = take (length p) a @ take 4 (drop (length p) a) @ drop 4 (drop (length p) a)"
      by (simp only: append_take_drop_id)
    with that show "a = p @ take 4 (drop (length p) a) @ v" by (simp add: add.commute)
  qed
  then show ?thesis using assms(1) by (auto simp: slice_def)
qed

section \<open>Properties\<close>

text \<open>
  C16. The DNS validator does what it is meant to do for messages of at most one record: it accepts
  exactly the answers that are the expected message with any TTL, whatever the questions, the
  names (compressed or not), the section of the record and its data; and it raises no exception.
\<close>

theorem dns_ignores_ttl:
  assumes "message_ok m" "length (dm_records m) \<le> 1"
  shows "dns_validate (message_bytes m) a = Some (\<exists>t. length t = 4 \<and> a = message_bytes (with_ttl t m))"
proof (cases "dm_records m")
  case Nil
  then show ?thesis
    using dns_validate_message [OF assms(1)] by (auto simp: message_bytes_split intro: exI [of _ "replicate 4 0"])
next
  case (Cons d ds)
  with assms(2) have d: "dm_records m = [d]" by simp
  with assms(1) have ok: "name_ok (dr_name d)" "length (dr_type_class d) = 4" "length (dr_ttl d) = Suc (Suc (Suc (Suc 0)))"
    by (simp_all add: message_ok_def record_ok_def)
  then obtain b0 b1 b2 b3 where ttl: "dr_ttl d = [b0, b1, b2, b3]" by (auto simp: length_Suc_conv)
  let ?p = "before_records m @ name_bytes (dr_name d) @ dr_type_class d"
  let ?v = "short_bytes (length (dr_data d)) @ dr_data d"
  have bytes: "message_bytes (with_ttl t m) = ?p @ t @ ?v" for t
    using d by (simp add: message_bytes_split record_bytes_def)
  have expected: "message_bytes m = ?p @ dr_ttl d @ ?v" using d by (simp add: message_bytes_split record_bytes_def)
  have "read_records 1 (cursor (before_records m) (record_bytes d)) = Some [length ?p]"
    using read_record_wire [OF ok(1,2), of "before_records m" b0 b1 "[b2, b3] @ ?v"]
    by (simp add: record_bytes_def ttl Let_def)
  then have "dns_validate (message_bytes m) a = Some (compare_around [length ?p] 0 (message_bytes m) a)"
    using dns_validate_message [OF assms(1), of a] d by simp
  also have "\<dots> = Some (\<exists>t. length t = 4 \<and> a = message_bytes (with_ttl t m))"
    unfolding bytes expected by (subst compare_one) (use ok(3) in \<open>simp_all add: short_bytes_def\<close>)
  finally show ?thesis .
qed

text \<open>
  C32. With a second record the DNS validator compares the wrong bytes. Take an answer of two
  records, the first with four bytes of data (an IPv4 address) and a TTL between 256 and 511
  seconds, the second with a compressed name: another last byte of the address is accepted, and
  another TTL of the second record is refused.
\<close>

theorem dns_second_record:
  assumes "message_ok m" "dm_answers m = [d1, d2]" "dm_authority m = []" "dm_additional m = []"
    and "dr_ttl d1 = [0, 0, 1, c]" "dr_data d1 = [x, y, z, w]"
    and "dr_name d2 = \<lparr>dn_labels = [], dn_pointer = Some (p, q)\<rparr>"
    and "length t = 4" "t \<noteq> dr_ttl d2"
  shows "dns_validate (message_bytes m) (message_bytes (m\<lparr>dm_answers := [d1\<lparr>dr_data := [x, y, z, w']\<rparr>, d2]\<rparr>)) = Some True \<and>
    dns_validate (message_bytes m) (message_bytes (m\<lparr>dm_answers := [d1, d2\<lparr>dr_ttl := t\<rparr>]\<rparr>)) = Some False"
proof -
  have d: "dm_records m = [d1, d2]" using assms(2-4) by (simp add: dm_records_def)
  have ok: "name_ok (dr_name d1)" "length (dr_type_class d1) = 4"
    "length (dr_type_class d2) = Suc (Suc (Suc (Suc 0)))" "length (dr_ttl d2) = 4"
    using assms(1) d by (simp_all add: message_ok_def record_ok_def)
  then obtain k k1 k2 k3 where k: "dr_type_class d2 = [k, k1, k2, k3]" by (auto simp: length_Suc_conv)
  let ?p = "before_records m @ name_bytes (dr_name d1) @ dr_type_class d1"
  let ?short = "short_bytes (length (dr_data d2)) @ dr_data d2"
  let ?bytes = "\<lambda>w s. ?p @ [0, 0, 1, c] @ [0, 4, x, y, z] @ [w, p, q, k] @ [k1, k2, k3] @ s @ ?short"
  have bytes: "message_bytes (m\<lparr>dm_answers := [d1\<lparr>dr_data := [x, y, z, w']\<rparr>, d2]\<rparr>) = ?bytes w' (dr_ttl d2)"
    "message_bytes (m\<lparr>dm_answers := [d1, d2\<lparr>dr_ttl := t\<rparr>]\<rparr>) = ?bytes w t" "message_bytes m = ?bytes w (dr_ttl d2)"
    using assms(2-7) k
    by (simp_all add: message_bytes_def before_records_def header_of_def dm_records_def record_bytes_def short_bytes_def name_bytes_def)
  define tail where "tail = [q, k, k1, k2, k3] @ dr_ttl d2 @ ?short"
  let ?name = "\<lparr>dn_labels = [[c]], dn_pointer = None\<rparr>"
  have "concat (map record_bytes (dm_records m)) =
      name_bytes (dr_name d1) @ dr_type_class d1 @ [0, 0] @ name_bytes ?name @ [4, x, y, z] @ [w, p] @ tail"
    using d k assms(5-7)
    by (simp add: record_bytes_def short_bytes_def name_bytes_def label_bytes_def tail_def)
  then have "read_records 2 (cursor (before_records m) (concat (map record_bytes (dm_records m)))) =
      Some [length ?p, length ?p + 9]"
    using read_record_wire [OF ok(1,2), of "before_records m" 0 0 "name_bytes ?name @ [4, x, y, z] @ [w, p] @ tail"]
      read_record_wire [of ?name "[4, x, y, z]" "?p @ [0, 0]" w p tail]
    by (simp add: numeral_eq_Suc name_ok_def name_bytes_def label_bytes_def Let_def)
  then have "dns_validate (message_bytes m) a = Some (compare_around [length ?p, length ?p + 9] 0 (message_bytes m) a)" for a
    using dns_validate_message [OF assms(1), of a] d by (simp add: numeral_eq_Suc)
  then show ?thesis
    unfolding bytes using assms(8,9) ok(4) by (simp add: slice_def)
qed

section \<open>The module in the program\<close>

abbreviation dns_call :: python_call where
  "dns_call \<equiv> \<lparr>py_module = ''dns'', func_name = ''validate'', py_func = True\<rparr>"

text \<open>
  The script is loaded by its name; the example of the README names a file \<open>dns.cap\<close>, which the
  constructor refuses.
\<close>

lemma dns_module_loaded:
  "\<exists>api. parseValidator dns_module no_instance ''python:../src/python/dns.py:validate'' = Inr (api, Python dns_call)"
  "parseValidator dns_module no_instance ''python:../src/python/dns.cap:validate'' =
    Inl (Runtime_error ''python file must end with .py'')"
proof -
  have "case parseValidator dns_module no_instance ''python:../src/python/dns.py:validate'' of
      Inl _ \<Rightarrow> False | Inr (_, Exact) \<Rightarrow> False | Inr (_, Python c) \<Rightarrow> c = dns_call"
    by code_simp
  then show "\<exists>api. parseValidator dns_module no_instance ''python:../src/python/dns.py:validate'' = Inr (api, Python dns_call)"
    by (auto split: sum.splits prod.splits validator.splits)
  show "parseValidator dns_module no_instance ''python:../src/python/dns.cap:validate'' =
      Inl (Runtime_error ''python file must end with .py'')"
    by code_simp
qed

text \<open>
  What the program makes of a judgement: an exception of the script becomes one of the program, and
  every answer that the script judges, accepted or not, ends in the double release.
\<close>

lemma dns_answer_judged:
  "run_validator dns_module (Python dns_call) e d =
    (case dns_validate e d of
       None \<Rightarrow> Inl (Runtime_error ''caling python function failed'')
     | Some b \<Rightarrow> Inl (Undefined_behaviour Use_after_free))"
  by (simp add: py_validate_def dns_module_def decref_def split: option.split)

section \<open>Witnesses\<close>

text \<open>An answer for \<open>a.b\<close> with the addresses 10.0.0.1 and 10.0.0.2 and TTLs of five minutes.\<close>

definition sample_question :: dns_question where
  "sample_question = \<lparr>dq_name = \<lparr>dn_labels = [[97], [98]], dn_pointer = None\<rparr>, dq_type_class = [0, 1, 0, 1]\<rparr>"

definition sample_record :: "byte \<Rightarrow> dns_record" where
  "sample_record w =
     \<lparr>dr_name = \<lparr>dn_labels = [], dn_pointer = Some (0xC0, 12)\<rparr>, dr_type_class = [0, 1, 0, 1],
      dr_ttl = [0, 0, 1, 44], dr_data = [10, 0, 0, w]\<rparr>"

definition sample_answer :: "dns_record list \<Rightarrow> dns_message" where
  "sample_answer ds =
     \<lparr>dm_id_flags = [0, 7, 0x81, 0x80], dm_questions = [sample_question], dm_answers = ds,
      dm_authority = [], dm_additional = []\<rparr>"

lemma sample_answer_ok:
  "message_ok (sample_answer [sample_record 1])" "message_ok (sample_answer [sample_record 1, sample_record 2])"
  by (simp_all add: message_ok_def sample_answer_def sample_question_def sample_record_def dm_records_def
      question_ok_def record_ok_def name_ok_def)

theorem dns_ignores_ttl_witness:
  "dns_validate (message_bytes (sample_answer [sample_record 1]))
      (message_bytes (with_ttl [1, 2, 3, 4] (sample_answer [sample_record 1]))) = Some True"
  by (subst dns_ignores_ttl [OF sample_answer_ok(1)])
    (auto simp: sample_answer_def dm_records_def intro!: exI [of _ "[1, 2, 3, 4]"])

theorem dns_second_record_witness:
  "dns_validate (message_bytes (sample_answer [sample_record 1, sample_record 2]))
      (message_bytes (sample_answer [sample_record 99, sample_record 2])) = Some True \<and>
   dns_validate (message_bytes (sample_answer [sample_record 1, sample_record 2]))
      (message_bytes (sample_answer [sample_record 1, (sample_record 2)\<lparr>dr_ttl := [0, 0, 1, 43]\<rparr>])) = Some False"
proof -
  let ?m = "sample_answer [sample_record 1, sample_record 2]"
  have parts: "dm_answers ?m = [sample_record 1, sample_record 2]" "dm_authority ?m = []" "dm_additional ?m = []"
    "dr_ttl (sample_record 1) = [0, 0, 1, 44]" "dr_data (sample_record 1) = [10, 0, 0, 1]"
    "dr_name (sample_record 2) = \<lparr>dn_labels = [], dn_pointer = Some (0xC0, 12)\<rparr>" "[0, 0, 1, 43] \<noteq> dr_ttl (sample_record 2)"
    "?m\<lparr>dm_answers := [(sample_record 1)\<lparr>dr_data := [10, 0, 0, 99]\<rparr>, sample_record 2]\<rparr> = sample_answer [sample_record 99, sample_record 2]"
    "?m\<lparr>dm_answers := [sample_record 1, (sample_record 2)\<lparr>dr_ttl := [0, 0, 1, 43]\<rparr>]\<rparr> =
      sample_answer [sample_record 1, (sample_record 2)\<lparr>dr_ttl := [0, 0, 1, 43]\<rparr>]"
    by (simp_all add: sample_answer_def sample_record_def)
  from dns_second_record [OF sample_answer_ok(2) parts(1-6) _ parts(7), of 99] show ?thesis
    unfolding parts(8,9) by simp
qed

end
