(* ===== verification/Spec2Isabelle.thy ===== *)
theory Spec2Isabelle
  imports Http_Sessions Http_Completion Udp_Program Store_Destruction Dissected_Packets Script_Reading
    Dns_Validator
begin

text \<open>
  Verification of packet-replay: a library and two programs that read a PCAP capture, record the actions of
  the conversations in it and replay them against a test server.

  The program's parts and the theories that model them. \<open>Util\<close> and \<open>Numbers\<close> hold
  the string helpers (src/src/lib/util.cc) with the parts of the C and C++ libraries they call:
  \<open>getline\<close> on string streams, \<open>find\<close>, \<open>strtoul\<close>,
  \<open>stoul\<close>, \<open>stoi\<close>. \<open>Inet\<close> holds byte order and the conversion of IPv4
  addresses. \<open>Network_Layers\<close> holds the layer classes and the packet (network_layers.h,
  transport_packet.h): a pointer into a frame is the list of the bytes from there to the end of the frame,
  so that every read is checked. \<open>Actions\<close> holds actions, tokens, the base class of
  conversations and its queue (action.h, packet_conversation.h, target_test_server.h).
  \<open>Tcp_Conversation\<close> and \<open>Udp_Conversation\<close> hold the two recorders
  (lib/tcp_conversation.cc, lib/udp_conversation.cc), \<open>Tcp_States\<close> the states of the first as a
  step relation, \<open>Conversation_Factory\<close> the client specifications and keys
  (lib/conversation_factory.cc), \<open>Conversation_Store\<close> the table of conversations
  (conversation_store.h), and \<open>Capture\<close> dissection and the loop over a file (lib/capture.cc). A
  captured frame becomes a packet, the store finds or opens its conversation by key, and the conversation
  appends actions to its queue. \<open>Dissected_Packets\<close> shows what can fail on arbitrary bytes.

  The same path a second time, with the objects that \<open>new\<close> creates and \<open>delete\<close> destroys:
  \<open>Memory\<close> holds addresses and objects, \<open>Packet_Memory\<close> the packet as a vector of pointers with
  its destructor (transport_packet.h, lib/capture.cc), \<open>Store_Memory\<close> the store as maps of pointers
  and the queue as a deque of pointers, with the operations of the store, the packet handler and the
  destructors (conversation_store.h, packet_conversation.h), and \<open>Store_Destruction\<close> the life of a
  store from the command line to its end. The pointer model simulates the one on values step by step,
  so what is proved of values holds of the objects.

  \<open>Base64_Tables\<close> and \<open>Base64\<close> hold the codec (base64.h) for either byte order of
  the host, \<open>Properties\<close> the table of named values (lib/properties.cc),
  \<open>Serializer_Write\<close>, \<open>Serializer_Data\<close> and \<open>Serializer\<close> the script
  format (lib/conversation_serializer.cc), and \<open>Script_Reading\<close> what reading does.
  \<open>Packet_Validator\<close> holds the comparison of packets (lib/packet_validator.cc) and
  \<open>Python_Api\<close> the call of a Python function with its reference counts (lib/python_api.cc);
  \<open>Dns_Validator\<close> holds the Python module that ships with the programs (python/dns.py) on the wire
  format of DNS messages, as an instance of the interpreter the other theories have as a parameter.
  \<open>Http_Response\<close> holds the incremental response parser (http_replay/http_response_processor.h
  and .cc), \<open>Http_Chunked\<close> and \<open>Http_Properties\<close> what it decodes.
  \<open>Sockets\<close> is the interface to the operating system, \<open>Http_Replay\<close> and
  \<open>Udp_Replay\<close> are the clients (http_replay.cc, udp_replay.cc), \<open>Programs\<close> holds
  both \<open>main\<close> functions, \<open>Http_Sessions\<close> the calls of a whole HTTP program,
  \<open>Http_Servers\<close> the servers that answer, as environments, with the responses and exchanges they
  answer by, \<open>Http_Completion\<close> the HTTP program from a capture file to its end against such a
  server, and \<open>Udp_Program\<close> what the UDP program does from a capture file to the server.

  Errors. A function that can throw, or that can execute an operation whose behaviour the C++ standard
  leaves undefined, returns \<open>error + 'a\<close>; \<open>Prelude\<close> has the type and the
  sequencing. Loops that may run forever are partial functions into an option, where \<open>None\<close>
  stands for not returning; for the reader of scripts and for the response processor, termination
  is a theorem on every input; that the loops that read from a socket and replay a queue return, and so
  the two programs, is a theorem for every server that accepts, takes some bytes of a write and answers
  (\<open>serves\<close>, \<open>datagrams_pass\<close>); an HTTP server has to send the whole header of a response with
  the first read after the request, since the client dereferences a null pointer otherwise. No fuel is used.

  What the lemmas show. Recording: the handlers refine an abstract recorder on decoded segments; a session
  is recorded as its payloads from behind the handshake to the first \<open>FIN\<close>, in order between
  \<open>CONNECT\<close> and \<open>CLOSE\<close>; every
  packet, malformed or not, is a step of the state machine, whose reachable queues are replayable; keys
  identify flows; each stored conversation records exactly its own packets; dissection inverts the wire
  format. Scripts: what is written, with an address line added, reads back up to the first action without
  data, where reading is undefined, so no script with a \<open>CONNECT\<close> or \<open>CLOSE\<close> is read; Base64 equals a
  reference codec and round-trips; the data reader restores data whose chunks are long enough for the
  ranges it copies, and what it does with a short first chunk is stated as well. Replay: whatever the environment
  answers, a replay that returns sent exactly the recorded data, and differences are reported exactly where
  the comparison sees any, which for chunked data stops at a zero byte; responses are decoded for every split into pieces that the code supports; the DNS module
  ignores exactly the TTL of a single record. The compositions
  of options, capture, recorder and client are the first six properties: what the programs send and report
  in any environment when they end, and that they end, with which reports, when the server answers; the
  seventh says that the objects behind them are neither used after they are deleted nor deleted twice, and
  which of them leak.
  Several theorems describe inputs on which the code fails: they state the undefined operation or the
  wrong result.

  Interfaces. The locales \<open>ordered_map\<close> (\<open>std::map\<close> on sorted lists),
  \<open>address_text\<close> (printing and parsing of addresses), \<open>action_queue_ops\<close> (the
  queue of a conversation as its clients use it) and \<open>recorder\<close> (what the store needs of a
  conversation class), with \<open>safe_recorder\<close> (which errors a handler may end with) and
  \<open>appending_recorder\<close> (a handler only appends to the queue), are interpreted on the model's own
  definitions; the replay clients use the queue only through its laws. The locale \<open>body_format\<close>
  states what the HTTP client needs of a kind of response: which stretches of a body must arrive in one
  piece, what the processor holds while some are missing, and what its comparison sees. A whole replay is
  followed once inside it; responses with a content length, where every byte may arrive alone and bodies
  are compared exactly, and chunked responses, where a chunk-size line must arrive whole and data is
  compared up to a zero byte, are its two interpretations.

  Parameters and bounds. The size of the data reader's buffer (\<open>BUFSIZ\<close>) is a parameter of at
  least 30 bytes, which every C library exceeds; lengths that the code keeps as \<open>int\<close> are below
  \<open>2 ^ 31\<close> where a statement needs it, and wrap-around is written out where the code depends on
  it (the scan for unprintable bytes, ports, \<open>int\<close> from \<open>unsigned long\<close>). Given as
  arguments, with their documented behaviour as named hypotheses: IPv6 text conversion
  (\<open>inet6\<close>), libpcap, \<open>getaddrinfo\<close>, the order in which an unordered map is
  visited, the system calls (\<open>environment\<close>: \<open>write\<close> takes no more than it is
  given, \<open>read\<close> and \<open>recvfrom\<close> store what they count), the Python interpreter, the
  result of \<open>getopt\<close>.

  Idealised: objects of derived classes that are deleted through a base class without a virtual
  destructor (the layers of a packet, the data processors of a response) count as deleted, although the
  C++ standard leaves this undefined; the findings of the development name both places.

  Not modelled: \<open>printUsage\<close> and other output to the terminal beyond the messages about
  differences; the destructors of classes that hold only values and \<open>unique_ptr\<close>s, which the compiler
  writes; the memory of the values themselves (strings, vectors, maps); the constructors of the layer
  classes beyond storing a pointer and a length; what the Python module prints; the build files.
\<close>

end
